(* ===== verification/Prelude.thy ===== *)
theory Prelude
  imports Main "HOL-Library.Word" "HOL-Library.Finite_Map"
begin

text \<open>
  Shared vocabulary of the development: the machine integers and times of the Go
  program, decimal rendering (the \<open>%d\<close> verb), the string functions of package
  \<open>strings\<close> the code calls, and the generic list and word lemmas the component
  theories use. Strings are Go strings, that is byte sequences; a \<open>char\<close> is a byte.
\<close>

named_theorems port_defs \<open>the ports of the Redis adapters, unfolded\<close>
named_theorems mem_eval \<open>executing a command on the server in memory\<close>

subsection \<open>Integers and time\<close>

text \<open>
  Go's \<open>int\<close> and \<open>int64\<close> are 64 bits wide and wrap; \<open>time.Duration\<close> is an \<open>int64\<close>
  number of nanoseconds. An instant (\<open>time.Time\<close>) is its number of nanoseconds since
  the Unix epoch; the zero \<open>time.Time\<close> is the first instant of the year 1.
\<close>

type_synonym i8 = "8 word"
type_synonym i64 = "64 word"
type_synonym duration = i64
type_synonym go_time = int

definition zero_time :: go_time where
  "zero_time = - 62135596800 * 1000000000"

definition time_add :: "go_time \<Rightarrow> duration \<Rightarrow> go_time" where
  "time_add t d = t + sint d"

definition time_unix :: "go_time \<Rightarrow> int" where
  "time_unix t = t div 1000000000"

definition go_second :: duration where
  "go_second = 1000000000"

lemma time_unix_mono: "s \<le> t \<Longrightarrow> time_unix s \<le> time_unix t"
  by (simp add: time_unix_def zdiv_mono1)

lemma time_unix_add_nonneg: "0 \<le> sint d \<Longrightarrow> time_unix t \<le> time_unix (time_add t d)"
  by (rule time_unix_mono) (simp add: time_add_def)

text \<open>Incrementing below a signed bound does not wrap.\<close>

lemma sint_i64_bounds: "- (2 ^ 63) \<le> sint (x :: i64) \<and> sint x < 2 ^ 63"
  using sint_lt [of x] sint_ge [of x] by simp

lemma sint_i64_inc: "sint (x + 1 :: i64) = sint x + 1" if "sint x < 2 ^ 63 - 1"
proof -
  have "sint (x + 1) = signed_take_bit 63 (sint x + sint (1 :: i64))"
    by (simp add: sint_word_ariths)
  also have "sint (1 :: i64) = 1" by simp
  also have "signed_take_bit 63 (sint x + 1) = sint x + 1"
    by (rule signed_take_bit_int_eq_self) (use sint_i64_bounds [of x] that in auto)
  finally show ?thesis .
qed

lemma sint_i64_inc_less: "x <s y \<Longrightarrow> sint (x + 1 :: i64) = sint x + 1"
  using sint_i64_bounds [of y] by (intro sint_i64_inc) (simp add: word_sless_alt)

lemma sint_i64_dec: "sint (x - 1 :: i64) = sint x - 1" if "- (2 ^ 63) < sint x"
proof -
  have "sint (x - 1) = signed_take_bit 63 (sint x - sint (1 :: i64))"
    by (simp add: sint_word_ariths)
  also have "sint (1 :: i64) = 1" by simp
  also have "signed_take_bit 63 (sint x - 1) = sint x - 1"
    by (rule signed_take_bit_int_eq_self) (use sint_i64_bounds [of x] that in auto)
  finally show ?thesis .
qed

lemma sint_i64_of_int: "sint (word_of_int i :: i64) = i" if "- (2 ^ 63) \<le> i" "i < 2 ^ 63"
  using that by (simp add: sint_sbintrunc' signed_take_bit_int_eq_self)

lemma word_i64_eq_iff: "(x :: i64) = y \<longleftrightarrow> sint x = sint y"
  by (metis signed_word_eqI)

lemma word_i8_eq_iff: "(x :: i8) = y \<longleftrightarrow> sint x = sint y"
  by (metis signed_word_eqI)

subsection \<open>Decimal rendering\<close>

definition digit_char :: "nat \<Rightarrow> char" where
  "digit_char n = ''0123456789'' ! n"

definition is_digit :: "char \<Rightarrow> bool" where
  "is_digit c \<longleftrightarrow> c \<in> set ''0123456789''"

fun show_nat :: "nat \<Rightarrow> string" where
  "show_nat n = (if n < 10 then [digit_char n] else show_nat (n div 10) @ [digit_char (n mod 10)])"

declare show_nat.simps [simp del]

definition show_int :: "int \<Rightarrow> string" where
  "show_int i = (if i < 0 then CHR ''-'' # show_nat (nat (- i)) else show_nat (nat i))"

lemma less_ten_cases: "n < 10 \<longleftrightarrow> n \<in> {0, 1, 2, 3, 4, 5, 6, 7, 8, 9 :: nat}"
  by auto

lemma digit_char_inj: "m < 10 \<Longrightarrow> n < 10 \<Longrightarrow> digit_char m = digit_char n \<longleftrightarrow> m = n"
  unfolding less_ten_cases by (auto simp: digit_char_def)

lemma is_digit_digit_char [simp]: "n < 10 \<Longrightarrow> is_digit (digit_char n)"
  unfolding less_ten_cases by (auto simp: digit_char_def is_digit_def)

lemma show_nat_not_Nil [simp]: "show_nat n \<noteq> []"
  by (subst show_nat.simps) simp

lemma show_nat_digits: "c \<in> set (show_nat n) \<Longrightarrow> is_digit c"
proof (induction n rule: show_nat.induct)
  case (1 n)
  then show ?case
    by (subst (asm) show_nat.simps) (auto split: if_splits)
qed

lemma show_nat_inj [simp]: "show_nat m = show_nat n \<longleftrightarrow> m = n"
proof (induction m arbitrary: n rule: show_nat.induct)
  case (1 m)
  have step: "show_nat (k div 10) @ [digit_char (k mod 10)] \<noteq> [x]" for k x
    by simp
  have "show_nat m = show_nat n \<longleftrightarrow> m = n" if "\<not> m < 10" "\<not> n < 10"
  proof -
    have "show_nat m = show_nat n \<longleftrightarrow>
        show_nat (m div 10) = show_nat (n div 10) \<and> m mod 10 = n mod 10"
      using that by (simp add: show_nat.simps [of m] show_nat.simps [of n] digit_char_inj)
    also have "\<dots> \<longleftrightarrow> m div 10 = n div 10 \<and> m mod 10 = n mod 10"
      using "1.IH" that by simp
    also have "\<dots> \<longleftrightarrow> m = n" by (metis div_mult_mod_eq)
    finally show ?thesis .
  qed
  moreover have "show_nat m = show_nat n \<longleftrightarrow> m = n" if "m < 10 \<or> n < 10"
    using that step [of m] step [of n]
    by (auto simp: show_nat.simps [of m] show_nat.simps [of n] digit_char_inj dest: sym)
  ultimately show ?case by blast
qed

lemma show_int_chars: "c \<in> set (show_int i) \<Longrightarrow> is_digit c \<or> c = CHR ''-''"
  by (auto simp: show_int_def dest: show_nat_digits split: if_splits)

lemma show_nat_no_minus: "show_nat n \<noteq> CHR ''-'' # xs"
  using show_nat_digits [of "CHR ''-''" n] by (auto simp: is_digit_def)

lemma show_int_inj [simp]: "show_int i = show_int j \<longleftrightarrow> i = j"
  using show_nat_no_minus show_nat_no_minus [symmetric]
  by (auto simp: show_int_def eq_commute [of "_ # _" "show_nat _"])

subsection \<open>Decimal parsing\<close>

text \<open>An optional sign and at least one digit; \<open>None\<close> is a syntax error.\<close>

definition digit_val :: "char \<Rightarrow> nat" where
  "digit_val c = of_char c - 48"

definition digits_val :: "string \<Rightarrow> nat" where
  "digits_val s = foldl (\<lambda>n c. 10 * n + digit_val c) 0 s"

definition parse_nat :: "string \<Rightarrow> nat option" where
  "parse_nat s = (if s \<noteq> [] \<and> list_all is_digit s then Some (digits_val s) else None)"

definition parse_int :: "string \<Rightarrow> int option" where
  "parse_int s =
     (case s of
        [] \<Rightarrow> None
      | c # r \<Rightarrow>
          if c = CHR ''-'' then map_option (\<lambda>n. - int n) (parse_nat r)
          else if c = CHR ''+'' then map_option int (parse_nat r)
          else map_option int (parse_nat s))"

lemma digit_val_digit_char [simp]: "n < 10 \<Longrightarrow> digit_val (digit_char n) = n"
  unfolding less_ten_cases by (auto simp: digit_char_def digit_val_def)

lemma digits_val_show_nat [simp]: "digits_val (show_nat n) = n"
proof (induction n rule: show_nat.induct)
  case (1 n)
  show ?case
    by (subst show_nat.simps) (use 1 in \<open>auto simp: digits_val_def\<close>)
qed

lemma parse_nat_show_nat [simp]: "parse_nat (show_nat n) = Some n"
  by (auto simp: parse_nat_def list_all_iff dest: show_nat_digits)

lemma show_nat_first: "show_nat n = c # r \<Longrightarrow> c \<noteq> CHR ''-'' \<and> c \<noteq> CHR ''+''"
  using show_nat_digits [of c n] by (auto simp: is_digit_def)

lemma parse_int_show_int [simp]: "parse_int (show_int i) = Some i"
proof (cases "i < 0")
  case True
  then show ?thesis by (simp add: show_int_def parse_int_def)
next
  case False
  obtain c r where cr: "show_nat (nat i) = c # r" by (cases "show_nat (nat i)") auto
  have "parse_int (c # r) = map_option int (parse_nat (c # r))"
    using show_nat_first [OF cr] by (simp add: parse_int_def)
  with False show ?thesis by (simp add: show_int_def flip: cr)
qed

subsection \<open>Strings\<close>

text \<open>The last occurrence of a separator splits a string in one way only.\<close>

lemma append_sep_inj:
  assumes "xs @ c # ys = xs' @ c # ys'" and "c \<notin> set ys" and "c \<notin> set ys'"
  shows "xs = xs' \<and> ys = ys'"
proof -
  have "rev ys @ c # rev xs = rev ys' @ c # rev xs'"
    using arg_cong [OF assms(1), of rev] by simp
  moreover have "takeWhile (\<lambda>x. x \<noteq> c) (rev ys @ c # rev xs) = rev ys"
    using assms(2) by (subst takeWhile_append2) auto
  moreover have "takeWhile (\<lambda>x. x \<noteq> c) (rev ys' @ c # rev xs') = rev ys'"
    using assms(3) by (subst takeWhile_append2) auto
  ultimately have "ys = ys'" by simp
  with assms(1) show ?thesis by simp
qed

text \<open>The first occurrence of a separator, likewise.\<close>

lemma append_sep_inj_first:
  assumes "xs @ c # ys = xs' @ c # ys'" and "c \<notin> set xs" and "c \<notin> set xs'"
  shows "xs = xs' \<and> ys = ys'"
proof -
  have "rev ys @ c # rev xs = rev ys' @ c # rev xs'"
    using arg_cong [OF assms(1), of rev] by simp
  from append_sep_inj [OF this] assms(2,3) show ?thesis by simp
qed

definition HasPrefix :: "string \<Rightarrow> string \<Rightarrow> bool" where
  "HasPrefix s p \<longleftrightarrow> take (length p) s = p"

lemma HasPrefix_simps [simp]:
  "HasPrefix s []" "\<not> HasPrefix [] (p # ps)"
  "HasPrefix (c # s) (p # ps) \<longleftrightarrow> c = p \<and> HasPrefix s ps"
  by (auto simp: HasPrefix_def)

lemma HasPrefix_append [simp]: "HasPrefix (p @ s) p"
  by (simp add: HasPrefix_def)

lemma HasPrefix_iff: "HasPrefix s p \<longleftrightarrow> (\<exists>t. s = p @ t)"
  by (metis HasPrefix_def HasPrefix_append append_take_drop_id)

fun Contains :: "string \<Rightarrow> string \<Rightarrow> bool" where
  "Contains [] p \<longleftrightarrow> p = []"
| "Contains (c # s) p \<longleftrightarrow> HasPrefix (c # s) p \<or> Contains s p"

lemma Contains_iff: "Contains s p \<longleftrightarrow> (\<exists>l r. s = l @ p @ r)"
proof (induction s)
  case Nil
  then show ?case by auto
next
  case (Cons c s)
  have "(\<exists>l r. c # s = l @ p @ r) \<longleftrightarrow> (\<exists>r. c # s = p @ r) \<or> (\<exists>l r. s = l @ p @ r)"
    by (metis append_Cons append_Nil list.exhaust list.inject)
  with Cons show ?case by (auto simp: HasPrefix_iff)
qed

text \<open>\<open>strings.Index\<close> for a one-byte needle: \<open>None\<close> is the result -1.\<close>

fun index_byte :: "string \<Rightarrow> char \<Rightarrow> nat option" where
  "index_byte [] b = None"
| "index_byte (c # s) b = (if c = b then Some 0 else map_option Suc (index_byte s b))"

lemma index_byte_None: "index_byte s b = None \<longleftrightarrow> b \<notin> set s"
  by (induction s) auto

lemma index_byte_append: "b \<notin> set s \<Longrightarrow> index_byte (s @ b # t) b = Some (length s)"
  by (induction s) auto

lemma index_byte_Some:
  "index_byte s b = Some i \<Longrightarrow> i < length s \<and> s ! i = b \<and> b \<notin> set (take i s)"
  by (induction s arbitrary: i) (auto split: if_splits)

text \<open>\<open>strings.Join\<close>.\<close>

fun Join :: "string list \<Rightarrow> string \<Rightarrow> string" where
  "Join [] sep = []"
| "Join [s] sep = s"
| "Join (s # t # ts) sep = s @ sep @ Join (t # ts) sep"

end
