(* ===== verification/Go_Error.thy ===== *)
theory Go_Error
  imports Prelude
begin

text \<open>
  Go's \<open>error\<close> values as the program builds them. A wrapped error
  (\<open>fmt.Errorf("pre: %w", err)\<close>) keeps the inner error, so \<open>errors.Is\<close> walks the
  chain; a \<open>MultiError\<close> unwraps to all its errors. A nil error is \<open>None\<close>.
\<close>

subsection \<open>Sentinels, validation errors, multi errors\<close>

text \<open>
  \<open>ErrNonRetryable\<close> and \<open>ErrCircuitOpen\<close> are the sentinels of internal/ports/errors.go;
  \<open>ErrCanceled\<close>, \<open>ErrDeadlineExceeded\<close> and \<open>ErrRedisNil\<close> are those of package
  \<open>context\<close> and of the Redis client the code compares with.
\<close>

datatype sentinel =
  ErrNonRetryable | ErrCircuitOpen | ErrCanceled | ErrDeadlineExceeded | ErrRedisNil

record ValidationError =
  Field :: string
  Message :: string

datatype go_error =
  ESentinel sentinel
| ENew string
| EWrap string go_error
| EValidation ValidationError
| EMulti "go_error list"

fun errors_is :: "go_error \<Rightarrow> sentinel \<Rightarrow> bool" where
  "errors_is (ESentinel s) t \<longleftrightarrow> s = t"
| "errors_is (ENew _) t \<longleftrightarrow> False"
| "errors_is (EWrap _ e) t \<longleftrightarrow> errors_is e t"
| "errors_is (EValidation _) t \<longleftrightarrow> False"
| "errors_is (EMulti es) t \<longleftrightarrow> (\<exists>e \<in> set es. errors_is e t)"

subsection \<open>Error texts\<close>

definition sentinel_text :: "sentinel \<Rightarrow> string" where
  "sentinel_text s =
     (case s of
        ErrNonRetryable \<Rightarrow> ''non-retryable delivery failure''
      | ErrCircuitOpen \<Rightarrow> ''circuit breaker open''
      | ErrCanceled \<Rightarrow> ''context canceled''
      | ErrDeadlineExceeded \<Rightarrow> ''context deadline exceeded''
      | ErrRedisNil \<Rightarrow> ''redis: nil'')"

definition ValidationError_Error :: "ValidationError \<Rightarrow> string" where
  "ValidationError_Error e = ''validation: '' @ Field e @ '': '' @ Message e"

text \<open>\<open>(*MultiError).Error\<close>, on the texts of the errors it holds.\<close>

definition MultiError_Error :: "string list \<Rightarrow> string" where
  "MultiError_Error msgs =
     (if length msgs = 1 then msgs ! 0
      else show_nat (length msgs) @ '' errors: '' @
        Join (map (\<lambda>(i, m). ''['' @ show_nat (i + 1) @ ''] '' @ m) (enumerate 0 msgs)) ''; '')"

fun Error :: "go_error \<Rightarrow> string" where
  "Error (ESentinel s) = sentinel_text s"
| "Error (ENew m) = m"
| "Error (EWrap pre e) = pre @ '': '' @ Error e"
| "Error (EValidation v) = ValidationError_Error v"
| "Error (EMulti es) = MultiError_Error (map Error es)"

text \<open>
  \<open>strconv.Quote\<close> (the \<open>%q\<close> verb) on ASCII; bytes from 128 up are copied, which is what
  it does to printable UTF-8.
\<close>

definition quote_char :: "char \<Rightarrow> string" where
  "quote_char c =
     (if c = CHR 0x22 then [CHR 0x5C, CHR 0x22]
      else if c = CHR 0x5C then [CHR 0x5C, CHR 0x5C]
      else if c = CHR 0x07 then [CHR 0x5C, CHR ''a'']
      else if c = CHR 0x08 then [CHR 0x5C, CHR ''b'']
      else if c = CHR 0x0C then [CHR 0x5C, CHR ''f'']
      else if c = CHR 0x0A then [CHR 0x5C, CHR ''n'']
      else if c = CHR 0x0D then [CHR 0x5C, CHR ''r'']
      else if c = CHR 0x09 then [CHR 0x5C, CHR ''t'']
      else if c = CHR 0x0B then [CHR 0x5C, CHR ''v'']
      else if (of_char c :: nat) < 32 \<or> c = CHR 0x7F
      then [CHR 0x5C, CHR ''x'', ''0123456789abcdef'' ! ((of_char c :: nat) div 16),
            ''0123456789abcdef'' ! ((of_char c :: nat) mod 16)]
      else [c])"

definition go_quote :: "string \<Rightarrow> string" where
  "go_quote s = [CHR 0x22] @ concat (map quote_char s) @ [CHR 0x22]"

subsection \<open>Batches\<close>

text \<open>
  The loop of the batch operations: run \<open>f\<close> on every task and collect the errors,
  each wrapped with its task's ID.
\<close>

definition multi_result :: "go_error list \<Rightarrow> go_error option" where
  "multi_result errs = (if errs = [] then None else Some (EMulti errs))"

lemma errors_is_multi [simp]:
  "errors_is (EMulti es) t \<longleftrightarrow> (\<exists>e \<in> set es. errors_is e t)"
  by simp

lemma multi_result_None [simp]: "multi_result errs = None \<longleftrightarrow> errs = []"
  by (simp add: multi_result_def)

lemma multi_result_Some [simp]:
  "multi_result errs = Some e \<longleftrightarrow> errs \<noteq> [] \<and> e = EMulti errs"
  by (auto simp: multi_result_def)

end
