(* ===== verification/GoFloat.thy ===== *)
theory GoFloat
  imports Prelude "HOL-Library.Log_Nat"
begin

text \<open>
  The \<open>float64\<close> operations the retry policy uses: IEEE 754 binary64 with
  round-to-nearest, ties to even, gradual underflow and overflow to infinity, over
  exact rationals so that every operation computes. The sign of zero is not kept (no
  operation the code uses tells the two zeros apart). The lemmas give what the bounds
  on delays need: rounding is monotone and leaves the integers up to \<open>2 ^ 53\<close> alone.
\<close>

datatype f64 = Fin rat | PInf | NInf | NaN

subsection \<open>Binary exponent of a positive rational\<close>

definition rat_ilog2 :: "rat \<Rightarrow> int" where
  "rat_ilog2 x =
     (let (p, q) = quotient_of x; e = bitlen p - bitlen q
      in if 2 powi e \<le> x then e else e - 1)"

lemma powi_less_iff: "(2::rat) powi i < 2 powi j \<longleftrightarrow> i < j"
proof -
  have mono: "a < b \<Longrightarrow> (2::rat) powi a < 2 powi b" for a b :: int
    by (rule power_int_strict_increasing) auto
  show ?thesis
    using mono [of i j] mono [of j i] by (cases i j rule: linorder_cases) auto
qed

lemma powi_le_iff: "(2::rat) powi i \<le> 2 powi j \<longleftrightarrow> i \<le> j"
  by (meson linorder_not_less powi_less_iff)

lemma powi_pos [simp]: "0 < (2::rat) powi i"
  by simp

lemma powi_of_int: "0 \<le> i \<Longrightarrow> (2::rat) powi i = of_int (2 ^ nat i)"
  by (simp add: power_int_def)

lemma rat_ilog2_bounds:
  assumes "0 < x"
  shows "2 powi (rat_ilog2 x) \<le> x" and "x < 2 powi (rat_ilog2 x + 1)"
proof -
  obtain p q where pq: "quotient_of x = (p, q)" by (cases "quotient_of x")
  have x: "x = of_int p / of_int q" by (rule quotient_of_div [OF pq])
  have q: "0 < q" by (rule quotient_of_denom_pos [OF pq])
  with assms x have p: "0 < p" by (simp add: zero_less_divide_iff)
  define e where "e = bitlen p - bitlen q"
  have P: "2 ^ nat (bitlen p - 1) \<le> p" "p < 2 ^ nat (bitlen p)"
    and Q: "2 ^ nat (bitlen q - 1) \<le> q" "q < 2 ^ nat (bitlen q)"
    using bitlen_bounds [OF p] bitlen_bounds [OF q] by auto
  have bp: "1 \<le> bitlen p" and bq: "1 \<le> bitlen q"
    using bitlen_nonneg [of p] bitlen_eq_zero_iff [of p] p
      bitlen_nonneg [of q] bitlen_eq_zero_iff [of q] q by linarith+
  have p_lo: "(2::rat) powi (bitlen p - 1) \<le> of_int p"
    and p_hi: "of_int p < (2::rat) powi (bitlen p)"
    using P bp by (simp_all only: powi_of_int bitlen_nonneg diff_ge_0_iff_ge of_int_le_iff of_int_less_iff)
  have q_lo: "(2::rat) powi (bitlen q - 1) \<le> of_int q"
    and q_hi: "of_int q < (2::rat) powi (bitlen q)"
    using Q bq by (simp_all only: powi_of_int bitlen_nonneg diff_ge_0_iff_ge of_int_le_iff of_int_less_iff)
  have qr: "(0::rat) < of_int q" using q by simp
  have lo: "2 powi (e - 1) \<le> x"
  proof -
    have "(2::rat) powi (e - 1) * of_int q \<le> 2 powi (e - 1) * 2 powi (bitlen q)"
      using q_hi by simp
    also have "\<dots> = 2 powi (bitlen p - 1)"
      by (simp add: e_def flip: power_int_add)
    also have "\<dots> \<le> of_int p" by (rule p_lo)
    finally show ?thesis using qr by (simp add: x pos_le_divide_eq)
  qed
  have hi: "x < 2 powi (e + 1)"
  proof -
    have "of_int p < (2::rat) powi (bitlen p)" by (rule p_hi)
    also have "\<dots> = 2 powi (e + 1) * 2 powi (bitlen q - 1)"
      by (simp add: e_def flip: power_int_add)
    also have "\<dots> \<le> 2 powi (e + 1) * of_int q"
      using q_lo by simp
    finally show ?thesis using qr by (simp add: x pos_divide_less_eq)
  qed
  have l: "rat_ilog2 x = (if 2 powi e \<le> x then e else e - 1)"
    by (simp add: rat_ilog2_def pq e_def Let_def)
  show "2 powi (rat_ilog2 x) \<le> x" using lo by (simp add: l)
  show "x < 2 powi (rat_ilog2 x + 1)" using hi by (simp add: l)
qed

lemma rat_ilog2_eqI:
  assumes "2 powi e \<le> x" and "x < 2 powi (e + 1)"
  shows "rat_ilog2 x = e"
proof -
  have x: "0 < x" using assms(1) powi_pos [of e] by linarith
  have "(2::rat) powi (rat_ilog2 x) < 2 powi (e + 1)" "(2::rat) powi e < 2 powi (rat_ilog2 x + 1)"
    using rat_ilog2_bounds [OF x] assms by linarith+
  then show ?thesis by (simp add: powi_less_iff)
qed

lemma rat_ilog2_mono: "0 < x \<Longrightarrow> x \<le> y \<Longrightarrow> rat_ilog2 x \<le> rat_ilog2 y"
proof -
  assume "0 < x" "x \<le> y"
  then have "(2::rat) powi (rat_ilog2 x) < 2 powi (rat_ilog2 y + 1)"
    using rat_ilog2_bounds(1) [of x] rat_ilog2_bounds(2) [of y] by linarith
  then show ?thesis by (simp add: powi_less_iff)
qed

subsection \<open>Rounding\<close>

definition round_half_even :: "rat \<Rightarrow> int" where
  "round_half_even y =
     (let f = \<lfloor>y\<rfloor>; d = y - of_int f
      in if d < 1 / 2 then f else if 1 / 2 < d then f + 1 else if even f then f else f + 1)"

lemma round_half_even_bounds: "\<lfloor>y\<rfloor> \<le> round_half_even y" "round_half_even y \<le> \<lfloor>y\<rfloor> + 1"
  by (simp_all add: round_half_even_def Let_def)

lemma round_half_even_int [simp]: "round_half_even (of_int k) = k"
  by (simp add: round_half_even_def)

lemma round_half_even_mono: "y \<le> z \<Longrightarrow> round_half_even y \<le> round_half_even z"
proof -
  assume yz: "y \<le> z"
  show ?thesis
  proof (cases "\<lfloor>y\<rfloor> = \<lfloor>z\<rfloor>")
    case True
    with yz show ?thesis by (auto simp: round_half_even_def Let_def)
  next
    case False
    with floor_mono [OF yz] have "\<lfloor>y\<rfloor> + 1 \<le> \<lfloor>z\<rfloor>" by linarith
    with round_half_even_bounds [of y] round_half_even_bounds [of z] show ?thesis by linarith
  qed
qed

text \<open>The weight of the last kept bit: 53 significant bits, never below \<open>2 ^ -1074\<close>.\<close>

definition ulp_exp :: "rat \<Rightarrow> int" where
  "ulp_exp x = max (rat_ilog2 \<bar>x\<bar> - 52) (- 1074)"

definition rnd64 :: "rat \<Rightarrow> rat" where
  "rnd64 x =
     (if x = 0 then 0
      else of_int (round_half_even (x / 2 powi ulp_exp x)) * 2 powi ulp_exp x)"

lemma rnd64_zero [simp]: "rnd64 0 = 0"
  by (simp add: rnd64_def)

lemma rnd64_le_powi:
  assumes "0 < x" and "x < 2 powi k" and "- 1074 \<le> k"
  shows "rnd64 x \<le> 2 powi k"
proof -
  let ?u = "ulp_exp x"
  have "2 powi (rat_ilog2 x) < (2::rat) powi k"
    using rat_ilog2_bounds(1) [OF assms(1)] assms(2) by linarith
  then have u: "?u \<le> k" using assms by (simp add: powi_less_iff ulp_exp_def)
  have "x / 2 powi ?u \<le> 2 powi k / 2 powi ?u"
    using assms(2) by (simp add: divide_right_mono)
  also have "\<dots> = of_int (2 ^ nat (k - ?u))"
    using u by (simp add: powi_of_int flip: power_int_diff)
  finally have "round_half_even (x / 2 powi ?u) \<le> 2 ^ nat (k - ?u)"
    using round_half_even_mono round_half_even_int by metis
  then have "of_int (round_half_even (x / 2 powi ?u)) \<le> (of_int (2 ^ nat (k - ?u)) :: rat)"
    by (simp only: of_int_le_iff)
  also have "\<dots> = 2 powi (k - ?u)"
    using u by (simp add: powi_of_int)
  finally have "of_int (round_half_even (x / 2 powi ?u)) * 2 powi ?u
      \<le> (2::rat) powi (k - ?u) * 2 powi ?u"
    by simp
  then show ?thesis using assms(1) by (simp add: rnd64_def flip: power_int_add)
qed

lemma round_scaled_ge:
  assumes "u \<le> j" and "2 powi j \<le> x"
  shows "(2::rat) powi j \<le> of_int (round_half_even (x / 2 powi u)) * 2 powi u"
proof -
  have j: "(of_int (2 ^ nat (j - u)) :: rat) = 2 powi j / 2 powi u"
    using assms(1) by (simp add: powi_of_int flip: power_int_diff)
  then have "of_int (2 ^ nat (j - u)) \<le> x / 2 powi u"
    using assms(2) by (simp add: divide_right_mono)
  then have "2 ^ nat (j - u) \<le> round_half_even (x / 2 powi u)"
    using round_half_even_mono round_half_even_int by metis
  then have "(of_int (2 ^ nat (j - u)) :: rat) \<le> of_int (round_half_even (x / 2 powi u))"
    by (simp only: of_int_le_iff)
  then show ?thesis by (simp only: j pos_divide_le_eq [OF powi_pos])
qed

lemma rnd64_ge_powi:
  assumes "2 powi k \<le> x" and "- 1074 \<le> k"
  shows "2 powi k \<le> rnd64 x"
proof -
  have x: "0 < x" using assms(1) powi_pos [of k] by linarith
  have rnd: "rnd64 x = of_int (round_half_even (x / 2 powi ulp_exp x)) * 2 powi ulp_exp x"
    using x by (simp add: rnd64_def)
  show ?thesis
  proof (cases "ulp_exp x \<le> k")
    case True
    from round_scaled_ge [OF this assms(1)] show ?thesis by (simp only: rnd)
  next
    case False
    with assms(2) x have k: "k \<le> rat_ilog2 x" and u: "ulp_exp x \<le> rat_ilog2 x"
      by (simp_all add: ulp_exp_def)
    from round_scaled_ge [OF u rat_ilog2_bounds(1) [OF x]]
    have "2 powi (rat_ilog2 x) \<le> rnd64 x" by (simp only: rnd)
    with k show ?thesis by (meson order_trans powi_le_iff)
  qed
qed

lemma rnd64_nonneg: "0 \<le> x \<Longrightarrow> 0 \<le> rnd64 x"
proof -
  assume x: "0 \<le> x"
  have "0 \<le> round_half_even (x / 2 powi ulp_exp x)"
    using round_half_even_mono [of 0 "x / 2 powi ulp_exp x"] round_half_even_int [of 0] x
    by (simp add: zero_le_divide_iff)
  then show ?thesis by (simp add: rnd64_def)
qed

text \<open>Rounding is monotone: within one binade it is \<open>round_half_even\<close>, across binades a
  power of two separates the results.\<close>

lemma rnd64_mono:
  assumes "0 \<le> x" and "x \<le> y"
  shows "rnd64 x \<le> rnd64 y"
proof (cases "x = 0")
  case True
  with assms show ?thesis by (simp add: rnd64_nonneg)
next
  case False
  with assms have x: "0 < x" and y: "0 < y" by linarith+
  have e: "rat_ilog2 x \<le> rat_ilog2 y" by (rule rat_ilog2_mono [OF x assms(2)])
  show ?thesis
  proof (cases "ulp_exp x = ulp_exp y")
    case True
    have "x / 2 powi ulp_exp y \<le> y / 2 powi ulp_exp y"
      using assms(2) by (simp add: divide_right_mono)
    from round_half_even_mono [OF this] show ?thesis
      using x y True by (simp add: rnd64_def)
  next
    case False
    with e x y have k: "rat_ilog2 x < rat_ilog2 y" "- 1074 \<le> rat_ilog2 y"
      by (auto simp: ulp_exp_def max_def split: if_splits)
    have "x < 2 powi (rat_ilog2 x + 1)" by (rule rat_ilog2_bounds(2) [OF x])
    also have "\<dots> \<le> 2 powi (rat_ilog2 y)" using k by (simp add: powi_le_iff)
    finally have "rnd64 x \<le> 2 powi (rat_ilog2 y)"
      using rnd64_le_powi [OF x] k by blast
    also have "\<dots> \<le> rnd64 y"
      using rnd64_ge_powi rat_ilog2_bounds(1) [OF y] k by blast
    finally show ?thesis .
  qed
qed

lemma rnd64_of_int:
  assumes "0 \<le> k" and "k < 2 ^ 53"
  shows "rnd64 (of_int k) = of_int k"
proof (cases "k = 0")
  case True
  then show ?thesis by simp
next
  case False
  let ?x = "of_int k :: rat" and ?u = "ulp_exp (of_int k)"
  from False assms have x: "0 < ?x" by simp
  have "2 powi (rat_ilog2 ?x) < (2::rat) powi 53"
  proof -
    have "?x < of_int (2 ^ 53)" using assms(2) by (simp only: of_int_less_iff)
    also have "\<dots> = 2 powi 53" by (simp add: power_int_def)
    finally show ?thesis using rat_ilog2_bounds(1) [OF x] by linarith
  qed
  then have "rat_ilog2 ?x < 53" by (simp only: powi_less_iff)
  then have u: "?u \<le> 0" using x by (simp add: ulp_exp_def)
  have "?x / 2 powi ?u = of_int (k * 2 ^ nat (- ?u))"
    using u by (simp add: powi_of_int power_int_minus field_simps flip: power_int_add)
       (simp add: power_int_def field_simps)
  then have "of_int (round_half_even (?x / 2 powi ?u)) = ?x / 2 powi ?u"
    by (metis round_half_even_int)
  then show ?thesis using x by (simp add: rnd64_def)
qed

subsection \<open>Operations\<close>

definition f64_limit :: rat where
  "f64_limit = 2 ^ 1024"

definition f64_of_rat :: "rat \<Rightarrow> f64" where
  "f64_of_rat x =
     (let r = rnd64 x in if f64_limit \<le> r then PInf else if r \<le> - f64_limit then NInf else Fin r)"

lemma f64_limit_pos: "0 < f64_limit"
  unfolding f64_limit_def by (rule zero_less_power) simp

definition f64_of_i64 :: "i64 \<Rightarrow> f64" where
  "f64_of_i64 x = f64_of_rat (of_int (sint x))"

fun f64_mul :: "f64 \<Rightarrow> f64 \<Rightarrow> f64" where
  "f64_mul (Fin x) (Fin y) = f64_of_rat (x * y)"
| "f64_mul NaN _ = NaN"
| "f64_mul _ NaN = NaN"
| "f64_mul PInf (Fin y) = (if y = 0 then NaN else if 0 < y then PInf else NInf)"
| "f64_mul NInf (Fin y) = (if y = 0 then NaN else if 0 < y then NInf else PInf)"
| "f64_mul (Fin x) PInf = (if x = 0 then NaN else if 0 < x then PInf else NInf)"
| "f64_mul (Fin x) NInf = (if x = 0 then NaN else if 0 < x then NInf else PInf)"
| "f64_mul PInf PInf = PInf"
| "f64_mul NInf NInf = PInf"
| "f64_mul PInf NInf = NInf"
| "f64_mul NInf PInf = NInf"

fun f64_add :: "f64 \<Rightarrow> f64 \<Rightarrow> f64" where
  "f64_add (Fin x) (Fin y) = f64_of_rat (x + y)"
| "f64_add NaN _ = NaN"
| "f64_add _ NaN = NaN"
| "f64_add PInf NInf = NaN"
| "f64_add NInf PInf = NaN"
| "f64_add PInf _ = PInf"
| "f64_add NInf _ = NInf"
| "f64_add _ PInf = PInf"
| "f64_add _ NInf = NInf"

text \<open>\<open>x > y\<close>: false as soon as one side is a NaN.\<close>

fun f64_gt :: "f64 \<Rightarrow> f64 \<Rightarrow> bool" where
  "f64_gt (Fin x) (Fin y) \<longleftrightarrow> y < x"
| "f64_gt NaN _ \<longleftrightarrow> False"
| "f64_gt _ NaN \<longleftrightarrow> False"
| "f64_gt PInf y \<longleftrightarrow> y \<noteq> PInf"
| "f64_gt _ PInf \<longleftrightarrow> False"
| "f64_gt NInf _ \<longleftrightarrow> False"
| "f64_gt (Fin _) NInf \<longleftrightarrow> True"

text \<open>\<open>math.Pow(2, float64(n))\<close> for \<open>n >= 0\<close>: exact up to the largest exponent, then infinite.\<close>

definition f64_pow2 :: "i64 \<Rightarrow> f64" where
  "f64_pow2 n = (if 1024 \<le> sint n then PInf else Fin (2 ^ nat (sint n)))"

text \<open>
  \<open>int64(f)\<close> truncates towards zero. Out of range the language leaves the result to the
  implementation; this is the amd64 one (the most negative \<open>int64\<close>).
\<close>

definition rat_trunc :: "rat \<Rightarrow> int" where
  "rat_trunc x = (if 0 \<le> x then \<lfloor>x\<rfloor> else - \<lfloor>- x\<rfloor>)"

fun f64_to_i64 :: "f64 \<Rightarrow> i64" where
  "f64_to_i64 (Fin x) =
     (let k = rat_trunc x
      in if - (2 ^ 63) \<le> k \<and> k < 2 ^ 63 then word_of_int k else word_of_int (- (2 ^ 63)))"
| "f64_to_i64 _ = word_of_int (- (2 ^ 63))"

lemma f64_of_rat_Fin:
  assumes "0 \<le> x" and "x < 2 ^ 53"
  shows "f64_of_rat x = Fin (rnd64 x)" and "rnd64 x \<le> 2 ^ 53"
proof -
  have "rnd64 x \<le> 2 powi 53"
  proof (cases "x = 0")
    case False
    with assms show ?thesis by (intro rnd64_le_powi) (auto simp: power_int_def)
  qed simp
  then show r: "rnd64 x \<le> 2 ^ 53" by (simp add: power_int_def)
  have "(2::rat) ^ 53 < f64_limit"
    unfolding f64_limit_def by (rule power_strict_increasing) auto
  with r rnd64_nonneg [OF assms(1)] f64_limit_pos show "f64_of_rat x = Fin (rnd64 x)"
    by (simp add: f64_of_rat_def Let_def)
qed

lemma f64_of_i64_small:
  assumes "0 \<le> sint x" and "sint x < 2 ^ 53"
  shows "f64_of_i64 x = Fin (of_int (sint x))"
proof -
  have "(of_int (sint x) :: rat) < of_int (2 ^ 53)"
    using assms(2) by (simp only: of_int_less_iff)
  then have "f64_of_rat (of_int (sint x)) = Fin (rnd64 (of_int (sint x)))"
    using assms(1) by (intro f64_of_rat_Fin(1)) (simp_all only: of_int_0_le_iff of_int_power of_int_numeral)
  then show ?thesis
    using assms by (simp only: f64_of_i64_def rnd64_of_int)
qed

subsection \<open>Rounding twice\<close>

lemma round_half_even_minus: "round_half_even (- y) = - round_half_even y"
proof (cases "of_int \<lfloor>y\<rfloor> = y")
  case True
  then obtain k where "y = of_int k" by metis
  then show ?thesis using round_half_even_int [of "- k"] by simp
next
  case False
  then have "\<lfloor>- y\<rfloor> = - \<lfloor>y\<rfloor> - 1" by linarith
  then show ?thesis by (auto simp: round_half_even_def Let_def)
qed

lemma ulp_exp_minus [simp]: "ulp_exp (- x) = ulp_exp x"
  by (simp add: ulp_exp_def)

lemma rnd64_minus: "rnd64 (- x) = - rnd64 x"
  by (simp add: rnd64_def round_half_even_minus)

lemma round_multiple: "u' \<le> u \<Longrightarrow> of_int (round_half_even (of_int r * 2 powi u / 2 powi u')) = of_int r * (2::rat) powi (u - u')"
proof -
  assume u: "u' \<le> u"
  have "of_int r * (2::rat) powi u / 2 powi u' = of_int r * 2 powi (u - u')" by (simp add: power_int_diff)
  also have "\<dots> = of_int (r * 2 ^ nat (u - u'))" using u by (simp only: of_int_mult powi_of_int diff_ge_0_iff_ge)
  finally have e: "of_int r * (2::rat) powi u / 2 powi u' = of_int (r * 2 ^ nat (u - u'))" .
  show ?thesis unfolding e round_half_even_int using u by (simp only: of_int_mult powi_of_int diff_ge_0_iff_ge)
qed

lemma rnd64_multiple: "ulp_exp (of_int r * 2 powi u) \<le> u \<Longrightarrow> rnd64 (of_int r * 2 powi u) = of_int r * 2 powi u"
  by (simp add: rnd64_def round_multiple flip: power_int_add)

lemma rnd64_pos_twice:
  assumes x: "0 < x"
  shows "rnd64 (rnd64 x) = rnd64 x"
proof (cases "rnd64 x = 0")
  case False
  with rnd64_nonneg [of x] x have y: "0 < rnd64 x" by simp
  define u where "u = ulp_exp x"
  define e where "e = rat_ilog2 x"
  define l where "l = rat_ilog2 (rnd64 x)"
  have u: "u = max (e - 52) (- 1074)" using x by (simp add: u_def ulp_exp_def e_def)
  have ul: "ulp_exp (rnd64 x) = max (l - 52) (- 1074)" using y by (simp add: ulp_exp_def l_def)
  show ?thesis
  proof (cases "ulp_exp (rnd64 x) \<le> u")
    case True
    moreover have "rnd64 x = of_int (round_half_even (x / 2 powi u)) * 2 powi u" using x by (simp add: rnd64_def u_def)
    ultimately show ?thesis using rnd64_multiple by metis
  next
    case False
    then have l: "e < l" "- 1022 < l" using u ul by auto
    have lo: "2 powi l \<le> rnd64 x" unfolding l_def by (rule rat_ilog2_bounds(1) [OF y])
    have "x < 2 powi (e + 1)" using rat_ilog2_bounds(2) [OF x] by (simp add: e_def)
    moreover have "(2 :: rat) powi (e + 1) \<le> 2 powi (max (e + 1) (- 1074))" by (simp only: powi_le_iff max.cobounded1)
    ultimately have "x < 2 powi (max (e + 1) (- 1074))" by linarith
    then have hi: "rnd64 x \<le> 2 powi (max (e + 1) (- 1074))" by (rule rnd64_le_powi [OF x]) simp
    from lo hi have "(2 :: rat) powi l \<le> 2 powi (max (e + 1) (- 1074))" by linarith
    then have "l \<le> max (e + 1) (- 1074)" by (simp only: powi_le_iff)
    with l have "l = e + 1" "max (e + 1) (- 1074) = l" by linarith+
    with lo hi have "rnd64 x = of_int 1 * 2 powi l" by simp
    moreover have "ulp_exp (rnd64 x) \<le> l" using ul l by simp
    ultimately show ?thesis using rnd64_multiple by metis
  qed
qed simp

lemma rnd64_twice: "rnd64 (rnd64 x) = rnd64 x"
  using rnd64_pos_twice [of x] rnd64_pos_twice [of "- x"]
  by (cases x "0 :: rat" rule: linorder_cases) (simp_all add: rnd64_minus)

lemma f64_of_rat_twice: "f64_of_rat x = Fin y \<Longrightarrow> f64_of_rat y = Fin y"
  by (auto simp: f64_of_rat_def Let_def rnd64_twice split: if_splits)

end
