(* ===== verification/Sha256.thy ===== *)
theory Sha256
  imports Prelude
begin

text \<open>
  SHA-256 (FIPS 180-4) as package \<open>crypto/sha256\<close> computes it, on byte strings: padding,
  message schedule, compression, and the big-endian digest. \<open>hex\<close> is the \<open>%x\<close> verb on
  bytes. The task ID of a delivery request (theory Domain) is built on them.
\<close>

unbundle bit_operations_syntax

type_synonym w32 = "32 word"

definition sha_K :: "w32 list" where
  "sha_K = [
     0x428a2f98, 0x71374491, 0xb5c0fbcf, 0xe9b5dba5, 0x3956c25b, 0x59f111f1,
     0x923f82a4, 0xab1c5ed5, 0xd807aa98, 0x12835b01, 0x243185be, 0x550c7dc3,
     0x72be5d74, 0x80deb1fe, 0x9bdc06a7, 0xc19bf174, 0xe49b69c1, 0xefbe4786,
     0x0fc19dc6, 0x240ca1cc, 0x2de92c6f, 0x4a7484aa, 0x5cb0a9dc, 0x76f988da,
     0x983e5152, 0xa831c66d, 0xb00327c8, 0xbf597fc7, 0xc6e00bf3, 0xd5a79147,
     0x06ca6351, 0x14292967, 0x27b70a85, 0x2e1b2138, 0x4d2c6dfc, 0x53380d13,
     0x650a7354, 0x766a0abb, 0x81c2c92e, 0x92722c85, 0xa2bfe8a1, 0xa81a664b,
     0xc24b8b70, 0xc76c51a3, 0xd192e819, 0xd6990624, 0xf40e3585, 0x106aa070,
     0x19a4c116, 0x1e376c08, 0x2748774c, 0x34b0bcb5, 0x391c0cb3, 0x4ed8aa4a,
     0x5b9cca4f, 0x682e6ff3, 0x748f82ee, 0x78a5636f, 0x84c87814, 0x8cc70208,
     0x90befffa, 0xa4506ceb, 0xbef9a3f7, 0xc67178f2]"

definition sha_H0 :: "w32 list" where
  "sha_H0 = [
     0x6a09e667, 0xbb67ae85, 0x3c6ef372, 0xa54ff53a, 0x510e527f, 0x9b05688c,
     0x1f83d9ab, 0x5be0cd19]"

definition sha_pad :: "string \<Rightarrow> 8 word list" where
  "sha_pad s =
     (let n = length s; z = (119 - n mod 64) mod 64
      in map of_char s @ [0x80] @ replicate z 0 @
         map (\<lambda>i. ucast (drop_bit (8 * (7 - i)) (word_of_nat (8 * n) :: i64))) [0 ..< 8])"

fun bytes_words :: "8 word list \<Rightarrow> w32 list" where
  "bytes_words (a # b # c # d # bs) =
     (push_bit 24 (ucast a) OR push_bit 16 (ucast b) OR push_bit 8 (ucast c) OR ucast d)
       # bytes_words bs"
| "bytes_words _ = []"

definition small0 :: "w32 \<Rightarrow> w32" where
  "small0 x = word_rotr 7 x XOR word_rotr 18 x XOR drop_bit 3 x"

definition small1 :: "w32 \<Rightarrow> w32" where
  "small1 x = word_rotr 17 x XOR word_rotr 19 x XOR drop_bit 10 x"

definition big0 :: "w32 \<Rightarrow> w32" where
  "big0 x = word_rotr 2 x XOR word_rotr 13 x XOR word_rotr 22 x"

definition big1 :: "w32 \<Rightarrow> w32" where
  "big1 x = word_rotr 6 x XOR word_rotr 11 x XOR word_rotr 25 x"

text \<open>The schedule is kept newest word first: entry \<open>i\<close> of the list is \<open>W (t - 1 - i)\<close>.\<close>

fun sha_extend :: "nat \<Rightarrow> w32 list \<Rightarrow> w32 list" where
  "sha_extend 0 ws = ws"
| "sha_extend (Suc n) ws =
     sha_extend n ((small1 (ws ! 1) + ws ! 6 + small0 (ws ! 14) + ws ! 15) # ws)"

definition sha_schedule :: "w32 list \<Rightarrow> w32 list" where
  "sha_schedule block = rev (sha_extend 48 (rev block))"

fun sha_round :: "w32 list \<Rightarrow> w32 \<times> w32 \<Rightarrow> w32 list" where
  "sha_round [a, b, c, d, e, f, g, h] (k, w) =
     (let t1 = h + big1 e + ((e AND f) XOR (NOT e AND g)) + k + w;
          t2 = big0 a + ((a AND b) XOR (a AND c) XOR (b AND c))
      in [t1 + t2, a, b, c, d + t1, e, f, g])"
| "sha_round st _ = st"

definition sha_compress :: "w32 list \<Rightarrow> w32 list \<Rightarrow> w32 list" where
  "sha_compress st block =
     map2 (+) st (foldl sha_round st (zip sha_K (sha_schedule block)))"

fun sha_blocks :: "nat \<Rightarrow> w32 list \<Rightarrow> w32 list \<Rightarrow> w32 list" where
  "sha_blocks 0 st ws = st"
| "sha_blocks (Suc n) st ws = sha_blocks n (sha_compress st (take 16 ws)) (drop 16 ws)"

definition word_bytes :: "w32 \<Rightarrow> 8 word list" where
  "word_bytes w = [ucast (drop_bit 24 w), ucast (drop_bit 16 w), ucast (drop_bit 8 w), ucast w]"

definition sha256 :: "string \<Rightarrow> 8 word list" where
  "sha256 s =
     (let ws = bytes_words (sha_pad s)
      in concat (map word_bytes (sha_blocks (length ws div 16) sha_H0 ws)))"

definition hex_digit :: "nat \<Rightarrow> char" where
  "hex_digit n = ''0123456789abcdef'' ! n"

definition hex :: "8 word list \<Rightarrow> string" where
  "hex bs = concat (map (\<lambda>b. [hex_digit (unat b div 16), hex_digit (unat b mod 16)]) bs)"

lemma length_sha_round: "length (sha_round st kw) = length st"
  by (induction st kw rule: sha_round.induct) (simp_all add: Let_def)

lemma length_foldl_sha_round: "length (foldl sha_round st kws) = length st"
  by (induction kws arbitrary: st) (simp_all add: length_sha_round)

lemma length_sha_compress [simp]: "length (sha_compress st b) = length st"
  by (simp add: sha_compress_def length_foldl_sha_round)

lemma length_sha_blocks: "length (sha_blocks n st ws) = length st"
  by (induction n arbitrary: st ws) simp_all

lemma length_concat_const: "(\<And>x. x \<in> set xs \<Longrightarrow> length x = k) \<Longrightarrow> length (concat xs) = k * length xs"
  by (induction xs) auto

lemma length_sha256 [simp]: "length (sha256 s) = 32"
proof -
  have "length (concat (map word_bytes ws)) = 4 * length ws" for ws
    by (subst length_concat_const [where k = 4]) (auto simp: word_bytes_def)
  then show ?thesis
    by (simp add: sha256_def Let_def length_sha_blocks sha_H0_def)
qed

lemma length_hex [simp]: "length (hex bs) = 2 * length bs"
  unfolding hex_def by (subst length_concat_const [where k = 2]) auto

definition is_hex :: "char \<Rightarrow> bool" where
  "is_hex c \<longleftrightarrow> c \<in> set ''0123456789abcdef''"

lemma is_hex_digit: "n < 16 \<Longrightarrow> is_hex (hex_digit n)"
  unfolding hex_digit_def is_hex_def by (rule nth_mem) simp

lemma hex_chars: "c \<in> set (hex bs) \<Longrightarrow> is_hex c"
proof -
  have "unat b div 16 < 16" for b :: "8 word"
    using unsigned_less [of b, where 'a = nat] by simp
  then show "c \<in> set (hex bs) \<Longrightarrow> is_hex c"
    by (auto simp: hex_def is_hex_digit)
qed

end
