(* ===== verification/Domain.thy ===== *)
theory Domain
  imports Go_Error GoFloat Sha256
begin

text \<open>
  Package internal/domain: task types, priorities, statuses, the \<open>EmailTask\<close> record
  with its methods, the dead-letter entry and the worker statistics. A \<open>TaskType\<close> and
  a \<open>TaskStatus\<close> are strings and a \<open>Priority\<close> is an \<open>int8\<close>, as in the code, so
  values outside the declared constants exist and every operation says what it does on
  them.
\<close>

subsection \<open>types.go\<close>

type_synonym TaskType = string

definition TaskTypeRegistration :: TaskType where "TaskTypeRegistration = ''registration''"
definition TaskTypePasswordReset :: TaskType where "TaskTypePasswordReset = ''password_reset''"
definition TaskTypeBilling :: TaskType where "TaskTypeBilling = ''billing''"
definition TaskTypeMarketing :: TaskType where "TaskTypeMarketing = ''marketing''"
definition TaskTypeSecurity :: TaskType where "TaskTypeSecurity = ''security''"
definition TaskTypeTransactional :: TaskType where "TaskTypeTransactional = ''transactional''"

lemmas task_type_defs [simp] =
  TaskTypeRegistration_def TaskTypePasswordReset_def TaskTypeBilling_def
  TaskTypeMarketing_def TaskTypeSecurity_def TaskTypeTransactional_def

definition TaskType_IsValid :: "TaskType \<Rightarrow> bool" where
  "TaskType_IsValid t \<longleftrightarrow>
     t = TaskTypeRegistration \<or> t = TaskTypePasswordReset \<or> t = TaskTypeBilling \<or>
     t = TaskTypeMarketing \<or> t = TaskTypeSecurity \<or> t = TaskTypeTransactional"

definition DefaultMaxAttempts :: "TaskType \<Rightarrow> i64" where
  "DefaultMaxAttempts t =
     (if t = TaskTypeSecurity then 7
      else if t = TaskTypeTransactional then 5
      else if t = TaskTypeMarketing then 3
      else 5)"

type_synonym Priority = i8

definition PriorityLow :: Priority where "PriorityLow = 0"
definition PriorityNormal :: Priority where "PriorityNormal = 1"
definition PriorityHigh :: Priority where "PriorityHigh = 2"
definition PriorityCritical :: Priority where "PriorityCritical = 3"

lemmas priority_defs [simp] =
  PriorityLow_def PriorityNormal_def PriorityHigh_def PriorityCritical_def

definition Priority_String :: "Priority \<Rightarrow> string" where
  "Priority_String p =
     (if p = PriorityLow then ''low''
      else if p = PriorityNormal then ''normal''
      else if p = PriorityHigh then ''high''
      else if p = PriorityCritical then ''critical''
      else ''unknown('' @ show_int (sint p) @ '')'')"

definition QueueName :: "Priority \<Rightarrow> string" where
  "QueueName p = ''{queue}:email:'' @ Priority_String p"

definition Priority_IsValid :: "Priority \<Rightarrow> bool" where
  "Priority_IsValid p \<longleftrightarrow> PriorityLow <=s p \<and> p <=s PriorityCritical"

type_synonym TaskStatus = string

definition StatusPending :: TaskStatus where "StatusPending = ''pending''"
definition StatusProcessing :: TaskStatus where "StatusProcessing = ''processing''"
definition StatusCompleted :: TaskStatus where "StatusCompleted = ''completed''"
definition StatusFailed :: TaskStatus where "StatusFailed = ''failed''"
definition StatusRetryScheduled :: TaskStatus where "StatusRetryScheduled = ''retry_scheduled''"
definition StatusDead :: TaskStatus where "StatusDead = ''dead''"

subsection \<open>email_task.go\<close>

text \<open>
  The values a \<open>map[string]any\<close> holds after JSON decoding. A nil Go map is \<open>None\<close>, a
  pointer is an option.
\<close>

datatype go_any =
  AnyNil
| AnyBool bool
| AnyFloat f64
| AnyString string
| AnyList "go_any list"
| AnyMap "(string \<times> go_any) list"

record EmailTask =
  ID :: string
  TenantID :: string
  Type :: TaskType
  Priority :: Priority
  Recipient :: string
  TemplateID :: string
  TemplateData :: "(string, go_any) fmap option"
  EnqueuedAt :: go_time
  ScheduledFor :: "go_time option"
  Attempt :: i64
  MaxAttempts :: i64
  Status :: TaskStatus
  LastError :: string
  TraceID :: string
  SpanID :: string
  Metadata :: "(string, string) fmap option"

text \<open>Reading a key of a Go map: the zero value when the map is nil or the key is absent.\<close>

definition metadata_get :: "EmailTask \<Rightarrow> string \<Rightarrow> string" where
  "metadata_get t k =
     (case Metadata t of None \<Rightarrow> [] | Some m \<Rightarrow> (case fmlookup m k of None \<Rightarrow> [] | Some v \<Rightarrow> v))"

text \<open>\<open>if m == nil { m = make(...) }; m[k] = v\<close>.\<close>

definition metadata_set :: "string \<Rightarrow> string \<Rightarrow> EmailTask \<Rightarrow> EmailTask" where
  "metadata_set k v t =
     t\<lparr>Metadata := Some (fmupd k v (case Metadata t of None \<Rightarrow> fmempty | Some m \<Rightarrow> m))\<rparr>"

definition Validate :: "EmailTask \<Rightarrow> go_error option" where
  "Validate t =
     (if TenantID t = [] then
        Some (EValidation \<lparr>Field = ''tenant_id'', Message = ''tenant_id is required''\<rparr>)
      else if Recipient t = [] then
        Some (EValidation \<lparr>Field = ''recipient'', Message = ''recipient is required''\<rparr>)
      else if \<not> TaskType_IsValid (Type t) then
        Some (EValidation \<lparr>Field = ''type'', Message = ''unknown task type '' @ go_quote (Type t)\<rparr>)
      else if \<not> Priority_IsValid (Priority t) then
        Some (EValidation \<lparr>Field = ''priority'',
          Message = ''invalid priority '' @ show_int (sint (Priority t)) @ '' (must be 0'' @
            [CHR 0xE2, CHR 0x80, CHR 0x93] @ ''3)''\<rparr>)
      else if MaxAttempts t <=s 0 then
        Some (EValidation \<lparr>Field = ''max_attempts'',
          Message = ''max_attempts must be greater than zero''\<rparr>)
      else None)"

definition IsPoisonMessage :: "EmailTask \<Rightarrow> bool" where
  "IsPoisonMessage t \<longleftrightarrow>
     (case Metadata t of None \<Rightarrow> False | Some _ \<Rightarrow> metadata_get t ''poison'' = ''true'')"

definition IsRetryable :: "EmailTask \<Rightarrow> bool" where
  "IsRetryable t \<longleftrightarrow> (if IsPoisonMessage t then False else Attempt t <s MaxAttempts t)"

text \<open>A shallow copy: every field of the value, the maps shared.\<close>

definition Clone :: "EmailTask \<Rightarrow> EmailTask" where
  "Clone t = t"

definition task_id_preimage :: "string \<Rightarrow> string \<Rightarrow> string \<Rightarrow> string \<Rightarrow> string" where
  "task_id_preimage tenantID recipientEmail templateID eventID =
     tenantID @ [CHR 0x00] @ recipientEmail @ [CHR 0x00] @ templateID @ [CHR 0x00] @ eventID"

definition DeterministicTaskID :: "string \<Rightarrow> string \<Rightarrow> string \<Rightarrow> string \<Rightarrow> string" where
  "DeterministicTaskID tenantID recipientEmail templateID eventID =
     take 32 (hex (sha256 (task_id_preimage tenantID recipientEmail templateID eventID)))"

subsection \<open>dlq.go and stats.go\<close>

record AttemptRecord =
  RecAttempt :: i64
  StartedAt :: go_time
  FailedAt :: go_time
  RecError :: string
  WorkerID :: string

record DLQEntry =
  Task :: "EmailTask option"
  DeadAt :: go_time
  FailureReason :: string
  FinalError :: string
  AttemptHistory :: "AttemptRecord list"

record WorkerStats =
  ActiveWorkers :: i64
  StatPoolSize :: i64
  TotalProcessed :: i64
  TotalFailed :: i64
  TotalRetried :: i64
  QueueDepth :: i64
  StatDLQDepth :: i64

text \<open>Nothing in the program reads the overrides of a tenant.\<close>

record TenantConfig =
  CfgTenantID :: string
  MaxRetries :: i64
  DefaultPriority :: Priority
  RateLimitPerMinute :: i64


subsection \<open>Validity of the enumerations\<close>

lemma Priority_IsValid_iff: "Priority_IsValid p \<longleftrightarrow> p \<in> {0, 1, 2, 3}"
  by (auto simp: Priority_IsValid_def word_sle_eq word_i8_eq_iff)

lemma TaskType_IsValid_iff:
  "TaskType_IsValid t \<longleftrightarrow>
     t \<in> {''registration'', ''password_reset'', ''billing'', ''marketing'', ''security'', ''transactional''}"
  by (auto simp: TaskType_IsValid_def)

lemma TaskType_IsValid_no_colon: "TaskType_IsValid t \<Longrightarrow> CHR '':'' \<notin> set t"
  by (auto simp: TaskType_IsValid_iff)

lemma DefaultMaxAttempts_range: "DefaultMaxAttempts t \<in> {3, 5, 7}"
  by (simp add: DefaultMaxAttempts_def)

lemma Priority_String_inj: "Priority_String p = Priority_String q \<longleftrightarrow> p = q"
  by (auto simp: Priority_String_def word_i8_eq_iff)

lemma QueueName_inj: "QueueName p = QueueName q \<longleftrightarrow> p = q"
  by (simp add: QueueName_def Priority_String_inj)

text \<open>The four priority bands, and any other \<open>int8\<close>, get pairwise different stream keys, all
  with the \<open>{queue}\<close> hash tag: no two priorities ever share a stream.\<close>

theorem QueueName_separates_priorities:
  "inj QueueName \<and> HasPrefix (QueueName p) ''{queue}:email:''"
  by (simp only: inj_def QueueName_inj) (simp add: QueueName_def)

subsection \<open>Validate\<close>

definition valid_task :: "EmailTask \<Rightarrow> bool" where
  "valid_task t \<longleftrightarrow>
     TenantID t \<noteq> [] \<and> Recipient t \<noteq> [] \<and> TaskType_IsValid (Type t) \<and>
     Priority_IsValid (Priority t) \<and> 0 < sint (MaxAttempts t)"

lemma Validate_None_iff: "Validate t = None \<longleftrightarrow> valid_task t"
  by (simp add: Validate_def valid_task_def word_sle_eq not_le)

lemma Validate_Some: "Validate t = Some e \<Longrightarrow> \<exists>v. e = EValidation v"
  by (auto simp: Validate_def split: if_splits)

text \<open>\<open>Validate\<close> accepts exactly the tasks with a tenant, a recipient, a known type, a priority
  from 0 to 3 and a positive attempt budget, and on any other task it reports the first field
  at fault in the order tenant, recipient, type, priority, attempts.\<close>

theorem Validate_correct:
  "case Validate t of
     None \<Rightarrow> TenantID t \<noteq> [] \<and> Recipient t \<noteq> [] \<and> TaskType_IsValid (Type t) \<and>
       Priority t \<in> {0, 1, 2, 3} \<and> 0 < sint (MaxAttempts t)
   | Some e \<Rightarrow> \<exists>v. e = EValidation v \<and>
       Field v = (if TenantID t = [] then ''tenant_id''
                  else if Recipient t = [] then ''recipient''
                  else if \<not> TaskType_IsValid (Type t) then ''type''
                  else if Priority t \<notin> {0, 1, 2, 3} then ''priority''
                  else ''max_attempts'') \<and>
       \<not> valid_task t"
proof (cases "Validate t")
  case None
  then have "valid_task t" by (simp add: Validate_None_iff)
  with None show ?thesis
    by (simp add: valid_task_def Priority_IsValid_iff del: insert_iff)
next
  case (Some e)
  then have "\<not> valid_task t" by (simp flip: Validate_None_iff)
  moreover have "\<exists>v. e = EValidation v \<and>
       Field v = (if TenantID t = [] then ''tenant_id''
                  else if Recipient t = [] then ''recipient''
                  else if \<not> TaskType_IsValid (Type t) then ''type''
                  else if Priority t \<notin> {0, 1, 2, 3} then ''priority''
                  else ''max_attempts'')"
    using Some unfolding Validate_def Priority_IsValid_iff
    by (auto simp del: insert_iff split: if_splits)
  ultimately show ?thesis by (simp add: Some)
qed

subsection \<open>Metadata, poison flag, retry budget\<close>

lemma metadata_get_set [simp]:
  "metadata_get (metadata_set k v t) k' = (if k' = k then v else metadata_get t k')"
  by (simp add: metadata_get_def metadata_set_def split: option.splits)

lemma metadata_set_other [simp]:
  "ID (metadata_set k v t) = ID t" "TenantID (metadata_set k v t) = TenantID t"
  "Type (metadata_set k v t) = Type t" "Priority (metadata_set k v t) = Priority t"
  "Attempt (metadata_set k v t) = Attempt t" "MaxAttempts (metadata_set k v t) = MaxAttempts t"
  "LastError (metadata_set k v t) = LastError t" "Status (metadata_set k v t) = Status t"
  "EnqueuedAt (metadata_set k v t) = EnqueuedAt t" "Recipient (metadata_set k v t) = Recipient t"
  by (simp_all add: metadata_set_def)

lemma IsPoisonMessage_iff: "IsPoisonMessage t \<longleftrightarrow> metadata_get t ''poison'' = ''true''"
  by (simp add: IsPoisonMessage_def metadata_get_def split: option.splits)

lemma IsPoisonMessage_set: "IsPoisonMessage (metadata_set ''poison'' ''true'' t)"
  by (simp add: IsPoisonMessage_iff)

lemma IsRetryable_iff:
  "IsRetryable t \<longleftrightarrow> \<not> IsPoisonMessage t \<and> sint (Attempt t) < sint (MaxAttempts t)"
  by (simp add: IsRetryable_def word_sless_alt)

text \<open>What is left of the budget; a retryable task can be incremented without wrapping, and
  doing so uses one unit up.\<close>

definition retries_left :: "EmailTask \<Rightarrow> nat" where
  "retries_left t = nat (sint (MaxAttempts t) - sint (Attempt t))"

lemma retryable_increment:
  assumes "IsRetryable t"
  shows "sint (Attempt t + 1) = sint (Attempt t) + 1"
    and "retries_left (t\<lparr>Attempt := Attempt t + 1\<rparr>) < retries_left t"
proof -
  from assms have lt: "Attempt t <s MaxAttempts t"
    by (simp add: IsRetryable_iff word_sless_alt)
  show inc: "sint (Attempt t + 1) = sint (Attempt t) + 1" by (rule sint_i64_inc_less [OF lt])
  from lt inc show "retries_left (t\<lparr>Attempt := Attempt t + 1\<rparr>) < retries_left t"
    by (simp add: retries_left_def word_sless_alt)
qed

subsection \<open>Deterministic task IDs\<close>

lemma task_id_preimage_inj:
  assumes "CHR 0x00 \<notin> set a \<union> set b \<union> set c \<union> set a' \<union> set b' \<union> set c'"
  shows "task_id_preimage a b c d = task_id_preimage a' b' c' d' \<longleftrightarrow>
    a = a' \<and> b = b' \<and> c = c' \<and> d = d'"
  using assms append_sep_inj_first [of a "CHR 0x00" "b @ CHR 0x00 # c @ CHR 0x00 # d" a']
    append_sep_inj_first [of b "CHR 0x00" "c @ CHR 0x00 # d" b']
    append_sep_inj_first [of c "CHR 0x00" d c' d']
  by (auto simp: task_id_preimage_def)

text \<open>A deterministic task ID always has 32 lower-case hexadecimal digits, and the string that
  is hashed determines the tenant, the recipient, the template and the event, as long as the
  first three hold no NUL byte: two requests share an ID only through SHA-256 or the truncation.\<close>

theorem DeterministicTaskID_shape:
  "length (DeterministicTaskID a b c d) = 32 \<and>
   (\<forall>x. x \<in> set (DeterministicTaskID a b c d) \<longrightarrow> is_hex x) \<and>
   (CHR 0x00 \<notin> set a \<union> set b \<union> set c \<union> set a' \<union> set b' \<union> set c' \<longrightarrow>
      (task_id_preimage a b c d = task_id_preimage a' b' c' d' \<longleftrightarrow>
       (a, b, c, d) = (a', b', c', d')))"
  using task_id_preimage_inj [of a b c a' b' c' d d']
  by (auto simp: DeterministicTaskID_def dest!: in_set_takeD hex_chars)

theorem DeterministicTaskID_shape_witness:
  "task_id_preimage ''a'' ''bc'' ''t'' ''e'' \<noteq> task_id_preimage ''ab'' ''c'' ''t'' ''e''"
  using DeterministicTaskID_shape [of "''a''" "''bc''" "''t''" "''e''" "''ab''" "''c''" "''t''" "''e''"]
  by simp

text \<open>The separator does not protect against a NUL inside a field: the tenant \<open>a NUL b\<close> with
  recipient \<open>c\<close> and the tenant \<open>a\<close> with recipient \<open>b NUL c\<close> get the same task ID.\<close>

theorem DeterministicTaskID_nul_collision:
  "DeterministicTaskID (''a'' @ [CHR 0x00] @ ''b'') ''c'' t e =
   DeterministicTaskID ''a'' (''b'' @ [CHR 0x00] @ ''c'') t e"
  by (simp add: DeterministicTaskID_def task_id_preimage_def)

text \<open>A task used in the witnesses.\<close>

definition sample_task :: EmailTask where
  "sample_task =
     \<lparr>ID = ''task-1'', TenantID = ''acme'', Type = TaskTypeTransactional, Priority = PriorityNormal,
      Recipient = ''user@example.com'', TemplateID = ''welcome'', TemplateData = None,
      EnqueuedAt = 1700000000000000000, ScheduledFor = None, Attempt = 0, MaxAttempts = 5,
      Status = StatusPending, LastError = [], TraceID = [], SpanID = [], Metadata = None\<rparr>"

lemma sample_task_sels [simp]:
  "ID sample_task = ''task-1''" "TenantID sample_task = ''acme''" "Type sample_task = ''transactional''"
  "Priority sample_task = 1" "Recipient sample_task = ''user@example.com''"
  "TemplateID sample_task = ''welcome''" "TemplateData sample_task = None"
  "EnqueuedAt sample_task = 1700000000000000000" "ScheduledFor sample_task = None"
  "Attempt sample_task = 0" "MaxAttempts sample_task = 5" "Status sample_task = ''pending''"
  "LastError sample_task = []" "TraceID sample_task = []" "SpanID sample_task = []"
  "Metadata sample_task = None"
  by (simp_all add: sample_task_def StatusPending_def)

end
