(* ===== verification/Config.thy ===== *)
theory Config
  imports Domain
begin

text \<open>
  internal/config/config.go: the configuration records.
\<close>

record RedisConfig =
  URL :: string
  Password :: string
  DB :: i64
  RedisPoolSize :: i64
  MinIdleConns :: i64
  DialTimeout :: duration
  RedisReadTimeout :: duration
  RedisWriteTimeout :: duration

record WorkerConfig =
  PoolSize :: i64
  ConsumerGroup :: string
  ConsumerName :: string
  BlockTimeout :: duration
  ClaimIdleThreshold :: duration
  DrainTimeout :: duration

record RetryConfig =
  CfgBaseDelay :: duration
  CfgMaxDelay :: duration
  CfgJitterFactor :: f64
  SchedulerInterval :: duration
  DLQTTLSeconds :: i64
  DLQMonitorInterval :: duration
  DLQAlertThreshold :: i64

record EmailConfig =
  SendGridAPIKey :: string
  FromEmail :: string
  FromName :: string
  StubFailRate :: f64
  StubLatency :: duration

record ObservabilityConfig =
  LogLevel :: string
  LogFormat :: string
  OTELEndpoint :: string
  ServiceName :: string
  MetricsPort :: i64

record ServerConfig =
  HTTPPort :: i64
  APIKeys :: "string list"
  ServerReadTimeout :: duration
  ServerWriteTimeout :: duration

record Config =
  CfgRedis :: RedisConfig
  CfgWorker :: WorkerConfig
  CfgRetry :: RetryConfig
  CfgEmail :: EmailConfig
  CfgObservability :: ObservabilityConfig
  CfgServer :: ServerConfig

text \<open>A configuration for the examples.\<close>

definition sample_config :: Config where
  "sample_config =
     \<lparr>CfgRedis = \<lparr>URL = ''redis://localhost:6379'', Password = [], DB = 0, RedisPoolSize = 75,
        MinIdleConns = 10, DialTimeout = 5 * go_second, RedisReadTimeout = 3 * go_second,
        RedisWriteTimeout = 3 * go_second\<rparr>,
      CfgWorker = \<lparr>PoolSize = 2, ConsumerGroup = ''email-workers'', ConsumerName = ''pod-1:7'',
        BlockTimeout = 5 * go_second, ClaimIdleThreshold = 30 * go_second, DrainTimeout = 30 * go_second\<rparr>,
      CfgRetry = \<lparr>CfgBaseDelay = go_second, CfgMaxDelay = 900 * go_second, CfgJitterFactor = Fin 0,
        SchedulerInterval = go_second, DLQTTLSeconds = 604800, DLQMonitorInterval = 30 * go_second,
        DLQAlertThreshold = 100\<rparr>,
      CfgEmail = \<lparr>SendGridAPIKey = [], FromEmail = ''noreply@example.com'', FromName = ''Email Queue'',
        StubFailRate = Fin 0, StubLatency = 0\<rparr>,
      CfgObservability = \<lparr>LogLevel = ''info'', LogFormat = ''json'', OTELEndpoint = [],
        ServiceName = ''email-queue'', MetricsPort = 9090\<rparr>,
      CfgServer = \<lparr>HTTPPort = 8080, APIKeys = [''key1''], ServerReadTimeout = 10 * go_second,
        ServerWriteTimeout = 30 * go_second\<rparr>\<rparr>"

lemma sample_config_sels [simp]:
  "DLQTTLSeconds (CfgRetry sample_config) = 604800"
  "ClaimIdleThreshold (CfgWorker sample_config) = 30000000000"
  "ConsumerName (CfgWorker sample_config) = ''pod-1:7''"
  "ConsumerGroup (CfgWorker sample_config) = ''email-workers''"
  by (simp_all add: sample_config_def go_second_def)

end
