(* ===== verification/Go_Strconv.thy ===== *)
theory Go_Strconv
  imports Domain
begin

text \<open>
  What internal/config uses of Go's \<open>strconv\<close>, \<open>time\<close> and \<open>strings\<close>: the parsers of integers,
  floats and durations (\<open>None\<close> is an error, whose text nobody reads), splitting, trimming,
  lower case, and the verb \<open>%.2f\<close>. Strings are byte strings.
\<close>

subsection \<open>Integers\<close>

definition Atoi :: "string \<Rightarrow> i64 option" where
  "Atoi s =
     (case parse_int s of
        None \<Rightarrow> None
      | Some i \<Rightarrow> if - (2 ^ 63) \<le> i \<and> i < 2 ^ 63 then Some (word_of_int i) else None)"

lemma Atoi_show_int [simp]: "Atoi (show_int (sint x)) = Some x"
  using sint_i64_bounds [of x] by (simp add: Atoi_def)

subsection \<open>Durations\<close>

definition span_digits :: "string \<Rightarrow> string \<times> string" where
  "span_digits s = (takeWhile is_digit s, dropWhile is_digit s)"

text \<open>\<open>leadingInt\<close> fails above \<open>2 ^ 63\<close>; \<open>leadingFraction\<close> ignores the digits that do not fit.\<close>

definition leadingInt :: "string \<Rightarrow> (nat \<times> string) option" where
  "leadingInt s =
     (let (ds, rest) = span_digits s in if digits_val ds \<le> 2 ^ 63 then Some (digits_val ds, rest) else None)"

fun fraction_digits :: "string \<Rightarrow> nat \<Rightarrow> nat \<Rightarrow> nat \<times> nat" where
  "fraction_digits [] x scale = (x, scale)"
| "fraction_digits (c # cs) x scale =
     (if (2 ^ 63 - 1) div 10 < x then (x, scale)
      else let y = 10 * x + digit_val c
        in if 2 ^ 63 < y then (x, scale) else fraction_digits cs y (10 * scale))"

definition leadingFraction :: "string \<Rightarrow> (nat \<times> nat) \<times> string" where
  "leadingFraction s = (let (ds, rest) = span_digits s in (fraction_digits ds 0 1, rest))"

definition unitMap :: "string \<Rightarrow> nat option" where
  "unitMap u =
     (if u = ''ns'' then Some 1
      else if u = ''us'' \<or> u = [CHR 0xC2, CHR 0xB5, CHR ''s''] \<or> u = [CHR 0xCE, CHR 0xBC, CHR ''s''] then Some 1000
      else if u = ''ms'' then Some 1000000
      else if u = ''s'' then Some 1000000000
      else if u = ''m'' then Some (60 * 1000000000)
      else if u = ''h'' then Some (3600 * 1000000000)
      else None)"

definition unit_char :: "char \<Rightarrow> bool" where
  "unit_char c \<longleftrightarrow> \<not> (c = CHR ''.'' \<or> is_digit c)"

text \<open>\<open>uint64(float64(f) * (float64(unit) / scale))\<close>; the product is far below \<open>2 ^ 63\<close>.\<close>

definition fraction_nanos :: "nat \<Rightarrow> nat \<Rightarrow> nat \<Rightarrow> nat" where
  "fraction_nanos f unit scale =
     unat (f64_to_i64 (f64_mul (f64_of_rat (of_nat f)) (f64_of_rat (of_nat unit / of_nat scale))))"

text \<open>One number with its unit: the value in nanoseconds and the rest of the text.\<close>

definition duration_item :: "string \<Rightarrow> (nat \<times> string) option" where
  "duration_item s =
     (if s = [] \<or> \<not> (hd s = CHR ''.'' \<or> is_digit (hd s)) then None
      else case leadingInt s of
          None \<Rightarrow> None
        | Some (v, s1) \<Rightarrow>
            let pre = (length s1 \<noteq> length s);
                ((f, scale), s2) =
                  (if s1 \<noteq> [] \<and> hd s1 = CHR ''.'' then leadingFraction (tl s1) else ((0, 1), s1));
                post = (s1 \<noteq> [] \<and> hd s1 = CHR ''.'' \<and> length s2 \<noteq> length (tl s1));
                u = takeWhile unit_char s2
            in if \<not> pre \<and> \<not> post \<or> u = [] then None
               else case unitMap u of
                   None \<Rightarrow> None
                 | Some unit \<Rightarrow>
                     if 2 ^ 63 div unit < v then None
                     else let v' = v * unit + (if 0 < f then fraction_nanos f unit scale else 0)
                       in if 2 ^ 63 < v' then None else Some (v', dropWhile unit_char s2))"

lemma length_dropWhile_less: "s \<noteq> [] \<Longrightarrow> P (hd s) \<Longrightarrow> length (dropWhile P s) < length s"
  by (cases s) (auto simp: le_imp_less_Suc length_dropWhile_le)

lemma duration_item_shorter: "duration_item s = Some (v, r) \<Longrightarrow> length r < length s"
proof -
  assume "duration_item s = Some (v, r)"
  then obtain s1 s2 where r: "r = dropWhile unit_char s2" "takeWhile unit_char s2 \<noteq> []"
    and s2: "s2 = s1 \<or> s2 = dropWhile is_digit (tl s1)" and s1: "s1 = dropWhile is_digit s"
    by (auto simp: duration_item_def leadingInt_def leadingFraction_def span_digits_def Let_def
        split: if_splits option.splits prod.splits)
  from r have "length r < length s2" by (cases s2) (auto simp: le_imp_less_Suc length_dropWhile_le split: if_splits)
  moreover have "length s2 \<le> length s1"
    using s2 length_dropWhile_le [of is_digit "tl s1"] by auto
  moreover have "length s1 \<le> length s" using s1 length_dropWhile_le [of is_digit s] by simp
  ultimately show ?thesis by linarith
qed

function duration_items :: "string \<Rightarrow> nat \<Rightarrow> nat option" where
  "duration_items s d =
     (if s = [] then Some d
      else case duration_item s of
          None \<Rightarrow> None
        | Some (v, r) \<Rightarrow> let d' = (d + v) mod 2 ^ 64 in if 2 ^ 63 < d' then None else duration_items r d')"
  by auto
termination
  by (relation "measure (length \<circ> fst)") (auto dest: duration_item_shorter)

declare duration_items.simps [simp del]

definition ParseDuration :: "string \<Rightarrow> duration option" where
  "ParseDuration orig =
     (let neg = (orig \<noteq> [] \<and> hd orig = CHR ''-'');
          s = (if orig \<noteq> [] \<and> (hd orig = CHR ''-'' \<or> hd orig = CHR ''+'') then tl orig else orig)
      in if s = ''0'' then Some 0
         else if s = [] then None
         else case duration_items s 0 of
             None \<Rightarrow> None
           | Some d \<Rightarrow>
               if neg then Some (word_of_int (- int d))
               else if 2 ^ 63 - 1 < d then None
               else Some (word_of_int (int d)))"

subsection \<open>Floats\<close>

definition lower_ascii :: "char \<Rightarrow> char" where
  "lower_ascii c =
     (if 65 \<le> (of_char c :: nat) \<and> (of_char c :: nat) \<le> 90 then char_of ((of_char c :: nat) + 32) else c)"

definition hex_letter :: "char \<Rightarrow> bool" where
  "hex_letter c \<longleftrightarrow> lower_ascii c \<in> {CHR ''a'', CHR ''b'', CHR ''c'', CHR ''d'', CHR ''e'', CHR ''f''}"

definition hex_val :: "char \<Rightarrow> nat" where
  "hex_val c = (if is_digit c then digit_val c else (of_char (lower_ascii c) :: nat) - 87)"

definition mant_digit :: "bool \<Rightarrow> char \<Rightarrow> bool" where
  "mant_digit hx c \<longleftrightarrow> is_digit c \<or> hx \<and> hex_letter c"

text \<open>The mantissa: the digits before and after the first point, underscores skipped, and the rest.\<close>

fun scan_mant :: "bool \<Rightarrow> bool \<Rightarrow> string \<Rightarrow> string \<times> string \<times> string" where
  "scan_mant hx dot [] = ([], [], [])"
| "scan_mant hx dot (c # s) =
     (if c = CHR ''_'' then scan_mant hx dot s
      else if c = CHR ''.'' then (if dot then ([], [], c # s) else scan_mant hx True s)
      else if mant_digit hx c
      then let (i, f, r) = scan_mant hx dot s in if dot then (i, c # f, r) else (c # i, f, r)
      else ([], [], c # s))"

fun underscores :: "bool \<Rightarrow> char \<Rightarrow> string \<Rightarrow> bool" where
  "underscores hx saw [] \<longleftrightarrow> saw \<noteq> CHR ''_''"
| "underscores hx saw (c # s) \<longleftrightarrow>
     (if mant_digit hx c then underscores hx (CHR ''0'') s
      else if c = CHR ''_'' then saw = CHR ''0'' \<and> underscores hx (CHR ''_'') s
      else saw \<noteq> CHR ''_'' \<and> underscores hx (CHR ''!'') s)"

definition underscoreOK :: "string \<Rightarrow> bool" where
  "underscoreOK s =
     (let p = (2 \<le> length s \<and> s ! 0 = CHR ''0'' \<and> lower_ascii (s ! 1) \<in> {CHR ''b'', CHR ''o'', CHR ''x''})
      in if p then underscores (lower_ascii (s ! 1) = CHR ''x'') (CHR ''0'') (drop 2 s)
         else underscores False (CHR ''^'') s)"

text \<open>The exponent after its letter: an optional sign, a digit, then digits and underscores.\<close>

definition scan_exp :: "string \<Rightarrow> int option" where
  "scan_exp s =
     (let neg = (s \<noteq> [] \<and> hd s = CHR ''-'');
          r = (if s \<noteq> [] \<and> (hd s = CHR ''+'' \<or> hd s = CHR ''-'') then tl s else s)
      in if r = [] \<or> \<not> is_digit (hd r) \<or> \<not> list_all (\<lambda>c. is_digit c \<or> c = CHR ''_'') r then None
         else let e = foldl (\<lambda>e c. if c = CHR ''_'' \<or> 10000 \<le> e then e else 10 * e + int (digit_val c)) 0 r
           in Some (if neg then - e else e))"

text \<open>The value of an unsigned literal.\<close>

definition float_literal :: "string \<Rightarrow> rat option" where
  "float_literal s =
     (let hx = (3 \<le> length s \<and> s ! 0 = CHR ''0'' \<and> lower_ascii (s ! 1) = CHR ''x'');
          (i, f, r) = scan_mant hx False (if hx then drop 2 s else s);
          mant = of_nat (foldl (\<lambda>n c. (if hx then 16 else 10) * n + hex_val c) 0 (i @ f)) :: rat;
          expo = (if r = [] then (if hx then None else Some 0)
                  else if lower_ascii (hd r) = (if hx then CHR ''p'' else CHR ''e'') then scan_exp (tl r)
                  else None)
      in if i @ f = [] \<or> CHR ''_'' \<in> set s \<and> \<not> underscoreOK s then None
         else map_option (\<lambda>e. if hx then mant * 2 powi (e - 4 * int (length f))
                              else mant * 10 powi (e - int (length f))) expo)"

definition ParseFloat :: "string \<Rightarrow> f64 option" where
  "ParseFloat s =
     (let neg = (s \<noteq> [] \<and> hd s = CHR ''-'');
          signed = (s \<noteq> [] \<and> (hd s = CHR ''-'' \<or> hd s = CHR ''+''));
          u = (if signed then tl s else s);
          low = map lower_ascii u
      in if low = ''inf'' \<or> low = ''infinity'' then Some (if neg then NInf else PInf)
         else if \<not> signed \<and> low = ''nan'' then Some NaN
         else case float_literal u of
             None \<Rightarrow> None
           | Some x \<Rightarrow>
               (case f64_of_rat (if neg then - x else x) of Fin y \<Rightarrow> Some (Fin y) | _ \<Rightarrow> None))"

subsection \<open>Strings\<close>

text \<open>\<open>strings.Split\<close> at a single byte.\<close>

fun split_byte :: "char \<Rightarrow> string \<Rightarrow> string list" where
  "split_byte b [] = [[]]"
| "split_byte b (c # s) =
     (if c = b then [] # split_byte b s
      else case split_byte b s of [] \<Rightarrow> [[c]] | p # ps \<Rightarrow> (c # p) # ps)"

text \<open>The runes \<open>unicode.IsSpace\<close> accepts, in UTF-8.\<close>

definition space_runes :: "string list" where
  "space_runes =
     map (\<lambda>c. [c]) [CHR 0x20, CHR 0x09, CHR 0x0A, CHR 0x0B, CHR 0x0C, CHR 0x0D] @
     [[CHR 0xC2, CHR 0x85], [CHR 0xC2, CHR 0xA0], [CHR 0xE1, CHR 0x9A, CHR 0x80],
      [CHR 0xE2, CHR 0x80, CHR 0xA8], [CHR 0xE2, CHR 0x80, CHR 0xA9], [CHR 0xE2, CHR 0x80, CHR 0xAF],
      [CHR 0xE2, CHR 0x81, CHR 0x9F], [CHR 0xE3, CHR 0x80, CHR 0x80]] @
     map (\<lambda>n. [CHR 0xE2, CHR 0x80, char_of (n :: nat)]) [0x80 ..< 0x8B]"

definition strip_one :: "string list \<Rightarrow> string \<Rightarrow> string option" where
  "strip_one ps s = (case filter (HasPrefix s) ps of [] \<Rightarrow> None | p # _ \<Rightarrow> Some (drop (length p) s))"

lemma strip_one_shorter:
  assumes "strip_one ps s = Some r" and "[] \<notin> set ps"
  shows "length r < length s"
proof -
  from assms(1) obtain p qs where p: "filter (HasPrefix s) ps = p # qs" "r = drop (length p) s"
    by (auto simp: strip_one_def split: list.splits)
  then have "p \<in> set ps" "HasPrefix s p"
    by (metis filter_eq_ConsD append_is_Nil_conv in_set_conv_decomp)+
  with assms(2) p(2) show ?thesis by (auto simp: HasPrefix_iff)
qed

lemma Nil_not_space [simp]: "[] \<notin> set space_runes" "[] \<notin> set (map rev space_runes)"
  by (auto simp: space_runes_def)

function trim_left :: "bool \<Rightarrow> string \<Rightarrow> string" where
  "trim_left reversed s =
     (case strip_one (if reversed then map rev space_runes else space_runes) s of
        None \<Rightarrow> s
      | Some r \<Rightarrow> trim_left reversed r)"
  by auto
termination
  using strip_one_shorter [OF _ Nil_not_space(1)] strip_one_shorter [OF _ Nil_not_space(2)]
  by (relation "measure (length \<circ> snd)") (auto split: if_splits)

declare trim_left.simps [simp del]

definition TrimSpace :: "string \<Rightarrow> string" where
  "TrimSpace s = rev (trim_left True (rev (trim_left False s)))"

text \<open>
  \<open>strings.ToLower\<close> as far as an ASCII result goes: the runes whose lower case is ASCII are the
  ASCII letters, U+0130 and U+212A. The program only compares the result with ASCII words.
\<close>

fun ToLower :: "string \<Rightarrow> string" where
  "ToLower [] = []"
| "ToLower (c # s) =
     (if c = CHR 0xC4 \<and> s \<noteq> [] \<and> hd s = CHR 0xB0 then CHR ''i'' # ToLower (tl s)
      else if c = CHR 0xE2 \<and> take 2 s = [CHR 0x84, CHR 0xAA] then CHR ''k'' # ToLower (drop 2 s)
      else lower_ascii c # ToLower s)"

text \<open>The verb \<open>%.2f\<close>.\<close>

definition fmt_2f :: "f64 \<Rightarrow> string" where
  "fmt_2f x =
     (case x of
        NaN \<Rightarrow> ''NaN'' | PInf \<Rightarrow> ''+Inf'' | NInf \<Rightarrow> ''-Inf''
      | Fin q \<Rightarrow>
          let n = nat (round_half_even (100 * \<bar>q\<bar>)); c = n mod 100
          in (if q < 0 then ''-'' else []) @ show_nat (n div 100) @ ''.'' @
             [digit_char (c div 10), digit_char (c mod 10)])"

subsection \<open>What the parsers do\<close>

lemma trim_left_idem: "trim_left b (trim_left b s) = trim_left b s"
proof (induction b s rule: trim_left.induct)
  case (1 b s)
  show ?case
  proof (cases "strip_one (if b then map rev space_runes else space_runes) s")
    case None
    then show ?thesis by (simp add: trim_left.simps [of b s])
  next
    case (Some r)
    with 1 show ?thesis by (simp add: trim_left.simps [of b s])
  qed
qed

lemma split_byte_no_sep: "p \<in> set (split_byte b s) \<Longrightarrow> b \<notin> set p"
  by (induction s arbitrary: p) (auto split: if_splits list.splits)

lemma split_byte_not_Nil [simp]: "split_byte b s \<noteq> []"
  by (induction s) (auto split: list.splits)

lemma trim_left_set: "set (trim_left b s) \<subseteq> set s"
proof (induction b s rule: trim_left.induct)
  case (1 b s)
  show ?case
  proof (cases "strip_one (if b then map rev space_runes else space_runes) s")
    case None
    then show ?thesis by (simp add: trim_left.simps [of b s])
  next
    case (Some r)
    moreover from Some have "set r \<subseteq> set s"
      by (auto simp: strip_one_def split: list.splits dest: in_set_dropD)
    ultimately show ?thesis using 1 by (auto simp: trim_left.simps [of b s])
  qed
qed

lemma TrimSpace_set: "set (TrimSpace s) \<subseteq> set s"
  using trim_left_set [of True "rev (trim_left False s)"] trim_left_set [of False s] by (auto simp: TrimSpace_def)

lemma span_show_nat:
  assumes "r = [] \<or> \<not> is_digit (hd r)"
  shows "span_digits (show_nat n @ r) = (show_nat n, r)"
proof -
  have "\<forall>c \<in> set (show_nat n). is_digit c" using show_nat_digits by blast
  moreover have "takeWhile is_digit r = []" "dropWhile is_digit r = r"
    using assms by (cases r; simp)+
  ultimately show ?thesis by (simp add: span_digits_def takeWhile_append2 dropWhile_append2)
qed

text \<open>A whole number with its unit is read back.\<close>

lemma duration_item_whole:
  assumes "unitMap u = Some unit" "list_all unit_char u" "n * unit \<le> 2 ^ 63" "0 < unit"
  shows "duration_item (show_nat n @ u) = Some (n * unit, [])"
proof -
  have u: "u \<noteq> []" using assms(1) by (auto simp: unitMap_def)
  then have h: "\<not> is_digit (hd u)" "hd u \<noteq> CHR ''.''"
    using assms(2) by (cases u; simp add: unit_char_def)+
  obtain c r where cr: "show_nat n = c # r" by (cases "show_nat n") auto
  then have d: "is_digit c" using show_nat_digits [of c n] by simp
  have "n \<le> n * unit" using assms(4) by simp
  then have n: "n \<le> 2 ^ 63" using assms(3) by linarith
  have v: "n \<le> 2 ^ 63 div unit" using assms(3,4) by (simp add: less_eq_div_iff_mult_less_eq)
  have l: "leadingInt (show_nat n @ u) = Some (n, u)"
    using span_show_nat [of u n] h n by (simp add: leadingInt_def)
  have t: "takeWhile unit_char u = u" "dropWhile unit_char u = []"
    using assms(2) by (simp_all add: list_all_iff takeWhile_eq_all_conv dropWhile_eq_Nil_conv)
  show ?thesis
    using l t u h v assms(1,3) d
    by (simp add: duration_item_def cr Let_def del: takeWhile_eq_all_conv dropWhile_eq_Nil_conv flip: append_Cons)
qed

lemma ParseDuration_whole:
  assumes "unitMap u = Some unit" "list_all unit_char u" "n * unit < 2 ^ 63" "0 < unit"
  shows "ParseDuration (show_nat n @ u) = Some (of_nat (n * unit))"
proof -
  obtain c r where cr: "show_nat n = c # r" by (cases "show_nat n") auto
  note f = show_nat_first [OF cr]
  have "u \<noteq> []" using assms(1) by (auto simp: unitMap_def)
  then have z: "show_nat n @ u \<noteq> ''0''" by (cases "show_nat n"; cases u) (auto simp: append_eq_Cons_conv)
  have "duration_items (show_nat n @ u) 0 = Some (n * unit)"
    using duration_item_whole [OF assms(1,2) _ assms(4), of n] assms(3)
    by (simp add: duration_items.simps Let_def)
  then show ?thesis
    using z f assms(3) by (simp add: ParseDuration_def cr flip: append_Cons)
qed

end
