(* ===== verification/Config_Load.thy ===== *)
theory Config_Load
  imports Config Go_Strconv
begin

text \<open>
  internal/config/config.go: reading the configuration from the environment and checking it.
  The process environment, the host name and the process ID are an argument.
\<close>

record os_env =
  Getenv :: "string \<Rightarrow> string"
  Hostname :: "go_error + string"
  Getpid :: int

subsection \<open>Helpers\<close>

definition getEnv :: "os_env \<Rightarrow> string \<Rightarrow> string \<Rightarrow> string" where
  "getEnv os key defaultVal = (let v = Getenv os key in if v \<noteq> [] then v else defaultVal)"

definition getEnvInt :: "os_env \<Rightarrow> string \<Rightarrow> i64 \<Rightarrow> i64" where
  "getEnvInt os key defaultVal =
     (let s = Getenv os key in
      if s = [] then defaultVal else case Atoi s of None \<Rightarrow> defaultVal | Some v \<Rightarrow> v)"

definition getEnvFloat :: "os_env \<Rightarrow> string \<Rightarrow> f64 \<Rightarrow> f64" where
  "getEnvFloat os key defaultVal =
     (let s = Getenv os key in
      if s = [] then defaultVal else case ParseFloat s of None \<Rightarrow> defaultVal | Some v \<Rightarrow> v)"

definition parseDuration :: "os_env \<Rightarrow> string \<Rightarrow> duration \<Rightarrow> duration" where
  "parseDuration os envKey defaultVal =
     (let s = Getenv os envKey in
      if s = [] then defaultVal else case ParseDuration s of None \<Rightarrow> defaultVal | Some d \<Rightarrow> d)"

definition parseAPIKeys :: "string \<Rightarrow> string list" where
  "parseAPIKeys raw =
     (if raw = [] then []
      else filter (\<lambda>k. k \<noteq> []) (map TrimSpace (split_byte (CHR '','') raw)))"

definition defaultConsumerName :: "os_env \<Rightarrow> go_error + string" where
  "defaultConsumerName os =
     (case Hostname os of Inl err \<Rightarrow> Inl err | Inr hostname \<Rightarrow> Inr (hostname @ '':'' @ show_int (Getpid os)))"

subsection \<open>Load\<close>

definition Load :: "os_env \<Rightarrow> go_error + Config" where
  "Load os =
     (case defaultConsumerName os of
        Inl err \<Rightarrow> Inl (EWrap ''config: resolve consumer name'' err)
      | Inr consumerName \<Rightarrow> Inr
         \<lparr>CfgRedis = \<lparr>URL = getEnv os ''REDIS_URL'' [], Password = getEnv os ''REDIS_PASSWORD'' [],
            DB = getEnvInt os ''REDIS_DB'' 0, RedisPoolSize = getEnvInt os ''REDIS_POOL_SIZE'' 75,
            MinIdleConns = getEnvInt os ''REDIS_MIN_IDLE_CONNS'' 10,
            DialTimeout = parseDuration os ''REDIS_DIAL_TIMEOUT'' (5 * go_second),
            RedisReadTimeout = parseDuration os ''REDIS_READ_TIMEOUT'' (3 * go_second),
            RedisWriteTimeout = parseDuration os ''REDIS_WRITE_TIMEOUT'' (3 * go_second)\<rparr>,
          CfgWorker = \<lparr>PoolSize = getEnvInt os ''WORKER_POOL_SIZE'' 50,
            ConsumerGroup = getEnv os ''WORKER_CONSUMER_GROUP'' ''email-workers'',
            ConsumerName = getEnv os ''WORKER_CONSUMER_NAME'' consumerName,
            BlockTimeout = parseDuration os ''WORKER_BLOCK_TIMEOUT'' (5 * go_second),
            ClaimIdleThreshold = parseDuration os ''WORKER_CLAIM_IDLE_THRESHOLD'' (30 * go_second),
            DrainTimeout = parseDuration os ''DRAIN_TIMEOUT'' (30 * go_second)\<rparr>,
          CfgRetry = \<lparr>CfgBaseDelay = parseDuration os ''RETRY_BASE_DELAY'' (1 * go_second),
            CfgMaxDelay = parseDuration os ''RETRY_MAX_DELAY'' (15 * (60 * go_second)),
            CfgJitterFactor = getEnvFloat os ''RETRY_JITTER_FACTOR'' (f64_of_rat (1 / 5)),
            SchedulerInterval = parseDuration os ''RETRY_SCHEDULER_INTERVAL'' (1 * go_second),
            DLQTTLSeconds = getEnvInt os ''DLQ_TTL_SECONDS'' 604800,
            DLQMonitorInterval = parseDuration os ''DLQ_MONITOR_INTERVAL'' (30 * go_second),
            DLQAlertThreshold = getEnvInt os ''DLQ_ALERT_THRESHOLD'' 100\<rparr>,
          CfgEmail = \<lparr>SendGridAPIKey = getEnv os ''SENDGRID_API_KEY'' [],
            FromEmail = getEnv os ''EMAIL_FROM'' ''noreply@example.com'',
            FromName = getEnv os ''EMAIL_FROM_NAME'' ''Email Queue'',
            StubFailRate = getEnvFloat os ''STUB_EMAIL_FAIL_RATE'' (Fin 0),
            StubLatency = parseDuration os ''STUB_EMAIL_LATENCY'' 0\<rparr>,
          CfgObservability = \<lparr>LogLevel = getEnv os ''LOG_LEVEL'' ''info'',
            LogFormat = getEnv os ''LOG_FORMAT'' ''json'',
            OTELEndpoint = getEnv os ''OTEL_EXPORTER_OTLP_ENDPOINT'' [],
            ServiceName = getEnv os ''OTEL_SERVICE_NAME'' ''email-queue'',
            MetricsPort = getEnvInt os ''METRICS_PORT'' 9090\<rparr>,
          CfgServer = \<lparr>HTTPPort = getEnvInt os ''HTTP_PORT'' 8080,
            APIKeys = parseAPIKeys (getEnv os ''API_KEYS'' []),
            ServerReadTimeout = parseDuration os ''HTTP_READ_TIMEOUT'' (10 * go_second),
            ServerWriteTimeout = parseDuration os ''HTTP_WRITE_TIMEOUT'' (30 * go_second)\<rparr>\<rparr>)"

subsection \<open>Validate\<close>

definition out_of_unit :: "f64 \<Rightarrow> bool" where
  "out_of_unit x \<longleftrightarrow> f64_gt (Fin 0) x \<or> f64_gt x (Fin 1)"

definition out_of_ports :: "i64 \<Rightarrow> bool" where
  "out_of_ports p \<longleftrightarrow> sint p \<le> 0 \<or> 65535 < sint p"

text \<open>The en dash of the two port messages, in UTF-8.\<close>

definition port_range :: string where
  "port_range = ''1'' @ [CHR 0xE2, CHR 0x80, CHR 0x93] @ ''65535''"

definition Config_Validate :: "Config \<Rightarrow> string list option" where
  "Config_Validate c =
     (let errs =
        (if URL (CfgRedis c) = [] then [''REDIS_URL is required''] else []) @
        (if APIKeys (CfgServer c) = [] then [''API_KEYS is required (comma-separated list of valid API keys)''] else []) @
        (if PoolSize (CfgWorker c) <=s 0
         then [''WORKER_POOL_SIZE must be > 0, got '' @ show_int (sint (PoolSize (CfgWorker c)))] else []) @
        (if RedisPoolSize (CfgRedis c) <=s 0
         then [''REDIS_POOL_SIZE must be > 0, got '' @ show_int (sint (RedisPoolSize (CfgRedis c)))] else []) @
        (if out_of_unit (CfgJitterFactor (CfgRetry c))
         then [''RETRY_JITTER_FACTOR must be in [0, 1], got '' @ fmt_2f (CfgJitterFactor (CfgRetry c))] else []) @
        (if CfgBaseDelay (CfgRetry c) <=s 0 then [''RETRY_BASE_DELAY must be > 0''] else []) @
        (if CfgMaxDelay (CfgRetry c) <s CfgBaseDelay (CfgRetry c)
         then [''RETRY_MAX_DELAY must be >= RETRY_BASE_DELAY''] else []) @
        (if DLQTTLSeconds (CfgRetry c) <=s 0 then [''DLQ_TTL_SECONDS must be > 0''] else []) @
        (if DrainTimeout (CfgWorker c) <=s 0 then [''DRAIN_TIMEOUT must be > 0''] else []) @
        (if out_of_ports (MetricsPort (CfgObservability c))
         then [''METRICS_PORT must be '' @ port_range @ '', got '' @ show_int (sint (MetricsPort (CfgObservability c)))]
         else []) @
        (if out_of_ports (HTTPPort (CfgServer c))
         then [''HTTP_PORT must be '' @ port_range @ '', got '' @ show_int (sint (HTTPPort (CfgServer c)))] else []) @
        (if SendGridAPIKey (CfgEmail c) \<noteq> [] \<and> FromEmail (CfgEmail c) = []
         then [''EMAIL_FROM is required when SENDGRID_API_KEY is set''] else []) @
        (if out_of_unit (StubFailRate (CfgEmail c))
         then [''STUB_EMAIL_FAIL_RATE must be in [0, 1], got '' @ fmt_2f (StubFailRate (CfgEmail c))] else []) @
        (if ToLower (LogLevel (CfgObservability c)) \<in> {''debug'', ''info'', ''warn'', ''error''} then []
         else [''LOG_LEVEL must be one of debug|info|warn|error, got '' @ go_quote (LogLevel (CfgObservability c))])
      in if errs = [] then None else Some errs)"

definition ValidationErrors_Error :: "string list \<Rightarrow> string" where
  "ValidationErrors_Error errs =
     ''config validation failed ('' @ show_nat (length errs) @ '' error(s)):'' @ [CHR 0x0A] @ ''  - '' @
       Join errs ([CHR 0x0A] @ ''  - '')"

subsection \<open>What the checks say\<close>

lemma f64_gt_less_zero: "f64_gt (Fin 0) x \<longleftrightarrow> x = NInf \<or> (\<exists>q. x = Fin q \<and> q < 0)"
  by (cases x) auto

lemma f64_gt_one: "f64_gt x (Fin 1) \<longleftrightarrow> x = PInf \<or> (\<exists>q. x = Fin q \<and> 1 < q)"
  by (cases x) auto

lemma out_of_unit_iff: "out_of_unit x \<longleftrightarrow> x \<noteq> NaN \<and> \<not> (\<exists>q. x = Fin q \<and> 0 \<le> q \<and> q \<le> 1)"
  by (cases x) (auto simp: out_of_unit_def)

text \<open>What a configuration must fulfil, one condition per message.\<close>

definition config_ok :: "Config \<Rightarrow> bool" where
  "config_ok c \<longleftrightarrow>
     URL (CfgRedis c) \<noteq> [] \<and> APIKeys (CfgServer c) \<noteq> [] \<and>
     0 < sint (PoolSize (CfgWorker c)) \<and> 0 < sint (RedisPoolSize (CfgRedis c)) \<and>
     (CfgJitterFactor (CfgRetry c) = NaN \<or> (\<exists>q. CfgJitterFactor (CfgRetry c) = Fin q \<and> 0 \<le> q \<and> q \<le> 1)) \<and>
     0 < sint (CfgBaseDelay (CfgRetry c)) \<and>
     sint (CfgBaseDelay (CfgRetry c)) \<le> sint (CfgMaxDelay (CfgRetry c)) \<and>
     0 < sint (DLQTTLSeconds (CfgRetry c)) \<and> 0 < sint (DrainTimeout (CfgWorker c)) \<and>
     sint (MetricsPort (CfgObservability c)) \<in> {1..65535} \<and> sint (HTTPPort (CfgServer c)) \<in> {1..65535} \<and>
     (SendGridAPIKey (CfgEmail c) \<noteq> [] \<longrightarrow> FromEmail (CfgEmail c) \<noteq> []) \<and>
     (StubFailRate (CfgEmail c) = NaN \<or> (\<exists>q. StubFailRate (CfgEmail c) = Fin q \<and> 0 \<le> q \<and> q \<le> 1)) \<and>
     ToLower (LogLevel (CfgObservability c)) \<in> {''debug'', ''info'', ''warn'', ''error''}"

lemma Config_Validate_ok: "Config_Validate c = None \<longleftrightarrow> config_ok c"
  by (simp add: Config_Validate_def config_ok_def out_of_unit_iff out_of_ports_def Let_def word_sle_eq word_sless_alt not_le not_less)

lemma default_jitter: "\<exists>q. f64_of_rat (1 / 5) = Fin q \<and> 0 \<le> q \<and> q \<le> 1"
proof -
  have "rnd64 (1 / 5) \<le> rnd64 1" by (rule rnd64_mono) simp_all
  then have "rnd64 (1 / 5) \<le> 1" using rnd64_of_int [of 1] by simp
  then show ?thesis using f64_of_rat_Fin(1) [of "1 / 5"] rnd64_nonneg [of "1 / 5"] by simp
qed

lemma unset:
  assumes "Getenv os key = []"
  shows "getEnv os key s = s" "getEnvInt os key n = n" "getEnvFloat os key x = x" "parseDuration os key d = d"
  by (simp_all add: assms getEnv_def getEnvInt_def getEnvFloat_def parseDuration_def)

lemma parseAPIKeys_mem:
  "k \<in> set (parseAPIKeys raw) \<longleftrightarrow> k \<noteq> [] \<and> (\<exists>p \<in> set (split_byte (CHR '','') raw). k = TrimSpace p)"
proof (cases "raw = []")
  case True
  have "trim_left b [] = []" for b using trim_left_set [of b "[]"] by simp
  then have "TrimSpace [] = []" by (simp add: TrimSpace_def)
  with True show ?thesis by (simp add: parseAPIKeys_def)
next
  case False
  then show ?thesis by (auto simp: parseAPIKeys_def)
qed

text \<open>
  The settings \<open>Validate\<close> does not look at may have any value, and so may the SendGrid key, since the sender address has a default; with them apart, an environment that sets only the Redis
  URL and the API keys is valid if these are.
\<close>

definition required_env :: "string set" where
  "required_env = {''REDIS_URL'', ''API_KEYS''}"

definition unchecked_env :: "string set" where
  "unchecked_env = {''RETRY_SCHEDULER_INTERVAL'', ''WORKER_CLAIM_IDLE_THRESHOLD'', ''WORKER_BLOCK_TIMEOUT'', ''DLQ_MONITOR_INTERVAL'', ''SENDGRID_API_KEY''}"

lemma Load_defaults:
  assumes "Hostname os = Inr h" and "\<forall>k. k \<notin> required_env \<union> unchecked_env \<longrightarrow> Getenv os k = []" and "Load os = Inr c"
  shows "ConsumerName (CfgWorker c) = h @ '':'' @ show_int (Getpid os)"
    and "config_ok c \<longleftrightarrow> Getenv os ''REDIS_URL'' \<noteq> [] \<and> parseAPIKeys (Getenv os ''API_KEYS'') \<noteq> []"
    and "ConsumerGroup (CfgWorker c) = ''email-workers''" and "DLQTTLSeconds (CfgRetry c) = 604800"
proof -
  have u: "getEnv os k s = s" "getEnvInt os k n = n" "getEnvFloat os k x = x" "parseDuration os k d = d"
    if "k \<notin> required_env \<union> unchecked_env" for k s n x d
  proof -
    from assms(2) that have "Getenv os k = []" by blast
    from unset [OF this] show "getEnv os k s = s" "getEnvInt os k n = n" "getEnvFloat os k x = x" "parseDuration os k d = d" .
  qed
  have g: "getEnv os k [] = Getenv os k" for k by (simp add: getEnv_def Let_def)
  have l: "ToLower ''info'' = ''info''" by (simp add: lower_ascii_def)
  note v = Load_def defaultConsumerName_def assms(1) u g required_env_def unchecked_env_def
  show "ConsumerName (CfgWorker c) = h @ '':'' @ show_int (Getpid os)"
    using assms(3) by (auto simp: v)
  show "ConsumerGroup (CfgWorker c) = ''email-workers''" "DLQTTLSeconds (CfgRetry c) = 604800"
    using assms(3) by (auto simp: v)
  have "URL (CfgRedis c) = Getenv os ''REDIS_URL''" "APIKeys (CfgServer c) = parseAPIKeys (Getenv os ''API_KEYS'')"
    "PoolSize (CfgWorker c) = 50" "RedisPoolSize (CfgRedis c) = 75" "CfgJitterFactor (CfgRetry c) = f64_of_rat (1 / 5)"
    "CfgBaseDelay (CfgRetry c) = 1 * go_second" "CfgMaxDelay (CfgRetry c) = 15 * (60 * go_second)"
    "DLQTTLSeconds (CfgRetry c) = 604800" "DrainTimeout (CfgWorker c) = 30 * go_second"
    "MetricsPort (CfgObservability c) = 9090" "HTTPPort (CfgServer c) = 8080" "FromEmail (CfgEmail c) = ''noreply@example.com''"
    "StubFailRate (CfgEmail c) = Fin 0" "LogLevel (CfgObservability c) = ''info''"
    using assms(3) by (auto simp: v)
  then show "config_ok c \<longleftrightarrow> Getenv os ''REDIS_URL'' \<noteq> [] \<and> parseAPIKeys (Getenv os ''API_KEYS'') \<noteq> []"
    using default_jitter l by (simp add: config_ok_def go_second_def)
qed

subsection \<open>Properties\<close>

text \<open>Validation, message by message: \<open>Validate\<close> returns nil exactly if every constraint holds, where a NaN
  passes the two range checks on floats, because both comparisons with a NaN are false.\<close>

theorem Config_Validate_correct: "Config_Validate c = None \<longleftrightarrow> config_ok c"
  by (rule Config_Validate_ok)

text \<open>The defaults are a working configuration: with nothing set but the Redis URL and the API keys, loading succeeds on
  a host with a name, the consumer is named after host and process, and validation passes exactly if the
  URL is set and some API key is left after splitting and trimming.\<close>

theorem Load_minimal:
  assumes "Hostname os = Inr h" and "\<forall>k. k \<notin> {''REDIS_URL'', ''API_KEYS''} \<longrightarrow> Getenv os k = []"
  shows "\<exists>c. Load os = Inr c \<and> ConsumerName (CfgWorker c) = h @ '':'' @ show_int (Getpid os) \<and>
    (Config_Validate c = None \<longleftrightarrow> Getenv os ''REDIS_URL'' \<noteq> [] \<and> parseAPIKeys (Getenv os ''API_KEYS'') \<noteq> [])"
proof -
  obtain c where c: "Load os = Inr c" by (simp add: Load_def defaultConsumerName_def assms(1))
  have "\<forall>k. k \<notin> required_env \<union> unchecked_env \<longrightarrow> Getenv os k = []" using assms(2) by (auto simp: required_env_def)
  from Load_defaults [OF assms(1) this c] c show ?thesis by (simp add: Config_Validate_ok)
qed

text \<open>API keys are what stands between the commas, trimmed and not empty; so the empty string is never a valid key, and no
  key holds a comma.\<close>

theorem parseAPIKeys_spec:
  "set (parseAPIKeys raw) = {TrimSpace p | p. p \<in> set (split_byte (CHR '','') raw)} - {[]} \<and>
   (\<forall>k \<in> set (parseAPIKeys raw). CHR '','' \<notin> set k)"
proof -
  have "CHR '','' \<notin> set (TrimSpace p)" if "p \<in> set (split_byte (CHR '','') raw)" for p
    using split_byte_no_sep [OF that] TrimSpace_set [of p] by blast
  then show ?thesis by (auto simp: parseAPIKeys_mem)
qed

text \<open>Durations and integers round trip through the environment: a whole number of seconds, milliseconds, minutes or hours
  that fits 63 bits of nanoseconds is read exactly, and so is every 64-bit integer; what does not parse is
  replaced by the default without an error.\<close>

theorem environment_values_roundtrip:
  "(Getenv os key = show_int (sint n) \<longrightarrow> getEnvInt os key def = n) \<and>
   (\<forall>(u, unit) \<in> {(''ms'', 10 ^ 6), (''s'', 10 ^ 9), (''m'', 60 * 10 ^ 9), (''h'', 3600 * 10 ^ 9)}.
      Getenv os key = show_nat m @ u \<and> m * unit < 2 ^ 63 \<longrightarrow> parseDuration os key d = of_nat (m * unit)) \<and>
   (ParseDuration (Getenv os key) = None \<longrightarrow> parseDuration os key d = d)"
proof (intro conjI impI)
  assume "Getenv os key = show_int (sint n)"
  moreover have "show_int (sint n) \<noteq> []" by (simp add: show_int_def)
  ultimately show "getEnvInt os key def = n" by (simp add: getEnvInt_def Let_def)
next
  have "parseDuration os key d = of_nat (m * unit)"
    if "(u, unit) \<in> {(''ms'', 10 ^ 6), (''s'', 10 ^ 9), (''m'', 60 * 10 ^ 9), (''h'', 3600 * 10 ^ 9)}"
      "Getenv os key = show_nat m @ u" "m * unit < 2 ^ 63" for u unit
  proof -
    have "unitMap u = Some unit" "list_all unit_char u" "0 < unit"
      using that(1) by (auto simp: unitMap_def unit_char_def is_digit_def)
    then show ?thesis
      using ParseDuration_whole [OF _ _ that(3)] that(2) by (simp add: parseDuration_def Let_def)
  qed
  then show "\<forall>(u, unit) \<in> {(''ms'', 10 ^ 6), (''s'', 10 ^ 9), (''m'', 60 * 10 ^ 9), (''h'', 3600 * 10 ^ 9)}.
      Getenv os key = show_nat m @ u \<and> m * unit < 2 ^ 63 \<longrightarrow> parseDuration os key d = of_nat (m * unit)"
    by blast
next
  assume "ParseDuration (Getenv os key) = None"
  then show "parseDuration os key d = d" by (simp add: parseDuration_def Let_def)
qed

subsection \<open>Witnesses\<close>

definition sample_os :: "(string \<times> string) list \<Rightarrow> os_env" where
  "sample_os kvs =
     \<lparr>Getenv = (\<lambda>k. case map_of kvs k of None \<Rightarrow> [] | Some v \<Rightarrow> v), Hostname = Inr ''pod-1'', Getpid = 7\<rparr>"

lemma parseAPIKeys_sample: "parseAPIKeys ''key1'' = [''key1'']"
  by (simp add: parseAPIKeys_def TrimSpace_def trim_left.simps strip_one_def space_runes_def HasPrefix_def upt_conv_Cons)

theorem Load_minimal_witness:
  "\<exists>c. Load (sample_os [(''REDIS_URL'', ''redis:6379''), (''API_KEYS'', ''key1'')]) = Inr c \<and> Config_Validate c = None"
proof -
  let ?os = "sample_os [(''REDIS_URL'', ''redis:6379''), (''API_KEYS'', ''key1'')]"
  have "Hostname ?os = Inr ''pod-1''" "\<forall>k. k \<notin> {''REDIS_URL'', ''API_KEYS''} \<longrightarrow> Getenv ?os k = []"
    by (simp_all add: sample_os_def)
  from Load_minimal [OF this] show ?thesis by (auto simp: sample_os_def parseAPIKeys_sample)
qed

theorem environment_values_roundtrip_witness:
  "parseDuration (sample_os [(''DRAIN_TIMEOUT'', show_nat 45 @ ''s'')]) ''DRAIN_TIMEOUT'' 0 = 45000000000"
  using environment_values_roundtrip [of "sample_os [(''DRAIN_TIMEOUT'', show_nat 45 @ ''s'')]" "''DRAIN_TIMEOUT''" 0 0 45 0]
  by (simp add: sample_os_def)

end
