(* ===== verification/Json.thy ===== *)
theory Json
  imports Domain "HOL-Library.Char_ord" "HOL-Library.List_Lexorder"
begin

text \<open>
  Package \<open>encoding/json\<close> on the structs the program stores in Redis. A JSON text is
  represented by the document it denotes (\<open>Doc\<close>) or, when it is not JSON, by its bytes
  (\<open>Raw\<close>); object members keep their order. The string literal that \<open>time.Time\<close>
  marshals to is \<open>JTime\<close>, with its RFC 3339 text given by \<open>rfc3339\<close>.
\<close>

datatype json =
  JNull
| JBool bool
| JInt int
| JFloat rat
| JStr string
| JTime go_time
| JArr "json list"
| JObj "(string \<times> json) list"

datatype jtext = Doc json | Raw string

subsection \<open>Valid UTF-8\<close>

text \<open>
  \<open>json.Marshal\<close> replaces every byte that does not begin a valid UTF-8 sequence by U+FFFD.
  \<open>rune_size\<close> is the length of the sequence a string begins with, 0 when it is invalid.
\<close>

definition byte_in :: "char \<Rightarrow> nat \<Rightarrow> nat \<Rightarrow> bool" where
  "byte_in c lo hi \<longleftrightarrow> lo \<le> of_char c \<and> of_char c \<le> hi"

definition cont :: "char \<Rightarrow> bool" where
  "cont c \<longleftrightarrow> byte_in c 0x80 0xBF"

definition second_ok :: "char \<Rightarrow> char \<Rightarrow> bool" where
  "second_ok a b \<longleftrightarrow>
     (if a = CHR 0xE0 then byte_in b 0xA0 0xBF
      else if a = CHR 0xED then byte_in b 0x80 0x9F
      else if a = CHR 0xF0 then byte_in b 0x90 0xBF
      else if a = CHR 0xF4 then byte_in b 0x80 0x8F
      else cont b)"

fun rune_size :: "string \<Rightarrow> nat" where
  "rune_size [] = 0"
| "rune_size (a # s) =
     (if byte_in a 0 0x7F then 1
      else if byte_in a 0xC2 0xDF then
        (case s of b # _ \<Rightarrow> if cont b then 2 else 0 | _ \<Rightarrow> 0)
      else if byte_in a 0xE0 0xEF then
        (case s of b # c # _ \<Rightarrow> if second_ok a b \<and> cont c then 3 else 0 | _ \<Rightarrow> 0)
      else if byte_in a 0xF0 0xF4 then
        (case s of b # c # d # _ \<Rightarrow> if second_ok a b \<and> cont c \<and> cont d then 4 else 0 | _ \<Rightarrow> 0)
      else 0)"

function coerce_utf8 :: "string \<Rightarrow> string" where
  "coerce_utf8 [] = []"
| "coerce_utf8 (c # s) =
     (let n = rune_size (c # s)
      in if n = 0 then [CHR 0xEF, CHR 0xBF, CHR 0xBD] @ coerce_utf8 s
         else take n (c # s) @ coerce_utf8 (drop n (c # s)))"
  by pat_completeness auto
termination by (relation "measure length") auto

declare coerce_utf8.simps(2) [simp del]

lemma rune_size_ascii: "of_char c < (128 :: nat) \<Longrightarrow> rune_size (c # s) = 1"
  by (simp add: byte_in_def)

lemma coerce_utf8_ascii: "(\<And>c. c \<in> set s \<Longrightarrow> of_char c < (128 :: nat)) \<Longrightarrow> coerce_utf8 s = s"
  by (induction s) (simp_all add: coerce_utf8.simps(2) rune_size_ascii del: rune_size.simps)

subsection \<open>RFC 3339 text of an instant\<close>

text \<open>The proleptic Gregorian date of a day number, counted from 1970-01-01.\<close>

definition civil_of_days :: "int \<Rightarrow> int \<times> int \<times> int" where
  "civil_of_days days =
     (let z = days + 719468; era = z div 146097; doe = z mod 146097;
          yoe = (doe - doe div 1460 + doe div 36524 - doe div 146096) div 365;
          doy = doe - (365 * yoe + yoe div 4 - yoe div 100);
          mp = (5 * doy + 2) div 153;
          d = doy - (153 * mp + 2) div 5 + 1;
          m = (if mp < 10 then mp + 3 else mp - 9);
          y = yoe + era * 400 + (if m \<le> 2 then 1 else 0)
      in (y, m, d))"

definition pad :: "nat \<Rightarrow> int \<Rightarrow> string" where
  "pad n i = (let s = show_int i in replicate (n - length s) (CHR ''0'') @ s)"

definition frac_text :: "int \<Rightarrow> string" where
  "frac_text ns =
     (if ns = 0 then [] else CHR ''.'' # rev (dropWhile (\<lambda>c. c = CHR ''0'') (rev (pad 9 ns))))"

definition rfc3339 :: "go_time \<Rightarrow> string" where
  "rfc3339 t =
     (let secs = time_unix t; (y, m, d) = civil_of_days (secs div 86400); sod = secs mod 86400
      in pad 4 y @ ''-'' @ pad 2 m @ ''-'' @ pad 2 d @ ''T'' @ pad 2 (sod div 3600) @ '':'' @
         pad 2 (sod div 60 mod 60) @ '':'' @ pad 2 (sod mod 60) @ frac_text (t mod 1000000000) @ ''Z'')"

text \<open>Marshalling a time fails when its year is outside [0, 9999].\<close>

definition time_in_range :: "go_time \<Rightarrow> bool" where
  "time_in_range t \<longleftrightarrow> - 62167219200 \<le> time_unix t \<and> time_unix t < 253402300800"

lemma zero_time_in_range [simp]: "time_in_range zero_time"
  by (simp add: time_in_range_def zero_time_def time_unix_def)

subsection \<open>Maps\<close>

definition fm_entries :: "(string, 'v) fmap \<Rightarrow> (string \<times> 'v) list" where
  "fm_entries m = map (\<lambda>k. (k, the (fmlookup m k))) (sorted_list_of_fset (fmdom m))"

definition fm_puts :: "(string, 'v) fmap \<Rightarrow> (string \<times> 'v) list \<Rightarrow> (string, 'v) fmap" where
  "fm_puts m kvs = foldl (\<lambda>m (k, v). fmupd k v m) m kvs"

lemma fmlookup_fm_puts:
  "distinct (map fst kvs) \<Longrightarrow>
   fmlookup (fm_puts m kvs) k = (case map_of kvs k of None \<Rightarrow> fmlookup m k | Some v \<Rightarrow> Some v)"
proof (induction kvs arbitrary: m)
  case Nil
  then show ?case by (simp add: fm_puts_def)
next
  case (Cons kv kvs)
  have "fm_puts m (kv # kvs) = fm_puts (fmupd (fst kv) (snd kv) m) kvs"
    by (simp add: fm_puts_def case_prod_unfold)
  moreover have "map_of kvs (fst kv) = None"
    using Cons.prems by (simp add: map_of_eq_None_iff)
  ultimately show ?case
    using Cons.IH [of "fmupd (fst kv) (snd kv) m"] Cons.prems
    by (auto split: option.splits)
qed

lemma map_of_fm_entries: "map_of (fm_entries m) k = fmlookup m k"
proof -
  have "map_of (map (\<lambda>k. (k, the (fmlookup m k))) ks) k =
      (if k \<in> set ks then Some (the (fmlookup m k)) else None)" for ks
    by (induction ks) auto
  then show ?thesis
    by (auto simp: fm_entries_def fmdom_notI fmlookup_dom_iff)
qed

lemma distinct_fm_entries: "distinct (map fst (fm_entries m))"
  by (simp add: fm_entries_def comp_def sorted_list_of_fset.rep_eq)

lemma fm_puts_entries: "fm_puts fmempty (fm_entries m) = m"
  by (rule fmap_ext)
    (simp add: fmlookup_fm_puts [OF distinct_fm_entries] map_of_fm_entries split: option.split)

subsection \<open>Values of type any\<close>

fun any_json :: "go_any \<Rightarrow> json option" where
  "any_json AnyNil = Some JNull"
| "any_json (AnyBool b) = Some (JBool b)"
| "any_json (AnyFloat (Fin x)) = Some (JFloat x)"
| "any_json (AnyFloat _) = None"
| "any_json (AnyString s) = Some (JStr (coerce_utf8 s))"
| "any_json (AnyList xs) = map_option JArr (those (map any_json xs))"
| "any_json (AnyMap kvs) =
     map_option JObj (those (map (\<lambda>(k, v). map_option (Pair (coerce_utf8 k)) (any_json v)) kvs))"

definition float_any :: "rat \<Rightarrow> go_any option" where
  "float_any x = (case f64_of_rat x of Fin y \<Rightarrow> Some (AnyFloat (Fin y)) | _ \<Rightarrow> None)"

fun json_any :: "json \<Rightarrow> go_any option" where
  "json_any JNull = Some AnyNil"
| "json_any (JBool b) = Some (AnyBool b)"
| "json_any (JInt i) = float_any (of_int i)"
| "json_any (JFloat x) = float_any x"
| "json_any (JStr s) = Some (AnyString s)"
| "json_any (JTime t) = Some (AnyString (rfc3339 t))"
| "json_any (JArr xs) = map_option AnyList (those (map json_any xs))"
| "json_any (JObj kvs) =
     map_option AnyMap (those (map (\<lambda>(k, v). map_option (Pair k) (json_any v)) kvs))"

subsection \<open>Struct fields\<close>

text \<open>Decoding into a field: \<open>None\<close> is a type error; a JSON null leaves the field as it is.\<close>

fun dec_string :: "json \<Rightarrow> string \<Rightarrow> string option" where
  "dec_string JNull cur = Some cur"
| "dec_string (JStr s) cur = Some s"
| "dec_string (JTime t) cur = Some (rfc3339 t)"
| "dec_string _ cur = None"

fun dec_i64 :: "json \<Rightarrow> i64 \<Rightarrow> i64 option" where
  "dec_i64 JNull cur = Some cur"
| "dec_i64 (JInt i) cur = (if - (2 ^ 63) \<le> i \<and> i < 2 ^ 63 then Some (word_of_int i) else None)"
| "dec_i64 _ cur = None"

fun dec_i8 :: "json \<Rightarrow> i8 \<Rightarrow> i8 option" where
  "dec_i8 JNull cur = Some cur"
| "dec_i8 (JInt i) cur = (if - (2 ^ 7) \<le> i \<and> i < 2 ^ 7 then Some (word_of_int i) else None)"
| "dec_i8 _ cur = None"

fun dec_time :: "json \<Rightarrow> go_time \<Rightarrow> go_time option" where
  "dec_time JNull cur = Some cur"
| "dec_time (JTime t) cur = Some t"
| "dec_time _ cur = None"

fun dec_time_ptr :: "json \<Rightarrow> go_time option option" where
  "dec_time_ptr JNull = Some None"
| "dec_time_ptr (JTime t) = Some (Some t)"
| "dec_time_ptr _ = None"

text \<open>An object decodes into a map member by member, on top of what the map holds.\<close>

fun dec_members ::
  "(json \<Rightarrow> 'v option) \<Rightarrow> (string \<times> json) list \<Rightarrow> (string, 'v) fmap \<Rightarrow> (string, 'v) fmap option" where
  "dec_members f [] m = Some m"
| "dec_members f ((k, j) # kvs) m =
     (case f j of None \<Rightarrow> None | Some v \<Rightarrow> dec_members f kvs (fmupd k v m))"

fun dec_map :: "(json \<Rightarrow> 'v option) \<Rightarrow> json \<Rightarrow> (string, 'v) fmap option \<Rightarrow> (string, 'v) fmap option option" where
  "dec_map f JNull cur = Some None"
| "dec_map f (JObj kvs) cur =
     map_option Some (dec_members f kvs (case cur of None \<Rightarrow> fmempty | Some m \<Rightarrow> m))"
| "dec_map f _ cur = None"

text \<open>
  Member names match field names without regard to case: ASCII letters, and the two
  non-ASCII characters that fold to ASCII letters (long s, Kelvin sign).
\<close>

definition lower_char :: "char \<Rightarrow> char" where
  "lower_char c = (if byte_in c 0x41 0x5A then char_of (of_char c + 32 :: nat) else c)"

fun fold_name :: "string \<Rightarrow> string" where
  "fold_name (a # b # c # s) =
     (if a = CHR 0xC5 \<and> b = CHR 0xBF then CHR ''s'' # fold_name (c # s)
      else if a = CHR 0xE2 \<and> b = CHR 0x84 \<and> c = CHR 0xAA then CHR ''k'' # fold_name s
      else lower_char a # fold_name (b # c # s))"
| "fold_name [a, b] = (if a = CHR 0xC5 \<and> b = CHR 0xBF then ''s'' else [lower_char a, lower_char b])"
| "fold_name s = map lower_char s"

text \<open>A struct decodes member by member with the decoder of its fields.\<close>

fun dec_struct :: "(string \<Rightarrow> json \<Rightarrow> 'a \<Rightarrow> 'a option) \<Rightarrow> (string \<times> json) list \<Rightarrow> 'a \<Rightarrow> 'a option" where
  "dec_struct f [] x = Some x"
| "dec_struct f ((k, j) # kvs) x = (case f k j x of None \<Rightarrow> None | Some y \<Rightarrow> dec_struct f kvs y)"

subsection \<open>EmailTask\<close>

definition zero_task :: EmailTask where
  "zero_task =
     \<lparr>ID = [], TenantID = [], Type = [], Priority = 0, Recipient = [], TemplateID = [],
      TemplateData = None, EnqueuedAt = zero_time, ScheduledFor = None, Attempt = 0,
      MaxAttempts = 0, Status = [], LastError = [], TraceID = [], SpanID = [], Metadata = None\<rparr>"

definition omit_string :: "string \<Rightarrow> string \<Rightarrow> (string \<times> json) list" where
  "omit_string k s = (if s = [] then [] else [(k, JStr (coerce_utf8 s))])"

definition template_json :: "(string, go_any) fmap \<Rightarrow> (string \<times> json) list option" where
  "template_json m =
     those (map (\<lambda>(k, v). map_option (Pair (coerce_utf8 k)) (any_json v)) (fm_entries m))"

definition omit_map :: "string \<Rightarrow> (string \<times> json) list option \<Rightarrow> (string \<times> json) list" where
  "omit_map k kvs = (case kvs of None \<Rightarrow> [] | Some l \<Rightarrow> if l = [] then [] else [(k, JObj l)])"

definition metadata_json :: "(string, string) fmap \<Rightarrow> (string \<times> json) list" where
  "metadata_json m = map (\<lambda>(k, v). (coerce_utf8 k, JStr (coerce_utf8 v))) (fm_entries m)"

definition task_members :: "EmailTask \<Rightarrow> (string \<times> json) list option \<Rightarrow> (string \<times> json) list" where
  "task_members t template =
     [(''id'', JStr (coerce_utf8 (ID t))),
      (''tenant_id'', JStr (coerce_utf8 (TenantID t))),
      (''type'', JStr (coerce_utf8 (Type t))),
      (''priority'', JInt (sint (Priority t))),
      (''recipient'', JStr (coerce_utf8 (Recipient t))),
      (''template_id'', JStr (coerce_utf8 (TemplateID t)))] @
     omit_map ''template_data'' template @
     [(''enqueued_at'', JTime (EnqueuedAt t))] @
     (case ScheduledFor t of None \<Rightarrow> [] | Some s \<Rightarrow> [(''scheduled_for'', JTime s)]) @
     [(''attempt'', JInt (sint (Attempt t))),
      (''max_attempts'', JInt (sint (MaxAttempts t))),
      (''status'', JStr (coerce_utf8 (Status t)))] @
     omit_string ''last_error'' (LastError t) @
     omit_string ''trace_id'' (TraceID t) @
     omit_string ''span_id'' (SpanID t) @
     omit_map ''metadata'' (map_option metadata_json (Metadata t))"

definition times_ok :: "EmailTask \<Rightarrow> bool" where
  "times_ok t \<longleftrightarrow>
     time_in_range (EnqueuedAt t) \<and>
     (case ScheduledFor t of None \<Rightarrow> True | Some s \<Rightarrow> time_in_range s)"

definition task_json :: "EmailTask \<Rightarrow> json option" where
  "task_json t =
     (if \<not> times_ok t then None
      else case TemplateData t of
        None \<Rightarrow> Some (JObj (task_members t None))
      | Some m \<Rightarrow> (case template_json m of
          None \<Rightarrow> None | Some kvs \<Rightarrow> Some (JObj (task_members t (Some kvs)))))"

definition marshal_error :: go_error where
  "marshal_error = ENew ''json: unsupported value''"

definition unmarshal_error :: go_error where
  "unmarshal_error = ENew ''json: cannot unmarshal''"

definition json_Marshal_task :: "EmailTask \<Rightarrow> go_error + jtext" where
  "json_Marshal_task t = (case task_json t of None \<Rightarrow> Inl marshal_error | Some j \<Rightarrow> Inr (Doc j))"

definition dec_task_field :: "string \<Rightarrow> json \<Rightarrow> EmailTask \<Rightarrow> EmailTask option" where
  "dec_task_field key j t =
     (let k = fold_name key in
      if k = ''id'' then map_option (\<lambda>v. t\<lparr>ID := v\<rparr>) (dec_string j (ID t))
      else if k = ''tenant_id'' then map_option (\<lambda>v. t\<lparr>TenantID := v\<rparr>) (dec_string j (TenantID t))
      else if k = ''type'' then map_option (\<lambda>v. t\<lparr>Type := v\<rparr>) (dec_string j (Type t))
      else if k = ''priority'' then map_option (\<lambda>v. t\<lparr>Priority := v\<rparr>) (dec_i8 j (Priority t))
      else if k = ''recipient'' then map_option (\<lambda>v. t\<lparr>Recipient := v\<rparr>) (dec_string j (Recipient t))
      else if k = ''template_id'' then map_option (\<lambda>v. t\<lparr>TemplateID := v\<rparr>) (dec_string j (TemplateID t))
      else if k = ''template_data'' then
        map_option (\<lambda>v. t\<lparr>TemplateData := v\<rparr>) (dec_map json_any j (TemplateData t))
      else if k = ''enqueued_at'' then map_option (\<lambda>v. t\<lparr>EnqueuedAt := v\<rparr>) (dec_time j (EnqueuedAt t))
      else if k = ''scheduled_for'' then map_option (\<lambda>v. t\<lparr>ScheduledFor := v\<rparr>) (dec_time_ptr j)
      else if k = ''attempt'' then map_option (\<lambda>v. t\<lparr>Attempt := v\<rparr>) (dec_i64 j (Attempt t))
      else if k = ''max_attempts'' then map_option (\<lambda>v. t\<lparr>MaxAttempts := v\<rparr>) (dec_i64 j (MaxAttempts t))
      else if k = ''status'' then map_option (\<lambda>v. t\<lparr>Status := v\<rparr>) (dec_string j (Status t))
      else if k = ''last_error'' then map_option (\<lambda>v. t\<lparr>LastError := v\<rparr>) (dec_string j (LastError t))
      else if k = ''trace_id'' then map_option (\<lambda>v. t\<lparr>TraceID := v\<rparr>) (dec_string j (TraceID t))
      else if k = ''span_id'' then map_option (\<lambda>v. t\<lparr>SpanID := v\<rparr>) (dec_string j (SpanID t))
      else if k = ''metadata'' then
        map_option (\<lambda>v. t\<lparr>Metadata := v\<rparr>) (dec_map (\<lambda>j. dec_string j []) j (Metadata t))
      else Some t)"

fun json_task :: "json \<Rightarrow> EmailTask option" where
  "json_task JNull = Some zero_task"
| "json_task (JObj kvs) = dec_struct dec_task_field kvs zero_task"
| "json_task _ = None"

fun json_Unmarshal_task :: "jtext \<Rightarrow> go_error + EmailTask" where
  "json_Unmarshal_task (Raw s) = Inl unmarshal_error"
| "json_Unmarshal_task (Doc j) =
     (case json_task j of None \<Rightarrow> Inl unmarshal_error | Some t \<Rightarrow> Inr t)"

subsection \<open>DLQEntry\<close>

text \<open>
  A nil \<open>AttemptHistory\<close> (the only one the program writes) is the empty list and marshals to
  null. \<open>omitempty\<close> has no effect on the time \<open>failed_at\<close>.
\<close>

definition attempt_json :: "AttemptRecord \<Rightarrow> json option" where
  "attempt_json a =
     (if \<not> time_in_range (StartedAt a) \<or> \<not> time_in_range (FailedAt a) then None
      else Some (JObj ([(''attempt'', JInt (sint (RecAttempt a))),
                        (''started_at'', JTime (StartedAt a)),
                        (''failed_at'', JTime (FailedAt a))] @
                       omit_string ''error'' (RecError a) @
                       [(''worker_id'', JStr (coerce_utf8 (WorkerID a)))])))"

definition history_json :: "AttemptRecord list \<Rightarrow> json option" where
  "history_json h = (if h = [] then Some JNull else map_option JArr (those (map attempt_json h)))"

definition dlq_json :: "DLQEntry \<Rightarrow> json option" where
  "dlq_json e =
     (case (case Task e of None \<Rightarrow> Some JNull | Some t \<Rightarrow> task_json t) of
        None \<Rightarrow> None
      | Some tj \<Rightarrow>
          if \<not> time_in_range (DeadAt e) then None
          else (case history_json (AttemptHistory e) of
              None \<Rightarrow> None
            | Some hj \<Rightarrow> Some (JObj
                [(''task'', tj), (''dead_at'', JTime (DeadAt e)),
                 (''failure_reason'', JStr (coerce_utf8 (FailureReason e))),
                 (''final_error'', JStr (coerce_utf8 (FinalError e))),
                 (''attempt_history'', hj)])))"

definition json_Marshal_dlq :: "DLQEntry \<Rightarrow> go_error + jtext" where
  "json_Marshal_dlq e = (case dlq_json e of None \<Rightarrow> Inl marshal_error | Some j \<Rightarrow> Inr (Doc j))"

definition zero_attempt :: AttemptRecord where
  "zero_attempt = \<lparr>RecAttempt = 0, StartedAt = zero_time, FailedAt = zero_time, RecError = [], WorkerID = []\<rparr>"

definition zero_dlq :: DLQEntry where
  "zero_dlq = \<lparr>Task = None, DeadAt = zero_time, FailureReason = [], FinalError = [], AttemptHistory = []\<rparr>"

definition dec_attempt_field :: "string \<Rightarrow> json \<Rightarrow> AttemptRecord \<Rightarrow> AttemptRecord option" where
  "dec_attempt_field key j a =
     (let k = fold_name key in
      if k = ''attempt'' then map_option (\<lambda>v. a\<lparr>RecAttempt := v\<rparr>) (dec_i64 j (RecAttempt a))
      else if k = ''started_at'' then map_option (\<lambda>v. a\<lparr>StartedAt := v\<rparr>) (dec_time j (StartedAt a))
      else if k = ''failed_at'' then map_option (\<lambda>v. a\<lparr>FailedAt := v\<rparr>) (dec_time j (FailedAt a))
      else if k = ''error'' then map_option (\<lambda>v. a\<lparr>RecError := v\<rparr>) (dec_string j (RecError a))
      else if k = ''worker_id'' then map_option (\<lambda>v. a\<lparr>WorkerID := v\<rparr>) (dec_string j (WorkerID a))
      else Some a)"

fun json_attempt :: "json \<Rightarrow> AttemptRecord option" where
  "json_attempt JNull = Some zero_attempt"
| "json_attempt (JObj kvs) = dec_struct dec_attempt_field kvs zero_attempt"
| "json_attempt _ = None"

fun dec_history :: "json \<Rightarrow> AttemptRecord list option" where
  "dec_history JNull = Some []"
| "dec_history (JArr xs) = those (map json_attempt xs)"
| "dec_history _ = None"

fun dec_task_ptr :: "json \<Rightarrow> EmailTask option \<Rightarrow> EmailTask option option" where
  "dec_task_ptr JNull cur = Some None"
| "dec_task_ptr (JObj kvs) cur =
     map_option Some (dec_struct dec_task_field kvs (case cur of None \<Rightarrow> zero_task | Some t \<Rightarrow> t))"
| "dec_task_ptr _ cur = None"

definition dec_dlq_field :: "string \<Rightarrow> json \<Rightarrow> DLQEntry \<Rightarrow> DLQEntry option" where
  "dec_dlq_field key j e =
     (let k = fold_name key in
      if k = ''task'' then map_option (\<lambda>v. e\<lparr>Task := v\<rparr>) (dec_task_ptr j (Task e))
      else if k = ''dead_at'' then map_option (\<lambda>v. e\<lparr>DeadAt := v\<rparr>) (dec_time j (DeadAt e))
      else if k = ''failure_reason'' then
        map_option (\<lambda>v. e\<lparr>FailureReason := v\<rparr>) (dec_string j (FailureReason e))
      else if k = ''final_error'' then
        map_option (\<lambda>v. e\<lparr>FinalError := v\<rparr>) (dec_string j (FinalError e))
      else if k = ''attempt_history'' then
        map_option (\<lambda>v. e\<lparr>AttemptHistory := v\<rparr>) (dec_history j)
      else Some e)"

fun json_Unmarshal_dlq :: "jtext \<Rightarrow> go_error + DLQEntry" where
  "json_Unmarshal_dlq (Doc JNull) = Inr zero_dlq"
| "json_Unmarshal_dlq (Doc (JObj kvs)) =
     (case dec_struct dec_dlq_field kvs zero_dlq of None \<Rightarrow> Inl unmarshal_error | Some e \<Rightarrow> Inr e)"
| "json_Unmarshal_dlq _ = Inl unmarshal_error"

subsection \<open>Round trip\<close>

definition utf8_ok :: "string \<Rightarrow> bool" where
  "utf8_ok s \<longleftrightarrow> coerce_utf8 s = s"

definition any_ok :: "go_any \<Rightarrow> bool" where
  "any_ok v \<longleftrightarrow> (case any_json v of None \<Rightarrow> False | Some j \<Rightarrow> json_any j = Some v)"

definition template_ok :: "(string, go_any) fmap \<Rightarrow> bool" where
  "template_ok m \<longleftrightarrow> list_all (\<lambda>(k, v). utf8_ok k \<and> any_ok v) (fm_entries m)"

definition metadata_ok :: "(string, string) fmap \<Rightarrow> bool" where
  "metadata_ok m \<longleftrightarrow> list_all (\<lambda>(k, v). utf8_ok k \<and> utf8_ok v) (fm_entries m)"

text \<open>The tasks whose strings are UTF-8, whose times are in range and whose data JSON can hold.\<close>

definition task_clean :: "EmailTask \<Rightarrow> bool" where
  "task_clean t \<longleftrightarrow>
     list_all utf8_ok [ID t, TenantID t, Type t, Recipient t, TemplateID t, Status t, LastError t,
       TraceID t, SpanID t] \<and>
     times_ok t \<and>
     (case TemplateData t of None \<Rightarrow> True | Some m \<Rightarrow> template_ok m) \<and>
     (case Metadata t of None \<Rightarrow> True | Some m \<Rightarrow> metadata_ok m)"

text \<open>\<open>omitempty\<close> drops an empty map, which then decodes to nil.\<close>

definition norm_map :: "('k, 'v) fmap option \<Rightarrow> ('k, 'v) fmap option" where
  "norm_map m = (if m = Some fmempty then None else m)"

definition norm_task :: "EmailTask \<Rightarrow> EmailTask" where
  "norm_task t = t\<lparr>TemplateData := norm_map (TemplateData t), Metadata := norm_map (Metadata t)\<rparr>"

lemma dec_struct_append:
  "dec_struct f (xs @ ys) x = (case dec_struct f xs x of None \<Rightarrow> None | Some y \<Rightarrow> dec_struct f ys y)"
proof (induction xs arbitrary: x)
  case (Cons a xs)
  then show ?case by (cases a) (auto split: option.splits)
qed simp

lemma dec_members_entries:
  assumes "\<And>k v. (k, v) \<in> set kvs \<Longrightarrow> f (g v) = Some v"
  shows "dec_members f (map (\<lambda>(k, v). (k, g v)) kvs) m = Some (fm_puts m kvs)"
  using assms
proof (induction kvs arbitrary: m)
  case Nil
  then show ?case by (simp add: fm_puts_def)
next
  case (Cons kv kvs)
  obtain k v where kv: "kv = (k, v)" by (cases kv)
  with Cons.prems [of k v] have "f (g v) = Some v" by simp
  moreover have "dec_members f (map (\<lambda>(k, v). (k, g v)) kvs) (fmupd k v m) = Some (fm_puts (fmupd k v m) kvs)"
    by (rule Cons.IH, rule Cons.prems, rule list.set_intros(2))
  ultimately show ?case by (simp add: kv fm_puts_def)
qed

lemma fm_entries_Nil: "fm_entries m = [] \<longleftrightarrow> m = fmempty"
proof
  assume "fm_entries m = []"
  then have "m = fm_puts fmempty []" by (metis fm_puts_entries)
  then show "m = fmempty" by (simp add: fm_puts_def)
qed (simp add: fm_entries_def sorted_list_of_fset.rep_eq)

lemma metadata_json_ok:
  assumes "metadata_ok m"
  shows "metadata_json m = map (\<lambda>(k, v). (k, JStr v)) (fm_entries m)"
  using assms unfolding metadata_json_def metadata_ok_def
  by (auto simp: list_all_iff utf8_ok_def)

lemma template_json_ok:
  assumes "template_ok m"
  shows "template_json m = Some (map (\<lambda>(k, v). (k, the (any_json v))) (fm_entries m))"
proof -
  have "those (map (\<lambda>(k, v). map_option (Pair (coerce_utf8 k)) (any_json v)) kvs) =
      Some (map (\<lambda>(k, v). (k, the (any_json v))) kvs)"
    if "list_all (\<lambda>(k, v). utf8_ok k \<and> any_ok v) kvs" for kvs
    using that by (induction kvs) (auto simp: utf8_ok_def any_ok_def split: option.splits)
  then show ?thesis using assms by (simp add: template_json_def template_ok_def)
qed

lemma dec_map_metadata:
  assumes "metadata_ok m"
  shows "dec_map (\<lambda>j. dec_string j []) (JObj (metadata_json m)) None = Some (Some m)"
  by (simp add: metadata_json_ok [OF assms] dec_members_entries fm_puts_entries)

lemma dec_map_template:
  assumes "template_ok m" and "template_json m = Some kvs"
  shows "dec_map json_any (JObj kvs) None = Some (Some m)"
proof -
  have "json_any (the (any_json v)) = Some v" if "(k, v) \<in> set (fm_entries m)" for k v
    using assms(1) that by (fastforce simp: template_ok_def list_all_iff any_ok_def split: option.splits)
  moreover have "kvs = map (\<lambda>(k, v). (k, the (any_json v))) (fm_entries m)"
    using assms by (simp add: template_json_ok)
  ultimately show ?thesis by (simp add: dec_members_entries fm_puts_entries)
qed

lemma dec_field_simps:
  "dec_task_field ''id'' (JStr x) t = Some (t\<lparr>ID := x\<rparr>)"
  "dec_task_field ''tenant_id'' (JStr x) t = Some (t\<lparr>TenantID := x\<rparr>)"
  "dec_task_field ''type'' (JStr x) t = Some (t\<lparr>Type := x\<rparr>)"
  "dec_task_field ''recipient'' (JStr x) t = Some (t\<lparr>Recipient := x\<rparr>)"
  "dec_task_field ''template_id'' (JStr x) t = Some (t\<lparr>TemplateID := x\<rparr>)"
  "dec_task_field ''status'' (JStr x) t = Some (t\<lparr>Status := x\<rparr>)"
  "dec_task_field ''last_error'' (JStr x) t = Some (t\<lparr>LastError := x\<rparr>)"
  "dec_task_field ''trace_id'' (JStr x) t = Some (t\<lparr>TraceID := x\<rparr>)"
  "dec_task_field ''span_id'' (JStr x) t = Some (t\<lparr>SpanID := x\<rparr>)"
  "dec_task_field ''enqueued_at'' (JTime i) t = Some (t\<lparr>EnqueuedAt := i\<rparr>)"
  "dec_task_field ''scheduled_for'' (JTime i) t = Some (t\<lparr>ScheduledFor := Some i\<rparr>)"
  by (simp_all add: dec_task_field_def Let_def lower_char_def byte_in_def)

lemma dec_field_nums:
  "dec_task_field ''priority'' (JInt (sint p)) t = Some (t\<lparr>Priority := p\<rparr>)"
  "dec_task_field ''attempt'' (JInt (sint a)) t = Some (t\<lparr>Attempt := a\<rparr>)"
  "dec_task_field ''max_attempts'' (JInt (sint a)) t = Some (t\<lparr>MaxAttempts := a\<rparr>)"
  using sint_lt [of p] sint_ge [of p] sint_i64_bounds [of a]
  by (simp_all add: dec_task_field_def Let_def lower_char_def byte_in_def)

lemma dec_field_maps:
  "dec_task_field ''template_data'' j t =
     map_option (\<lambda>v. t\<lparr>TemplateData := v\<rparr>) (dec_map json_any j (TemplateData t))"
  "dec_task_field ''metadata'' j t =
     map_option (\<lambda>v. t\<lparr>Metadata := v\<rparr>) (dec_map (\<lambda>j. dec_string j []) j (Metadata t))"
  by (simp_all add: dec_task_field_def Let_def lower_char_def byte_in_def)

lemma dec_omit_strings:
  assumes "utf8_ok s"
  shows "LastError t = [] \<Longrightarrow> dec_struct dec_task_field (omit_string ''last_error'' s) t = Some (t\<lparr>LastError := s\<rparr>)"
    and "TraceID t = [] \<Longrightarrow> dec_struct dec_task_field (omit_string ''trace_id'' s) t = Some (t\<lparr>TraceID := s\<rparr>)"
    and "SpanID t = [] \<Longrightarrow> dec_struct dec_task_field (omit_string ''span_id'' s) t = Some (t\<lparr>SpanID := s\<rparr>)"
  using assms by (simp_all add: omit_string_def utf8_ok_def dec_field_simps)

lemma dec_omit_template:
  assumes "\<And>m. tpl = Some m \<Longrightarrow> template_ok m \<and> template_json m = kvs" and "tpl = None \<Longrightarrow> kvs = None"
    and "TemplateData t = None"
  shows "dec_struct dec_task_field (omit_map ''template_data'' kvs) t = Some (t\<lparr>TemplateData := norm_map tpl\<rparr>)"
proof (cases tpl)
  case None
  then show ?thesis using assms by (simp add: omit_map_def norm_map_def)
next
  case (Some m)
  with assms(1) have m: "template_ok m" "template_json m = kvs" by auto
  then obtain l where l: "kvs = Some l" by (metis template_json_ok)
  have "l = [] \<longleftrightarrow> m = fmempty" using m l by (auto simp: template_json_ok fm_entries_Nil)
  moreover have "dec_map json_any (JObj l) None = Some (Some m)"
    by (rule dec_map_template) (use m l in auto)
  ultimately show ?thesis using Some assms(3)
    by (auto simp: omit_map_def norm_map_def l dec_field_maps)
qed

lemma dec_omit_metadata:
  assumes "\<And>m. md = Some m \<Longrightarrow> metadata_ok m" and "Metadata t = None"
  shows "dec_struct dec_task_field (omit_map ''metadata'' (map_option metadata_json md)) t =
    Some (t\<lparr>Metadata := norm_map md\<rparr>)"
proof (cases md)
  case None
  then show ?thesis using assms by (simp add: omit_map_def norm_map_def)
next
  case (Some m)
  then have m: "metadata_ok m" using assms(1) by auto
  then have "metadata_json m = [] \<longleftrightarrow> m = fmempty" by (auto simp: metadata_json_ok fm_entries_Nil)
  then show ?thesis using Some assms(2) dec_map_metadata [OF m]
    by (auto simp: omit_map_def norm_map_def dec_field_maps)
qed

lemma task_members_roundtrip:
  assumes "task_clean t" and "tpl = (case TemplateData t of None \<Rightarrow> None | Some m \<Rightarrow> template_json m)"
  shows "dec_struct dec_task_field (task_members t tpl) zero_task = Some (norm_task t)"
proof -
  define t1 where "t1 = zero_task\<lparr>ID := ID t, TenantID := TenantID t, Type := Type t,
    Priority := Priority t, Recipient := Recipient t, TemplateID := TemplateID t\<rparr>"
  define t2 where "t2 = t1\<lparr>TemplateData := norm_map (TemplateData t)\<rparr>"
  define t3 where "t3 = t2\<lparr>EnqueuedAt := EnqueuedAt t\<rparr>"
  define t4 where "t4 = t3\<lparr>ScheduledFor := ScheduledFor t\<rparr>"
  define t5 where "t5 = t4\<lparr>Attempt := Attempt t, MaxAttempts := MaxAttempts t, Status := Status t\<rparr>"
  define t6 where "t6 = t5\<lparr>LastError := LastError t\<rparr>"
  define t7 where "t7 = t6\<lparr>TraceID := TraceID t\<rparr>"
  define t8 where "t8 = t7\<lparr>SpanID := SpanID t\<rparr>"
  note ts = t8_def t7_def t6_def t5_def t4_def t3_def t2_def t1_def zero_task_def
  from assms(1) have u: "utf8_ok (ID t)" "utf8_ok (TenantID t)" "utf8_ok (Type t)"
    "utf8_ok (Recipient t)" "utf8_ok (TemplateID t)" "utf8_ok (Status t)" "utf8_ok (LastError t)"
    "utf8_ok (TraceID t)" "utf8_ok (SpanID t)"
    by (auto simp: task_clean_def)
  then have c: "coerce_utf8 (ID t) = ID t" "coerce_utf8 (TenantID t) = TenantID t"
    "coerce_utf8 (Type t) = Type t" "coerce_utf8 (Recipient t) = Recipient t"
    "coerce_utf8 (TemplateID t) = TemplateID t" "coerce_utf8 (Status t) = Status t"
    by (simp_all add: utf8_ok_def)
  have s2: "dec_struct dec_task_field (omit_map ''template_data'' tpl) t1 = Some t2"
    unfolding t2_def
    by (rule dec_omit_template)
      (use assms in \<open>auto simp: task_clean_def t1_def zero_task_def\<close>)
  have s6: "dec_struct dec_task_field (omit_string ''last_error'' (LastError t)) t5 = Some t6"
    unfolding t6_def by (rule dec_omit_strings(1) [OF u(7)]) (simp add: ts)
  have s7: "dec_struct dec_task_field (omit_string ''trace_id'' (TraceID t)) t6 = Some t7"
    unfolding t7_def by (rule dec_omit_strings(2) [OF u(8)]) (simp add: ts)
  have s8: "dec_struct dec_task_field (omit_string ''span_id'' (SpanID t)) t7 = Some t8"
    unfolding t8_def by (rule dec_omit_strings(3) [OF u(9)]) (simp add: ts)
  have s9: "dec_struct dec_task_field (omit_map ''metadata'' (map_option metadata_json (Metadata t))) t8 =
      Some (t8\<lparr>Metadata := norm_map (Metadata t)\<rparr>)"
    by (rule dec_omit_metadata) (use assms in \<open>auto simp: task_clean_def ts\<close>)
  have s1: "dec_struct dec_task_field
     [(''id'', JStr (coerce_utf8 (ID t))),
      (''tenant_id'', JStr (coerce_utf8 (TenantID t))),
      (''type'', JStr (coerce_utf8 (Type t))),
      (''priority'', JInt (sint (Priority t))),
      (''recipient'', JStr (coerce_utf8 (Recipient t))),
      (''template_id'', JStr (coerce_utf8 (TemplateID t)))] zero_task = Some t1"
    by (simp only: c dec_struct.simps dec_field_simps dec_field_nums option.case prod.case) (simp add: t1_def)
  have s3: "dec_struct dec_task_field [(''enqueued_at'', JTime (EnqueuedAt t))] t2 = Some t3"
    by (simp only: dec_struct.simps dec_field_simps option.case t3_def)
  have s4: "dec_struct dec_task_field
      (case ScheduledFor t of None \<Rightarrow> [] | Some s \<Rightarrow> [(''scheduled_for'', JTime s)]) t3 = Some t4"
    by (auto simp: ts dec_field_simps split: option.split)
  have s5: "dec_struct dec_task_field
     [(''attempt'', JInt (sint (Attempt t))),
      (''max_attempts'', JInt (sint (MaxAttempts t))),
      (''status'', JStr (coerce_utf8 (Status t)))] t4 = Some t5"
    by (simp only: c dec_struct.simps dec_field_simps dec_field_nums option.case) (simp add: t5_def)
  have "t8\<lparr>Metadata := norm_map (Metadata t)\<rparr> = norm_task t"
    by (simp add: ts norm_task_def)
  with s9 show ?thesis
    by (simp only: task_members_def dec_struct_append option.case s1 s2 s3 s4 s5 s6 s7 s8)
qed

lemma marshal_clean:
  assumes "task_clean t"
  obtains tpl where "json_Marshal_task t = Inr (Doc (JObj (task_members t tpl)))"
    and "tpl = (case TemplateData t of None \<Rightarrow> None | Some m \<Rightarrow> template_json m)"
proof (cases "TemplateData t")
  case None
  then show ?thesis using assms that [of None]
    by (simp add: json_Marshal_task_def task_json_def task_clean_def)
next
  case (Some m)
  then have "template_ok m" using assms by (simp add: task_clean_def)
  then obtain kvs where kvs: "template_json m = Some kvs" by (metis template_json_ok)
  show ?thesis
  proof (rule that [of "Some kvs"])
    show "json_Marshal_task t = Inr (Doc (JObj (task_members t (Some kvs))))"
      using assms Some kvs by (simp add: json_Marshal_task_def task_json_def task_clean_def)
  qed (simp add: Some kvs)
qed

text \<open>Every task with UTF-8 strings, times in the years 0 to 9999 and JSON-representable template data
  survives the queue unchanged: it marshals, and unmarshalling the stored text gives back every
  field, except that an empty map comes back nil. This is what lets the consumer and the retry
  flush rebuild the task from the payload.\<close>

theorem task_payload_roundtrip:
  assumes "task_clean t"
  shows "\<exists>txt. json_Marshal_task t = Inr txt \<and> json_Unmarshal_task txt = Inr (norm_task t)"
proof -
  obtain tpl where m: "json_Marshal_task t = Inr (Doc (JObj (task_members t tpl)))"
    and "tpl = (case TemplateData t of None \<Rightarrow> None | Some m \<Rightarrow> template_json m)"
    using marshal_clean [OF assms] .
  with task_members_roundtrip [OF assms] show ?thesis by simp
qed

lemma utf8_ok_ascii: "list_all (\<lambda>c. of_char c < (128 :: nat)) s \<Longrightarrow> utf8_ok s"
  unfolding utf8_ok_def by (rule coerce_utf8_ascii) (simp add: list_all_iff)

lemma fm_entries_single: "fm_entries (fmupd k v fmempty) = [(k, v)]"
  by (simp add: fm_entries_def sorted_list_of_fset.rep_eq)

lemma sample_task_clean:
  "list_all utf8_ok [lastErr] \<Longrightarrow> task_clean (sample_task\<lparr>LastError := lastErr\<rparr>)"
  by (simp add: task_clean_def times_ok_def time_in_range_def time_unix_def utf8_ok_ascii)

theorem task_payload_roundtrip_witness:
  "\<exists>txt. json_Marshal_task (sample_task\<lparr>Metadata := Some (fmupd ''region'' ''eu'' fmempty)\<rparr>) = Inr txt \<and>
     json_Unmarshal_task txt = Inr (sample_task\<lparr>Metadata := Some (fmupd ''region'' ''eu'' fmempty)\<rparr>)"
proof -
  let ?t = "sample_task\<lparr>Metadata := Some (fmupd ''region'' ''eu'' fmempty)\<rparr>"
  have "task_clean ?t"
    by (simp add: task_clean_def times_ok_def time_in_range_def time_unix_def utf8_ok_ascii
        metadata_ok_def fm_entries_single)
  moreover have "(fmupd ''region'' ''eu'' fmempty :: (string, string) fmap) \<noteq> fmempty"
    by (metis fm_entries_Nil fm_entries_single list.distinct(1))
  then have "norm_task ?t = ?t" by (simp add: norm_task_def norm_map_def)
  ultimately show ?thesis using task_payload_roundtrip [of ?t] by simp
qed

subsection \<open>JSON text\<close>

text \<open>
  The bytes of a document, where the program needs them: escaping as \<open>encoding/json\<close> does
  (with HTML escaping) and shortest decimal floats.
\<close>

definition hex_digit :: "nat \<Rightarrow> char" where
  "hex_digit n = ''0123456789abcdef'' ! n"

definition json_escape :: "char \<Rightarrow> string" where
  "json_escape c =
     (if c = CHR 0x22 \<or> c = CHR 0x5C then [CHR 0x5C, c]
      else if c = CHR 0x08 then [CHR 0x5C, CHR ''b'']
      else if c = CHR 0x0C then [CHR 0x5C, CHR ''f'']
      else if c = CHR 0x0A then [CHR 0x5C, CHR ''n'']
      else if c = CHR 0x0D then [CHR 0x5C, CHR ''r'']
      else if c = CHR 0x09 then [CHR 0x5C, CHR ''t'']
      else if (of_char c :: nat) < 32 \<or> c \<in> {CHR ''<'', CHR ''>'', CHR ''&''}
      then [CHR 0x5C, CHR ''u'', CHR ''0'', CHR ''0'',
            hex_digit ((of_char c :: nat) div 16), hex_digit ((of_char c :: nat) mod 16)]
      else [c])"

fun escape_seps :: "string \<Rightarrow> string" where
  "escape_seps (a # b # c # s) =
     (if a = CHR 0xE2 \<and> b = CHR 0x80 \<and> c = CHR 0xA8 then [CHR 0x5C] @ ''u2028'' @ escape_seps s
      else if a = CHR 0xE2 \<and> b = CHR 0x80 \<and> c = CHR 0xA9 then [CHR 0x5C] @ ''u2029'' @ escape_seps s
      else a # escape_seps (b # c # s))"
| "escape_seps s = s"

definition json_quote :: "string \<Rightarrow> string" where
  "json_quote s = [CHR 0x22] @ escape_seps (concat (map json_escape s)) @ [CHR 0x22]"

text \<open>\<open>x\<close> scaled into [1, 10) with its decimal exponent; 400 steps are enough for a binary64.\<close>

fun scale10 :: "nat \<Rightarrow> rat \<Rightarrow> int \<Rightarrow> int" where
  "scale10 0 x k = k"
| "scale10 (Suc n) x k =
     (if x < 1 then scale10 n (x * 10) (k - 1)
      else if 10 \<le> x then scale10 n (x / 10) (k + 1) else k)"

fun shortest :: "nat \<Rightarrow> nat \<Rightarrow> rat \<Rightarrow> int \<Rightarrow> int \<times> int" where
  "shortest 0 d x e = (round_half_even (x * 10 powi (int d - e)), e - int d)"
| "shortest (Suc n) d x e =
     (let m = round_half_even (x * 10 powi (int d - e)) in
      if f64_of_rat (of_int m * 10 powi (e - int d)) = Fin x then (m, e - int d)
      else shortest n (Suc d) x e)"

fun strip_zeros :: "nat \<Rightarrow> int \<Rightarrow> int \<Rightarrow> int \<times> int" where
  "strip_zeros 0 m e = (m, e)"
| "strip_zeros (Suc n) m e = (if m mod 10 = 0 then strip_zeros n (m div 10) (e + 1) else (m, e))"

definition float_text :: "rat \<Rightarrow> string" where
  "float_text x =
     (if x = 0 then ''0'' else
      let a = abs x; e = scale10 400 a 0; (m0, k0) = shortest 16 0 a e; (m, k) = strip_zeros 20 m0 k0;
          ds = show_nat (nat m); p = int (length ds) + k;
          body =
            (if a < 1 / 1000000 \<or> 1000000000000000000000 \<le> a then
               take 1 ds @ (if tl ds = [] then [] else ''.'' @ tl ds) @ ''e'' @
               (if p - 1 < 0 then ''-'' else ''+'') @
               (if p - 1 < 0 then show_int (1 - p) else pad 2 (p - 1))
             else if p \<le> 0 then ''0.'' @ replicate (nat (- p)) (CHR ''0'') @ ds
             else if 0 \<le> k then ds @ replicate (nat k) (CHR ''0'')
             else take (nat p) ds @ ''.'' @ drop (nat p) ds)
      in (if x < 0 then ''-'' else []) @ body)"

fun json_text :: "json \<Rightarrow> string" where
  "json_text JNull = ''null''"
| "json_text (JBool b) = (if b then ''true'' else ''false'')"
| "json_text (JInt i) = show_int i"
| "json_text (JFloat x) = float_text x"
| "json_text (JStr s) = json_quote s"
| "json_text (JTime t) = json_quote (rfc3339 t)"
| "json_text (JArr xs) = ''['' @ Join (map json_text xs) '','' @ '']''"
| "json_text (JObj kvs) =
     ''{'' @ Join (map (\<lambda>(k, v). json_quote k @ '':'' @ json_text v) kvs) '','' @ ''}''"

fun text_of :: "jtext \<Rightarrow> string" where
  "text_of (Raw s) = s"
| "text_of (Doc j) = json_text j"

end
