(* ===== verification/Redis.thy ===== *)
theory Redis
  imports Config Json "HOL-Library.Multiset" "HOL-Library.Product_Lexorder"
begin

text \<open>
  The boundary to Redis. The server and the go-redis client are not part of the program, so
  they are a parameter: a function \<open>client\<close> from a command and a state of the world to a reply
  or an error and the next state. What the code relies on is stated as the locale
  \<open>redis_server\<close>, over the part of the world that is the key space, from the documentation of
  the commands and of the client's retries. The two Lua scripts of scripts.go are code of the
  program and are definitions here. At the end an in-memory server with injected faults shows
  that the laws can hold.
\<close>

subsection \<open>The key space\<close>

record stream_msg =
  MsgID :: string
  MsgValues :: "(string, jtext) fmap"

text \<open>
  A consumer group has read the first \<open>last_read\<close> entries of its stream; \<open>pel\<close> maps the IDs
  that were delivered and not acknowledged to the consumer that owns them.
\<close>

record consumer_group =
  last_read :: nat
  pel :: "string \<Rightarrow> string option"

record redis_stream =
  entries :: "stream_msg list"
  groups :: "string \<Rightarrow> consumer_group option"

datatype lua_script = IdempotencyLua | ReclaimStaleLua

text \<open>A string value with its time to live in seconds.\<close>

type_synonym kvstore = "string \<Rightarrow> (jtext \<times> int option) option"

record keyspace =
  streams :: "string \<Rightarrow> redis_stream"
  zsets :: "string \<Rightarrow> (jtext \<times> f64) list"
  lists :: "string \<Rightarrow> jtext list"
  list_ttl :: "string \<Rightarrow> int option"
  strs :: kvstore
  scripts :: "string \<Rightarrow> lua_script option"

definition empty_stream :: redis_stream where
  "empty_stream = \<lparr>entries = [], groups = (\<lambda>_. None)\<rparr>"

subsection \<open>The Lua scripts\<close>

text \<open>
  \<open>tonumber\<close> on the decimal integers the program passes and stores. \<open>cjson.decode\<close> on a text that
  is not JSON, or an index into a number, a boolean or null, raises a script error: \<open>None\<close>. Arrays and
  strings can be indexed and have no such member.
\<close>

definition lua_field :: "(string \<times> json) list \<Rightarrow> string \<Rightarrow> json option" where
  "lua_field kvs k = map_of (rev kvs) k"

fun lua_decode :: "jtext \<Rightarrow> (string \<times> json) list option" where
  "lua_decode (Doc (JObj kvs)) = Some kvs"
| "lua_decode (Doc (JArr xs)) = Some []"
| "lua_decode (Doc (JStr s)) = Some []"
| "lua_decode (Doc (JTime t)) = Some []"
| "lua_decode _ = None"

fun lua_tonumber :: "json option \<Rightarrow> int option" where
  "lua_tonumber (Some (JStr s)) = parse_int s"
| "lua_tonumber (Some (JInt i)) = Some i"
| "lua_tonumber _ = None"

definition processing_payload :: "string \<Rightarrow> string \<Rightarrow> jtext" where
  "processing_payload workerID startedAt =
     Doc (JObj [(''status'', JStr ''processing''), (''worker_id'', JStr workerID),
                (''started_at'', JStr startedAt)])"

text \<open>\<open>SET key payload EX ttl\<close>: an error unless the time to live is a positive number.\<close>

definition lua_set_ex :: "string \<Rightarrow> jtext \<Rightarrow> int option \<Rightarrow> kvstore \<Rightarrow> (int \<times> kvstore) option" where
  "lua_set_ex key payload ttl kv =
     (case ttl of
        None \<Rightarrow> None
      | Some t \<Rightarrow> if t \<le> 0 then None else Some (1, kv(key \<mapsto> (payload, Some t))))"

definition idempotencyLuaScript ::
  "kvstore \<Rightarrow> string \<Rightarrow> string \<Rightarrow> string \<Rightarrow> string \<Rightarrow> (int \<times> kvstore) option" where
  "idempotencyLuaScript kv key workerID ttl startedAt =
     (let acquire = lua_set_ex key (processing_payload workerID startedAt) (parse_int ttl) kv in
      case kv key of
        None \<Rightarrow> acquire
      | Some (existing, _) \<Rightarrow>
          (case lua_decode existing of
             None \<Rightarrow> None
           | Some data \<Rightarrow>
               if lua_field data ''status'' = Some (JStr ''completed'') then Some (0, kv)
               else if lua_field data ''status'' = Some (JStr ''processing'') then Some (0, kv)
               else acquire))"

definition reclaimStaleLuaScript ::
  "kvstore \<Rightarrow> string \<Rightarrow> string \<Rightarrow> string \<Rightarrow> string \<Rightarrow> string \<Rightarrow> string \<Rightarrow> (int \<times> kvstore) option" where
  "reclaimStaleLuaScript kv key workerID ttl startedAt maxAge nowUnix =
     (case kv key of
        None \<Rightarrow> Some (0, kv)
      | Some (existing, _) \<Rightarrow>
          (case lua_decode existing of
             None \<Rightarrow> None
           | Some data \<Rightarrow>
               if lua_field data ''status'' \<noteq> Some (JStr ''processing'') then Some (0, kv)
               else (case lua_tonumber (lua_field data ''started_at'') of
                   None \<Rightarrow> Some (0, kv)
                 | Some existingTime \<Rightarrow>
                     (case (parse_int nowUnix, parse_int maxAge) of
                        (Some now, Some age) \<Rightarrow>
                          if now - existingTime < age then Some (0, kv)
                          else lua_set_ex key (processing_payload workerID startedAt) (parse_int ttl) kv
                      | _ \<Rightarrow> None))))"

fun run_script :: "lua_script \<Rightarrow> string list \<Rightarrow> string list \<Rightarrow> kvstore \<Rightarrow> (int \<times> kvstore) option" where
  "run_script IdempotencyLua [key] [workerID, ttl, startedAt] kv =
     idempotencyLuaScript kv key workerID ttl startedAt"
| "run_script ReclaimStaleLua [key] [workerID, ttl, startedAt, maxAge, nowUnix] kv =
     reclaimStaleLuaScript kv key workerID ttl startedAt maxAge nowUnix"
| "run_script _ _ _ _ = None"

subsection \<open>Commands and replies\<close>

datatype rcmd =
  PING
| SCRIPT_LOAD lua_script
| EVALSHA string "string list" "string list"
| GET string
| SET_XX string jtext duration
| DEL string
| XADD string "(string, jtext) fmap"
| XGROUP_CREATE string string
| XREADGROUP string string "string list" nat duration
| XACK string string string
| XAUTOCLAIM string string string duration nat
| ZADD string f64 jtext
| ZADD_NX string f64 jtext
| ZRANGEBYSCORE string string nat
| ZREM string "jtext list"
| ZCARD string
| RPUSH string jtext
| EXPIRE string duration
| LRANGE string i64 i64
| LLEN string

datatype reply =
  ROK
| RNum int
| RText jtext
| RTexts "jtext list"
| RSha string
| RMsgs "stream_msg list"
| RStreams "(string \<times> stream_msg list) list"

text \<open>Sorted sets: a member occurs once; the order of the list carries no meaning.\<close>

definition zadd_nx :: "f64 \<Rightarrow> jtext \<Rightarrow> (jtext \<times> f64) list \<Rightarrow> (jtext \<times> f64) list" where
  "zadd_nx sc m z = (if m \<in> set (map fst z) then z else z @ [(m, sc)])"

definition zadd :: "f64 \<Rightarrow> jtext \<Rightarrow> (jtext \<times> f64) list \<Rightarrow> (jtext \<times> f64) list" where
  "zadd sc m z =
     (if m \<in> set (map fst z) then map (\<lambda>(m', sc'). (m', if m' = m then sc else sc')) z
      else z @ [(m, sc)])"

definition zrem :: "jtext list \<Rightarrow> (jtext \<times> f64) list \<Rightarrow> (jtext \<times> f64) list" where
  "zrem ms z = filter (\<lambda>(m, _). m \<notin> set ms) z"

text \<open>The score limit of a range query, read as Redis reads a decimal integer.\<close>

definition score_limit :: "string \<Rightarrow> f64" where
  "score_limit s = (case parse_int s of None \<Rightarrow> NaN | Some i \<Rightarrow> f64_of_rat (of_int i))"

definition score_le :: "f64 \<Rightarrow> f64 \<Rightarrow> bool" where
  "score_le a b \<longleftrightarrow> a \<noteq> NaN \<and> b \<noteq> NaN \<and> \<not> f64_gt a b"

text \<open>The messages a group has not read yet, and the group after reading \<open>n\<close> of them.\<close>

definition unread :: "redis_stream \<Rightarrow> string \<Rightarrow> stream_msg list" where
  "unread st g = (case groups st g of None \<Rightarrow> [] | Some cg \<Rightarrow> drop (last_read cg) (entries st))"

definition own :: "string \<Rightarrow> stream_msg list \<Rightarrow> (string \<Rightarrow> string option) \<Rightarrow> string \<Rightarrow> string option" where
  "own consumer msgs p = (\<lambda>i. if i \<in> set (map MsgID msgs) then Some consumer else p i)"

definition read_group :: "string \<Rightarrow> string \<Rightarrow> nat \<Rightarrow> redis_stream \<Rightarrow> redis_stream" where
  "read_group g consumer n st =
     (case groups st g of
        None \<Rightarrow> st
      | Some cg \<Rightarrow> st\<lparr>groups := (groups st)(g \<mapsto>
          cg\<lparr>last_read := min (last_read cg + n) (length (entries st)),
             pel := own consumer (take n (unread st g)) (pel cg)\<rparr>)\<rparr>)"

definition upd_pel :: "string \<Rightarrow> ((string \<Rightarrow> string option) \<Rightarrow> string \<Rightarrow> string option) \<Rightarrow> redis_stream \<Rightarrow> redis_stream" where
  "upd_pel g f st =
     (case groups st g of
        None \<Rightarrow> st
      | Some cg \<Rightarrow> st\<lparr>groups := (groups st)(g \<mapsto> cg\<lparr>pel := f (pel cg)\<rparr>)\<rparr>)"

definition pel_of :: "keyspace \<Rightarrow> string \<Rightarrow> string \<Rightarrow> string \<Rightarrow> string option" where
  "pel_of k stream g = (case groups (streams k stream) g of None \<Rightarrow> (\<lambda>_. None) | Some cg \<Rightarrow> pel cg)"

subsection \<open>Documented behaviour of the commands\<close>

definition ttl_secs :: "duration \<Rightarrow> int" where
  "ttl_secs d = (if 0 < sint d \<and> sint d < 1000000000 then 1 else rat_trunc (of_int (sint d) / 1000000000))"

definition lrange :: "'a list \<Rightarrow> int \<Rightarrow> int \<Rightarrow> 'a list" where
  "lrange l a b =
     (let n = int (length l); a' = (if a < 0 then max 0 (n + a) else a); b' = (if b < 0 then n + b else b)
      in take (nat (b' - a' + 1)) (drop (nat a') l))"

definition zrange_ok :: "(jtext \<times> f64) list \<Rightarrow> f64 \<Rightarrow> nat \<Rightarrow> jtext list \<Rightarrow> bool" where
  "zrange_ok z hi n ms \<longleftrightarrow>
     (\<exists>z'. mset z' = mset (filter (\<lambda>(_, sc). score_le sc hi) z) \<and>
           sorted_wrt (\<lambda>a b. \<not> f64_gt (snd a) (snd b)) z' \<and> ms = take n (map fst z'))"

definition upd_stream :: "string \<Rightarrow> (redis_stream \<Rightarrow> redis_stream) \<Rightarrow> keyspace \<Rightarrow> keyspace" where
  "upd_stream key f k = k\<lparr>streams := (streams k)(key := f (streams k key))\<rparr>"

definition upd_zset :: "string \<Rightarrow> ((jtext \<times> f64) list \<Rightarrow> (jtext \<times> f64) list) \<Rightarrow> keyspace \<Rightarrow> keyspace" where
  "upd_zset key f k = k\<lparr>zsets := (zsets k)(key := f (zsets k key))\<rparr>"

definition upd_list :: "string \<Rightarrow> (jtext list \<Rightarrow> jtext list) \<Rightarrow> keyspace \<Rightarrow> keyspace" where
  "upd_list key f k = k\<lparr>lists := (lists k)(key := f (lists k key))\<rparr>"

text \<open>
  \<open>redis_ok c k r k'\<close>: executing \<open>c\<close> on \<open>k\<close> may reply \<open>r\<close> and leave \<open>k'\<close>. EXPIRE with a time
  that is not positive deletes the key.
\<close>

fun redis_ok :: "rcmd \<Rightarrow> keyspace \<Rightarrow> reply \<Rightarrow> keyspace \<Rightarrow> bool" where
  "redis_ok PING k r k' \<longleftrightarrow> r = ROK \<and> k' = k"
| "redis_ok (SCRIPT_LOAD scr) k r k' \<longleftrightarrow>
     (\<exists>sha. r = RSha sha \<and> scripts k sha \<in> {None, Some scr} \<and>
            k' = k\<lparr>scripts := (scripts k)(sha \<mapsto> scr)\<rparr>)"
| "redis_ok (EVALSHA sha keys args) k r k' \<longleftrightarrow>
     (\<exists>scr n kv. scripts k sha = Some scr \<and> run_script scr keys args (strs k) = Some (n, kv) \<and>
                r = RNum n \<and> k' = k\<lparr>strs := kv\<rparr>)"
| "redis_ok (GET key) k r k' \<longleftrightarrow> (\<exists>v t. strs k key = Some (v, t) \<and> r = RText v) \<and> k' = k"
| "redis_ok (SET_XX key v d) k r k' \<longleftrightarrow>
     strs k key \<noteq> None \<and> r = ROK \<and>
     k' = k\<lparr>strs := (strs k)(key \<mapsto> (v, if 0 < sint d then Some (ttl_secs d) else None))\<rparr>"
| "redis_ok (DEL key) k r k' \<longleftrightarrow>
     r = RNum (if strs k key = None then 0 else 1) \<and> k' = k\<lparr>strs := (strs k)(key := None)\<rparr>"
| "redis_ok (XADD key vals) k r k' \<longleftrightarrow>
     (\<exists>i. i \<notin> MsgID ` set (entries (streams k key)) \<and> r = RText (Raw i) \<and>
          k' = upd_stream key (\<lambda>st. st\<lparr>entries := entries st @ [\<lparr>MsgID = i, MsgValues = vals\<rparr>]\<rparr>) k)"
| "redis_ok (XGROUP_CREATE key g) k r k' \<longleftrightarrow>
     groups (streams k key) g = None \<and> r = ROK \<and>
     k' = upd_stream key (\<lambda>st. st\<lparr>groups := (groups st)(g \<mapsto>
            \<lparr>last_read = length (entries st), pel = (\<lambda>_. None)\<rparr>)\<rparr>) k"
| "redis_ok (XREADGROUP g cons keys n d) k r k' \<longleftrightarrow>
     (\<forall>key \<in> set keys. groups (streams k key) g \<noteq> None) \<and>
     (\<exists>res. res = filter (\<lambda>(_, ms). ms \<noteq> []) (map (\<lambda>key. (key, take n (unread (streams k key) g))) keys) \<and>
            res \<noteq> [] \<and> r = RStreams res) \<and>
     k' = k\<lparr>streams := (\<lambda>key. if key \<in> set keys then read_group g cons n (streams k key) else streams k key)\<rparr>"
| "redis_ok (XACK key g i) k r k' \<longleftrightarrow>
     r = RNum (if pel_of k key g i = None then 0 else 1) \<and>
     k' = upd_stream key (upd_pel g (\<lambda>p. p(i := None))) k"
| "redis_ok (XAUTOCLAIM key g cons d n) k r k' \<longleftrightarrow>
     groups (streams k key) g \<noteq> None \<and>
     (\<exists>ms. r = RMsgs ms \<and> length ms \<le> n \<and> set ms \<subseteq> set (entries (streams k key)) \<and>
           (\<forall>m \<in> set ms. pel_of k key g (MsgID m) \<noteq> None) \<and>
           k' = upd_stream key (upd_pel g (own cons ms)) k)"
| "redis_ok (ZADD key sc m) k r k' \<longleftrightarrow>
     r = RNum (if m \<in> set (map fst (zsets k key)) then 0 else 1) \<and> k' = upd_zset key (zadd sc m) k"
| "redis_ok (ZADD_NX key sc m) k r k' \<longleftrightarrow>
     r = RNum (if m \<in> set (map fst (zsets k key)) then 0 else 1) \<and> k' = upd_zset key (zadd_nx sc m) k"
| "redis_ok (ZRANGEBYSCORE key hi n) k r k' \<longleftrightarrow>
     (\<exists>ms. r = RTexts ms \<and> zrange_ok (zsets k key) (score_limit hi) n ms) \<and> k' = k"
| "redis_ok (ZREM key ms) k r k' \<longleftrightarrow>
     ms \<noteq> [] \<and> r = RNum (int (length (zsets k key)) - int (length (zrem ms (zsets k key)))) \<and>
     k' = upd_zset key (zrem ms) k"
| "redis_ok (ZCARD key) k r k' \<longleftrightarrow> r = RNum (int (length (zsets k key))) \<and> k' = k"
| "redis_ok (RPUSH key v) k r k' \<longleftrightarrow>
     r = RNum (int (length (lists k key)) + 1) \<and> k' = upd_list key (\<lambda>l. l @ [v]) k"
| "redis_ok (EXPIRE key d) k r k' \<longleftrightarrow>
     r = RNum (if lists k key = [] then 0 else 1) \<and>
     k' = (if lists k key = [] then k
           else if ttl_secs d \<le> 0 then (upd_list key (\<lambda>_. []) k)\<lparr>list_ttl := (list_ttl k)(key := None)\<rparr>
           else k\<lparr>list_ttl := (list_ttl k)(key \<mapsto> ttl_secs d)\<rparr>)"
| "redis_ok (LRANGE key a b) k r k' \<longleftrightarrow> r = RTexts (lrange (lists k key) (sint a) (sint b)) \<and> k' = k"
| "redis_ok (LLEN key) k r k' \<longleftrightarrow> r = RNum (int (length (lists k key))) \<and> k' = k"

text \<open>The commands that reply nil, and when.\<close>

fun redis_nil :: "rcmd \<Rightarrow> keyspace \<Rightarrow> bool" where
  "redis_nil (GET key) k \<longleftrightarrow> strs k key = None"
| "redis_nil (SET_XX key v d) k \<longleftrightarrow> strs k key = None"
| "redis_nil (XREADGROUP g cons keys n d) k \<longleftrightarrow>
     (\<forall>key \<in> set keys. groups (streams k key) g \<noteq> None \<and> unread (streams k key) g = [])"
| "redis_nil _ _ \<longleftrightarrow> False"

subsection \<open>Repeated execution\<close>

text \<open>
  The go-redis client sends a command again after a network error (three times by default), so
  one call may execute the command several times, and a call that fails may have executed it.
\<close>

definition redis_eff :: "rcmd \<Rightarrow> keyspace \<Rightarrow> keyspace \<Rightarrow> bool" where
  "redis_eff c k k' \<longleftrightarrow> (\<exists>r. redis_ok c k r k')"

definition redis_effs :: "rcmd \<Rightarrow> keyspace \<Rightarrow> keyspace \<Rightarrow> bool" where
  "redis_effs c = (redis_eff c)\<^sup>*\<^sup>*"

lemma redis_effs_refl [simp, intro]: "redis_effs c k k"
  by (simp add: redis_effs_def)

lemma redis_effs_step: "redis_effs c k k' \<Longrightarrow> redis_ok c k' r k'' \<Longrightarrow> redis_effs c k k''"
  unfolding redis_effs_def by (erule rtranclp.rtrancl_into_rtrancl) (auto simp: redis_eff_def)

lemma redis_effs_induct:
  assumes "redis_effs c k k'" and "P k"
    and "\<And>k1 k2 r. P k1 \<Longrightarrow> redis_ok c k1 r k2 \<Longrightarrow> P k2"
  shows "P k'"
  using assms(1) unfolding redis_effs_def
  by (induction rule: rtranclp_induct) (use assms in \<open>auto simp: redis_eff_def\<close>)

fun read_only :: "rcmd \<Rightarrow> bool" where
  "read_only PING \<longleftrightarrow> True"
| "read_only (GET _) \<longleftrightarrow> True"
| "read_only (ZRANGEBYSCORE _ _ _) \<longleftrightarrow> True"
| "read_only (ZCARD _) \<longleftrightarrow> True"
| "read_only (LRANGE _ _ _) \<longleftrightarrow> True"
| "read_only (LLEN _) \<longleftrightarrow> True"
| "read_only _ \<longleftrightarrow> False"

lemma read_only_ok: "read_only c \<Longrightarrow> redis_ok c k r k' \<Longrightarrow> k' = k"
  by (cases c) auto

lemma read_only_effs: "read_only c \<Longrightarrow> redis_effs c k k' \<Longrightarrow> k' = k"
  by (erule redis_effs_induct [where P = "\<lambda>k'. k' = k"]) (auto dest: read_only_ok)

lemma upd_zset_idem: "(\<And>z. f (f z) = f z) \<Longrightarrow> upd_zset key f (upd_zset key f k) = upd_zset key f k"
  by (simp add: upd_zset_def)

lemma zadd_nx_idem [simp]: "zadd_nx sc m (zadd_nx sc' m z) = zadd_nx sc' m z"
  by (simp add: zadd_nx_def)

lemma zrem_idem [simp]: "zrem ms (zrem ms z) = zrem ms z"
  by (simp add: zrem_def)

lemma zadd_idem [simp]: "zadd sc m (zadd sc m z) = zadd sc m z"
proof -
  let ?f = "\<lambda>(m', sc'). (m', if m' = m then sc else sc')"
  have keys: "map fst (map ?f z) = map fst z" by (simp add: comp_def case_prod_unfold)
  have twice: "map ?f (map ?f z) = map ?f z" by (simp add: case_prod_unfold)
  show ?thesis
  proof (cases "m \<in> set (map fst z)")
    case True
    then have "zadd sc m z = map ?f z" by (simp add: zadd_def)
    moreover have "zadd sc m (map ?f z) = map ?f (map ?f z)"
      using True unfolding zadd_def keys by simp
    ultimately show ?thesis by (simp only: twice)
  next
    case False
    then have "map ?f z = z" by (intro map_idI) force
    with False show ?thesis by (simp add: zadd_def)
  qed
qed

lemma zadd_nx_effs:
  "redis_effs (ZADD_NX key sc m) k k' \<Longrightarrow> k' = k \<or> k' = upd_zset key (zadd_nx sc m) k"
  by (erule redis_effs_induct [where P = "\<lambda>k'. k' = k \<or> k' = upd_zset key (zadd_nx sc m) k"])
    (auto simp: upd_zset_idem)

lemma zadd_effs:
  "redis_effs (ZADD key sc m) k k' \<Longrightarrow> k' = k \<or> k' = upd_zset key (zadd sc m) k"
  by (erule redis_effs_induct [where P = "\<lambda>k'. k' = k \<or> k' = upd_zset key (zadd sc m) k"])
    (auto simp: upd_zset_idem)

lemma zrem_effs:
  "redis_effs (ZREM key ms) k k' \<Longrightarrow> k' = k \<or> k' = upd_zset key (zrem ms) k"
  by (erule redis_effs_induct [where P = "\<lambda>k'. k' = k \<or> k' = upd_zset key (zrem ms) k"])
    (auto simp: upd_zset_idem)

lemma upd_pel_idem: "(\<And>p. f (f p) = f p) \<Longrightarrow> upd_pel g f (upd_pel g f st) = upd_pel g f st"
  by (auto simp: upd_pel_def split: option.split)

lemma upd_stream_idem: "(\<And>st. f (f st) = f st) \<Longrightarrow> upd_stream key f (upd_stream key f k) = upd_stream key f k"
  by (simp add: upd_stream_def)

lemma xack_effs:
  "redis_effs (XACK key g i) k k' \<Longrightarrow> k' = k \<or> k' = upd_stream key (upd_pel g (\<lambda>p. p(i := None))) k"
  by (erule redis_effs_induct
      [where P = "\<lambda>k'. k' = k \<or> k' = upd_stream key (upd_pel g (\<lambda>p. p(i := None))) k"])
    (auto simp: upd_stream_idem upd_pel_idem)

lemma del_effs:
  "redis_effs (DEL key) k k' \<Longrightarrow> k' = k \<or> k' = k\<lparr>strs := (strs k)(key := None)\<rparr>"
  by (erule redis_effs_induct [where P = "\<lambda>k'. k' = k \<or> k' = k\<lparr>strs := (strs k)(key := None)\<rparr>"]) auto

lemma rpush_effs:
  "redis_effs (RPUSH key v) k k' \<Longrightarrow> \<exists>n. k' = upd_list key (\<lambda>l. l @ replicate n v) k"
proof (erule redis_effs_induct [where P = "\<lambda>k'. \<exists>n. k' = upd_list key (\<lambda>l. l @ replicate n v) k"])
  show "\<exists>n. k = upd_list key (\<lambda>l. l @ replicate n v) k"
    by (rule exI [of _ 0]) (simp add: upd_list_def)
next
  fix k1 k2 r
  assume "\<exists>n. k1 = upd_list key (\<lambda>l. l @ replicate n v) k" and "redis_ok (RPUSH key v) k1 r k2"
  then obtain n where "k1 = upd_list key (\<lambda>l. l @ replicate n v) k" "k2 = upd_list key (\<lambda>l. l @ [v]) k1"
    by auto
  then have "k2 = upd_list key (\<lambda>l. l @ replicate (Suc n) v) k"
    by (simp add: upd_list_def replicate_append_same)
  then show "\<exists>n. k2 = upd_list key (\<lambda>l. l @ replicate n v) k" ..
qed

definition add_entries :: "stream_msg list \<Rightarrow> redis_stream \<Rightarrow> redis_stream" where
  "add_entries ms st = st\<lparr>entries := entries st @ ms\<rparr>"

lemma xadd_effs:
  "redis_effs (XADD key vals) k k' \<Longrightarrow>
   \<exists>ms. k' = upd_stream key (add_entries ms) k \<and> (\<forall>m \<in> set ms. MsgValues m = vals)"
proof (erule redis_effs_induct
    [where P = "\<lambda>k'. \<exists>ms. k' = upd_stream key (add_entries ms) k \<and> (\<forall>m \<in> set ms. MsgValues m = vals)"])
  show "\<exists>ms. k = upd_stream key (add_entries ms) k \<and> (\<forall>m \<in> set ms. MsgValues m = vals)"
    by (rule exI [of _ "[]"]) (simp add: upd_stream_def add_entries_def)
next
  fix k1 k2 r
  assume "\<exists>ms. k1 = upd_stream key (add_entries ms) k \<and> (\<forall>m \<in> set ms. MsgValues m = vals)"
    and "redis_ok (XADD key vals) k1 r k2"
  then obtain ms i where "k1 = upd_stream key (add_entries ms) k" "\<forall>m \<in> set ms. MsgValues m = vals"
    "k2 = upd_stream key (\<lambda>st. st\<lparr>entries := entries st @ [\<lparr>MsgID = i, MsgValues = vals\<rparr>]\<rparr>) k1"
    by auto
  then have "k2 = upd_stream key (add_entries (ms @ [\<lparr>MsgID = i, MsgValues = vals\<rparr>])) k"
    "\<forall>m \<in> set (ms @ [\<lparr>MsgID = i, MsgValues = vals\<rparr>]). MsgValues m = vals"
    by (simp_all add: upd_stream_def add_entries_def)
  then show "\<exists>ms. k2 = upd_stream key (add_entries ms) k \<and> (\<forall>m \<in> set ms. MsgValues m = vals)" by blast
qed

subsection \<open>The interface\<close>

locale redis_server =
  fixes client :: "rcmd \<Rightarrow> 's \<Rightarrow> (go_error + reply) \<times> 's"
    and ks :: "'s \<Rightarrow> keyspace"
  assumes client_ok:
    "client c s = (Inr r, s') \<Longrightarrow> \<exists>k. redis_effs c (ks s) k \<and> redis_ok c k r (ks s')"
    and client_err:
    "client c s = (Inl e, s') \<Longrightarrow> redis_effs c (ks s) (ks s')"
    and client_nil:
    "client c s = (Inl e, s') \<Longrightarrow> errors_is e ErrRedisNil \<Longrightarrow> redis_nil c (ks s')"
begin

lemma client_effs: "client c s = (res, s') \<Longrightarrow> redis_effs c (ks s) (ks s')"
  by (cases res) (auto dest: client_err client_ok intro: redis_effs_step)

lemma client_read_only: "read_only c \<Longrightarrow> client c s = (res, s') \<Longrightarrow> ks s' = ks s"
  by (auto dest: client_effs read_only_effs)

lemma client_read:
  "read_only c \<Longrightarrow> client c s = (Inr r, s') \<Longrightarrow> redis_ok c (ks s) r (ks s) \<and> ks s' = ks s"
  using client_ok read_only_effs client_read_only by metis

end

text \<open>A client without resending: a successful call executed the command once.\<close>

locale redis_server_once = redis_server client ks
  for client :: "rcmd \<Rightarrow> 's \<Rightarrow> (go_error + reply) \<times> 's" and ks :: "'s \<Rightarrow> keyspace" +
  assumes client_once: "client c s = (Inr r, s') \<Longrightarrow> redis_ok c (ks s) r (ks s')"

subsection \<open>An in-memory server with faults\<close>

definition f64_rank :: "f64 \<Rightarrow> int \<times> rat" where
  "f64_rank x = (case x of NInf \<Rightarrow> (-1, 0) | Fin q \<Rightarrow> (0, q) | PInf \<Rightarrow> (1, 0) | NaN \<Rightarrow> (2, 0))"

lemma f64_rank_gt: "a \<noteq> NaN \<Longrightarrow> b \<noteq> NaN \<Longrightarrow> f64_gt a b \<longleftrightarrow> f64_rank b < f64_rank a"
  by (cases a; cases b) (auto simp: f64_rank_def)

definition sorted_due :: "(jtext \<times> f64) list \<Rightarrow> f64 \<Rightarrow> (jtext \<times> f64) list" where
  "sorted_due z hi = sort_key (\<lambda>p. f64_rank (snd p)) (filter (\<lambda>(_, sc). score_le sc hi) z)"

lemma zrange_ok_sorted_due: "zrange_ok z hi n (take n (map fst (sorted_due z hi)))"
proof -
  let ?z = "sorted_due z hi"
  have nn: "\<forall>p \<in> set ?z. snd p \<noteq> NaN" by (auto simp: sorted_due_def score_le_def)
  have "sorted_wrt (\<lambda>a b. f64_rank (snd a) \<le> f64_rank (snd b)) ?z"
    using sorted_sort_key [of "\<lambda>p. f64_rank (snd p)"] by (simp add: sorted_due_def sorted_map)
  then have "sorted_wrt (\<lambda>a b. \<not> f64_gt (snd a) (snd b)) ?z"
    by (rule sorted_wrt_mono_rel [rotated]) (use nn in \<open>auto simp: f64_rank_gt\<close>)
  moreover have "mset ?z = mset (filter (\<lambda>(_, sc). score_le sc hi) z)"
    by (simp add: sorted_due_def)
  ultimately show ?thesis unfolding zrange_ok_def by blast
qed

definition redis_nil_error :: go_error where
  "redis_nil_error = ESentinel ErrRedisNil"

fun mem_exec :: "rcmd \<Rightarrow> keyspace \<Rightarrow> (go_error + reply) \<times> keyspace" where
  "mem_exec PING k = (Inr ROK, k)"
| "mem_exec (SCRIPT_LOAD scr) k =
     (let sha = (case scr of IdempotencyLua \<Rightarrow> ''sha-idem'' | ReclaimStaleLua \<Rightarrow> ''sha-reclaim'')
      in if scripts k sha = None \<or> scripts k sha = Some scr
         then (Inr (RSha sha), k\<lparr>scripts := (scripts k)(sha \<mapsto> scr)\<rparr>)
         else (Inl (ENew ''ERR''), k))"
| "mem_exec (EVALSHA sha keys args) k =
     (case scripts k sha of
        None \<Rightarrow> (Inl (ENew ''NOSCRIPT No matching script''), k)
      | Some scr \<Rightarrow> (case run_script scr keys args (strs k) of
            None \<Rightarrow> (Inl (ENew ''ERR script''), k)
          | Some (n, kv) \<Rightarrow> (Inr (RNum n), k\<lparr>strs := kv\<rparr>)))"
| "mem_exec (GET key) k =
     (case strs k key of None \<Rightarrow> (Inl redis_nil_error, k) | Some (v, _) \<Rightarrow> (Inr (RText v), k))"
| "mem_exec (SET_XX key v d) k =
     (if strs k key = None then (Inl redis_nil_error, k)
      else (Inr ROK, k\<lparr>strs := (strs k)(key \<mapsto> (v, if 0 < sint d then Some (ttl_secs d) else None))\<rparr>))"
| "mem_exec (DEL key) k =
     (Inr (RNum (if strs k key = None then 0 else 1)), k\<lparr>strs := (strs k)(key := None)\<rparr>)"
| "mem_exec (XADD key vals) k =
     (let i = show_nat (length (entries (streams k key)))
      in if i \<in> MsgID ` set (entries (streams k key)) then (Inl (ENew ''ERR''), k)
         else (Inr (RText (Raw i)),
               upd_stream key (\<lambda>st. st\<lparr>entries := entries st @ [\<lparr>MsgID = i, MsgValues = vals\<rparr>]\<rparr>) k))"
| "mem_exec (XGROUP_CREATE key g) k =
     (if groups (streams k key) g \<noteq> None then (Inl (ENew ''BUSYGROUP Consumer Group name already exists''), k)
      else (Inr ROK, upd_stream key (\<lambda>st. st\<lparr>groups := (groups st)(g \<mapsto>
             \<lparr>last_read = length (entries st), pel = (\<lambda>_. None)\<rparr>)\<rparr>) k))"
| "mem_exec (XREADGROUP g cons keys n d) k =
     (let res = filter (\<lambda>(_, ms). ms \<noteq> []) (map (\<lambda>key. (key, take n (unread (streams k key) g))) keys)
      in if \<exists>key \<in> set keys. groups (streams k key) g = None then (Inl (ENew ''NOGROUP No such key''), k)
         else if res = [] then
           (if \<forall>key \<in> set keys. unread (streams k key) g = [] then (Inl redis_nil_error, k)
            else (Inl (ENew ''i/o timeout''), k))
         else (Inr (RStreams res),
               k\<lparr>streams := (\<lambda>key. if key \<in> set keys then read_group g cons n (streams k key)
                                    else streams k key)\<rparr>))"
| "mem_exec (XACK key g i) k =
     (Inr (RNum (if pel_of k key g i = None then 0 else 1)),
      upd_stream key (upd_pel g (\<lambda>p. p(i := None))) k)"
| "mem_exec (XAUTOCLAIM key g cons d n) k =
     (if groups (streams k key) g = None then (Inl (ENew ''NOGROUP No such key''), k)
      else (let ms = take n (filter (\<lambda>m. pel_of k key g (MsgID m) \<noteq> None) (entries (streams k key)))
            in (Inr (RMsgs ms), upd_stream key (upd_pel g (own cons ms)) k)))"
| "mem_exec (ZADD key sc m) k =
     (Inr (RNum (if m \<in> set (map fst (zsets k key)) then 0 else 1)), upd_zset key (zadd sc m) k)"
| "mem_exec (ZADD_NX key sc m) k =
     (Inr (RNum (if m \<in> set (map fst (zsets k key)) then 0 else 1)), upd_zset key (zadd_nx sc m) k)"
| "mem_exec (ZRANGEBYSCORE key hi n) k =
     (Inr (RTexts (take n (map fst (sorted_due (zsets k key) (score_limit hi))))), k)"
| "mem_exec (ZREM key ms) k =
     (if ms = [] then (Inl (ENew ''ERR wrong number of arguments''), k)
      else (Inr (RNum (int (length (zsets k key)) - int (length (zrem ms (zsets k key))))),
            upd_zset key (zrem ms) k))"
| "mem_exec (ZCARD key) k = (Inr (RNum (int (length (zsets k key)))), k)"
| "mem_exec (RPUSH key v) k =
     (Inr (RNum (int (length (lists k key)) + 1)), upd_list key (\<lambda>l. l @ [v]) k)"
| "mem_exec (EXPIRE key d) k =
     (Inr (RNum (if lists k key = [] then 0 else 1)),
      if lists k key = [] then k
      else if ttl_secs d \<le> 0 then (upd_list key (\<lambda>_. []) k)\<lparr>list_ttl := (list_ttl k)(key := None)\<rparr>
      else k\<lparr>list_ttl := (list_ttl k)(key \<mapsto> ttl_secs d)\<rparr>)"
| "mem_exec (LRANGE key a b) k = (Inr (RTexts (lrange (lists k key) (sint a) (sint b))), k)"
| "mem_exec (LLEN key) k = (Inr (RNum (int (length (lists k key)))), k)"

lemma mem_exec_ok: "mem_exec c k = (Inr r, k') \<Longrightarrow> redis_ok c k r k'"
  by (cases c) (auto simp: Let_def zrange_ok_sorted_due dest!: in_set_takeD
      split: if_splits option.splits lua_script.splits)

lemma mem_exec_err: "mem_exec c k = (Inl e, k') \<Longrightarrow> k' = k \<and> (errors_is e ErrRedisNil \<longrightarrow> redis_nil c k)"
  by (cases c) (auto simp: Let_def redis_nil_error_def split: if_splits option.splits)

text \<open>
  One fault per command: the request is lost, the reply is lost, or the client sends the
  command twice; \<open>resend\<close> says whether the client does that.
\<close>

datatype fault = NoFault | LostRequest | LostReply | Resent

record mem_server =
  mem_ks :: keyspace
  mem_faults :: "fault list"

definition timeout_error :: go_error where
  "timeout_error = ENew ''i/o timeout''"

definition mem_apply :: "bool \<Rightarrow> fault \<Rightarrow> rcmd \<Rightarrow> keyspace \<Rightarrow> (go_error + reply) \<times> keyspace" where
  "mem_apply resend f c k =
     (case f of
        NoFault \<Rightarrow> mem_exec c k
      | LostRequest \<Rightarrow> (Inl timeout_error, k)
      | LostReply \<Rightarrow> (Inl timeout_error, snd (mem_exec c k))
      | Resent \<Rightarrow> if resend then mem_exec c (snd (mem_exec c k)) else mem_exec c k)"

definition mem_client ::
  "bool \<Rightarrow> rcmd \<Rightarrow> ('a mem_server_scheme) \<Rightarrow> (go_error + reply) \<times> ('a mem_server_scheme)" where
  "mem_client resend c m =
     (let (f, fs) = (case mem_faults m of [] \<Rightarrow> (NoFault, []) | f # fs \<Rightarrow> (f, fs));
          (res, k) = mem_apply resend f c (mem_ks m)
      in (res, m\<lparr>mem_ks := k, mem_faults := fs\<rparr>))"

declare mem_apply_def [mem_eval] mem_client_def [mem_eval]

lemma mem_exec_effs: "redis_effs c k (snd (mem_exec c k))"
proof (cases "mem_exec c k")
  case (Pair res k')
  then show ?thesis
    by (cases res) (auto dest: mem_exec_err mem_exec_ok intro: redis_effs_step [of c k k])
qed

lemma redis_effs_trans: "redis_effs c k k' \<Longrightarrow> redis_effs c k' k'' \<Longrightarrow> redis_effs c k k''"
  unfolding redis_effs_def by (rule rtranclp_trans)

lemma mem_apply_ok:
  "mem_apply resend f c k = (Inr r, k') \<Longrightarrow> \<exists>k0. redis_effs c k k0 \<and> redis_ok c k0 r k'"
  by (auto simp: mem_apply_def split: fault.splits if_splits dest: mem_exec_ok intro: mem_exec_effs)

lemma mem_apply_once: "mem_apply False f c k = (Inr r, k') \<Longrightarrow> redis_ok c k r k'"
  by (auto simp: mem_apply_def split: fault.splits dest: mem_exec_ok)

lemma mem_apply_err:
  assumes "mem_apply resend f c k = (Inl e, k')"
  shows "redis_effs c k k'" and "errors_is e ErrRedisNil \<Longrightarrow> redis_nil c k'"
proof -
  have "errors_is timeout_error ErrRedisNil \<longleftrightarrow> False" by (simp add: timeout_error_def)
  then show "redis_effs c k k'" and "errors_is e ErrRedisNil \<Longrightarrow> redis_nil c k'"
    using assms mem_exec_effs [of c k] mem_exec_effs [of c "snd (mem_exec c k)"]
    by (auto simp: mem_apply_def split: fault.splits if_splits dest: mem_exec_err intro: redis_effs_trans)
qed

lemma mem_client_apply:
  "mem_client resend c m = (res, m') \<Longrightarrow> \<exists>f. mem_apply resend f c (mem_ks m) = (res, mem_ks m')"
  by (auto simp: mem_client_def split: list.splits prod.splits)

interpretation mem: redis_server "mem_client resend" mem_ks for resend
  by unfold_locales (auto dest!: mem_client_apply dest: mem_apply_ok mem_apply_err)

interpretation mem_once: redis_server_once "mem_client False" mem_ks
  by unfold_locales (auto dest!: mem_client_apply dest: mem_apply_once)

end
