(* ===== verification/Env.thy ===== *)
theory Env
  imports Redis
begin

text \<open>
  The surroundings of the adapters, as one record of operations on the state of the world: the
  Redis client, the metrics recorder of internal/ports/metrics.go, the clock, the cancellation
  of the context and the random source. Redis pipelines are here too. Log lines and span
  attributes are not modelled: nothing the program does depends on them.
\<close>

datatype metric =
  RecordEnqueued string string string
| RecordProcessed string string string f64
| RecordQueueDepth string f64
| RecordDLQDepth string string f64
| RecordWorkerStats WorkerStats

record 's env =
  env_client :: "rcmd \<Rightarrow> 's \<Rightarrow> (go_error + reply) \<times> 's"
  record_metric :: "metric \<Rightarrow> 's \<Rightarrow> 's"
  time_now :: "'s \<Rightarrow> go_time \<times> 's"
  ctx_err :: "'s \<Rightarrow> go_error option \<times> 's"
  rand_float :: "'s \<Rightarrow> f64 \<times> 's"

text \<open>
  \<open>Pipeline().Exec\<close>: every queued command gets a result of its own, in order, and \<open>Exec\<close>
  returns the first error. Redis answers each command of a pipeline on its own, so a command may be refused while the next one is
  executed. A connection that fails half way is the case where the rest of the results are errors. That a request is
  lost and a later one of the same pipeline is not cannot happen in one round trip; the model allows it all the same.
\<close>

fun pipe_exec :: "'s env \<Rightarrow> rcmd list \<Rightarrow> 's \<Rightarrow> (go_error + reply) list \<times> 's" where
  "pipe_exec e [] s = ([], s)"
| "pipe_exec e (c # cs) s =
     (let (r, s1) = env_client e c s; (rs, s2) = pipe_exec e cs s1 in (r # rs, s2))"

fun pipe_err :: "(go_error + reply) list \<Rightarrow> go_error option" where
  "pipe_err [] = None"
| "pipe_err (Inl e # rs) = Some e"
| "pipe_err (Inr r # rs) = pipe_err rs"

lemma pipe_err_None: "pipe_err rs = None \<longleftrightarrow> (\<forall>r \<in> set rs. \<exists>x. r = Inr x)"
  by (induction rs rule: pipe_err.induct) auto

lemma pipe_exec_length: "pipe_exec e cs s = (rs, s') \<Longrightarrow> length rs = length cs"
  by (induction cs arbitrary: s rs s') (auto simp: Let_def split: prod.splits)

lemma pipe_exec_append:
  "pipe_exec e (xs @ ys) s =
     (let (r1, s1) = pipe_exec e xs s; (r2, s2) = pipe_exec e ys s1 in (r1 @ r2, s2))"
  by (induction xs arbitrary: s) (auto simp: Let_def split: prod.splits)

subsection \<open>The interface\<close>

locale redis_env = redis_server "env_client e" ks
  for e :: "'s env" and ks :: "'s \<Rightarrow> keyspace" +
  assumes metric_ks [simp]: "ks (record_metric e m s) = ks s"
    and now_ks: "time_now e s = (t, s') \<Longrightarrow> ks s' = ks s"
    and ctx_ks: "ctx_err e s = (err, s') \<Longrightarrow> ks s' = ks s"
    and rand_ks: "rand_float e s = (x, s') \<Longrightarrow> ks s' = ks s"
begin

text \<open>A property of the key space that every command of a pipeline keeps is kept by the pipeline.\<close>

lemma pipe_inv:
  assumes "pipe_exec e cs s = (rs, s')" and "P (ks s)"
    and "\<And>c k k'. c \<in> set cs \<Longrightarrow> P k \<Longrightarrow> redis_effs c k k' \<Longrightarrow> P k'"
  shows "P (ks s')"
  using assms
proof (induction cs arbitrary: s rs)
  case Nil
  then show ?case by simp
next
  case (Cons c cs)
  obtain r s1 where c: "env_client e c s = (r, s1)" by fastforce
  with Cons.prems(1) obtain rs' where "pipe_exec e cs s1 = (rs', s')"
    by (auto simp: Let_def split: prod.splits)
  moreover have "P (ks s1)"
    by (rule Cons.prems(3) [OF _ Cons.prems(2) client_effs [OF c]]) simp
  ultimately show ?case
    by (rule Cons.IH) (rule Cons.prems(3), auto)
qed

text \<open>When the result of a command of the pipeline is a reply, a fact its execution establishes
  and the later commands keep holds at the end.\<close>

lemma pipe_est:
  assumes "pipe_exec e cs s = (rs, s')" and "i < length cs" and "rs ! i = Inr r"
    and "\<And>k k' r. redis_ok (cs ! i) k r k' \<Longrightarrow> P k'"
    and "\<And>c k k'. c \<in> set (drop (Suc i) cs) \<Longrightarrow> P k \<Longrightarrow> redis_effs c k k' \<Longrightarrow> P k'"
  shows "P (ks s')"
  using assms
proof (induction cs arbitrary: s rs i)
  case Nil
  then show ?case by simp
next
  case (Cons c cs)
  obtain r0 s1 where c: "env_client e c s = (r0, s1)" by fastforce
  with Cons.prems(1) obtain rs' where p: "pipe_exec e cs s1 = (rs', s')" and rs: "rs = r0 # rs'"
    by (auto simp: Let_def split: prod.splits)
  show ?case
  proof (cases i)
    case 0
    with Cons.prems(3) rs have "r0 = Inr r" by simp
    with client_ok [of c s r s1] c Cons.prems(4) 0 have "P (ks s1)" by auto
    from p this show ?thesis by (rule pipe_inv) (use Cons.prems(5) 0 in auto)
  next
    case (Suc j)
    show ?thesis
      by (rule Cons.IH [OF p, of j]) (use Cons.prems Suc rs in auto)
  qed
qed

end

locale redis_env_once = redis_env e ks + redis_server_once "env_client e" ks
  for e :: "'s env" and ks :: "'s \<Rightarrow> keyspace"

subsection \<open>An in-memory world\<close>

record mem_world = mem_server +
  mem_clock :: go_time
  mem_metrics :: "metric list"
  mem_ctx :: "go_error option"
  mem_rand :: f64

definition mem_env :: "bool \<Rightarrow> ('a mem_world_scheme) env" where
  "mem_env resend =
     \<lparr>env_client = mem_client resend,
      record_metric = (\<lambda>m s. s\<lparr>mem_metrics := mem_metrics s @ [m]\<rparr>),
      time_now = (\<lambda>s. (mem_clock s, s)),
      ctx_err = (\<lambda>s. (mem_ctx s, s)),
      rand_float = (\<lambda>s. (mem_rand s, s))\<rparr>"

lemma mem_env_sels [simp]:
  "env_client (mem_env resend) = mem_client resend"
  "record_metric (mem_env resend) = (\<lambda>m s. s\<lparr>mem_metrics := mem_metrics s @ [m]\<rparr>)"
  "time_now (mem_env resend) = (\<lambda>s. (mem_clock s, s))"
  "ctx_err (mem_env resend) = (\<lambda>s. (mem_ctx s, s))"
  "rand_float (mem_env resend) = (\<lambda>s. (mem_rand s, s))"
  by (simp_all add: mem_env_def)

interpretation mem_env: redis_env "mem_env resend" mem_ks for resend
  by unfold_locales
    (simp_all, (drule mem.client_ok mem.client_err mem.client_nil, assumption?)+)

interpretation mem_env_once: redis_env_once "mem_env False" mem_ks
  by unfold_locales (auto dest: mem_once.client_once)

definition empty_ks :: keyspace where
  "empty_ks =
     \<lparr>streams = (\<lambda>_. empty_stream), zsets = (\<lambda>_. []), lists = (\<lambda>_. []), list_ttl = (\<lambda>_. None),
      strs = (\<lambda>_. None), scripts = (\<lambda>_. None)\<rparr>"

end
