(* ===== verification/Idempotency.thy ===== *)
theory Idempotency
  imports Env
begin

text \<open>
  internal/adapters/redis/idempotency.go and the script registry of scripts.go: the lock that
  makes one delivery attempt run once, with the abstract lock the scripts implement.
\<close>

subsection \<open>Replies\<close>

text \<open>The typed accessors of go-redis commands; a reply of another type is an error.\<close>

definition bad_reply :: go_error where
  "bad_reply = ENew ''redis: unexpected reply''"

definition reply_int :: "(go_error + reply) \<Rightarrow> go_error + int" where
  "reply_int r = (case r of Inl e \<Rightarrow> Inl e | Inr (RNum n) \<Rightarrow> Inr n | Inr _ \<Rightarrow> Inl bad_reply)"

definition reply_text :: "(go_error + reply) \<Rightarrow> go_error + jtext" where
  "reply_text r = (case r of Inl e \<Rightarrow> Inl e | Inr (RText t) \<Rightarrow> Inr t | Inr _ \<Rightarrow> Inl bad_reply)"

definition reply_texts :: "(go_error + reply) \<Rightarrow> go_error + jtext list" where
  "reply_texts r = (case r of Inl e \<Rightarrow> Inl e | Inr (RTexts t) \<Rightarrow> Inr t | Inr _ \<Rightarrow> Inl bad_reply)"

definition reply_sha :: "(go_error + reply) \<Rightarrow> go_error + string" where
  "reply_sha r = (case r of Inl e \<Rightarrow> Inl e | Inr (RSha t) \<Rightarrow> Inr t | Inr _ \<Rightarrow> Inl bad_reply)"

definition reply_msgs :: "(go_error + reply) \<Rightarrow> go_error + stream_msg list" where
  "reply_msgs r = (case r of Inl e \<Rightarrow> Inl e | Inr (RMsgs t) \<Rightarrow> Inr t | Inr _ \<Rightarrow> Inl bad_reply)"

definition reply_streams :: "(go_error + reply) \<Rightarrow> go_error + (string \<times> stream_msg list) list" where
  "reply_streams r = (case r of Inl e \<Rightarrow> Inl e | Inr (RStreams t) \<Rightarrow> Inr t | Inr _ \<Rightarrow> Inl bad_reply)"

definition reply_err :: "(go_error + reply) \<Rightarrow> go_error option" where
  "reply_err r = (case r of Inl e \<Rightarrow> Some e | Inr _ \<Rightarrow> None)"

lemma bad_reply_not_nil [simp]: "\<not> errors_is bad_reply s"
  by (simp add: bad_reply_def)

lemma reply_int_Inr [simp]: "reply_int r = Inr n \<longleftrightarrow> r = Inr (RNum n)"
  by (auto simp: reply_int_def split: sum.splits reply.splits)

lemma reply_text_Inr [simp]: "reply_text r = Inr n \<longleftrightarrow> r = Inr (RText n)"
  by (auto simp: reply_text_def split: sum.splits reply.splits)

lemma reply_texts_Inr [simp]: "reply_texts r = Inr n \<longleftrightarrow> r = Inr (RTexts n)"
  by (auto simp: reply_texts_def split: sum.splits reply.splits)

lemma reply_sha_Inr [simp]: "reply_sha r = Inr n \<longleftrightarrow> r = Inr (RSha n)"
  by (auto simp: reply_sha_def split: sum.splits reply.splits)

lemma reply_msgs_Inr [simp]: "reply_msgs r = Inr n \<longleftrightarrow> r = Inr (RMsgs n)"
  by (auto simp: reply_msgs_def split: sum.splits reply.splits)

lemma reply_streams_Inr [simp]: "reply_streams r = Inr n \<longleftrightarrow> r = Inr (RStreams n)"
  by (auto simp: reply_streams_def split: sum.splits reply.splits)

lemma reply_simps [simp]:
  "reply_int (Inl x) = Inl x" "reply_int (Inr (RNum n)) = Inr n"
  "reply_text (Inl x) = Inl x" "reply_text (Inr (RText v)) = Inr v"
  "reply_texts (Inl x) = Inl x" "reply_texts (Inr (RTexts vs)) = Inr vs"
  "reply_msgs (Inl x) = Inl x" "reply_msgs (Inr (RMsgs ms)) = Inr ms"
  "reply_streams (Inl x) = Inl x" "reply_streams (Inr (RStreams ss)) = Inr ss"
  by (simp_all add: reply_int_def reply_text_def reply_texts_def reply_msgs_def reply_streams_def)

lemma reply_err_simps [simp]: "reply_err (Inl x) = Some x" "reply_err (Inr y) = None"
  by (simp_all add: reply_err_def)

lemma reply_err_None [simp]: "reply_err r = None \<longleftrightarrow> (\<exists>x. r = Inr x)"
  by (auto simp: reply_err_def split: sum.splits)

lemma reply_err_Some [simp]: "reply_err r = Some x \<longleftrightarrow> r = Inl x"
  by (auto simp: reply_err_def split: sum.splits)

subsection \<open>Script registry\<close>

record ScriptRegistry =
  IdempotencySHA :: string
  ReclaimStaleSHA :: string

definition LoadScripts :: "'s env \<Rightarrow> 's \<Rightarrow> (go_error + ScriptRegistry) \<times> 's" where
  "LoadScripts e s =
     (let (r1, s1) = env_client e (SCRIPT_LOAD IdempotencyLua) s in
      case reply_sha r1 of
        Inl err \<Rightarrow> (Inl (EWrap ''redis: load idempotency script'' err), s1)
      | Inr sha1 \<Rightarrow>
          let (r2, s2) = env_client e (SCRIPT_LOAD ReclaimStaleLua) s1 in
          case reply_sha r2 of
            Inl err \<Rightarrow> (Inl (EWrap ''redis: load reclaim-stale script'' err), s2)
          | Inr sha2 \<Rightarrow> (Inr \<lparr>IdempotencySHA = sha1, ReclaimStaleSHA = sha2\<rparr>, s2))"

subsection \<open>The stored record\<close>

record idempotencyRecord =
  RecStatus :: string
  RecWorkerID :: string
  RecStartedAt :: string
  RecCompletedAt :: string

definition idem_json :: "idempotencyRecord \<Rightarrow> json" where
  "idem_json r =
     JObj ([(''status'', JStr (coerce_utf8 (RecStatus r)))] @ omit_string ''worker_id'' (RecWorkerID r) @
           omit_string ''started_at'' (RecStartedAt r) @ omit_string ''completed_at'' (RecCompletedAt r))"

definition dec_idem_field :: "string \<Rightarrow> json \<Rightarrow> idempotencyRecord \<Rightarrow> idempotencyRecord option" where
  "dec_idem_field key j r =
     (let k = fold_name key in
      if k = ''status'' then map_option (\<lambda>v. r\<lparr>RecStatus := v\<rparr>) (dec_string j (RecStatus r))
      else if k = ''worker_id'' then map_option (\<lambda>v. r\<lparr>RecWorkerID := v\<rparr>) (dec_string j (RecWorkerID r))
      else if k = ''started_at'' then map_option (\<lambda>v. r\<lparr>RecStartedAt := v\<rparr>) (dec_string j (RecStartedAt r))
      else if k = ''completed_at'' then
        map_option (\<lambda>v. r\<lparr>RecCompletedAt := v\<rparr>) (dec_string j (RecCompletedAt r))
      else Some r)"

definition zero_idem :: idempotencyRecord where
  "zero_idem = \<lparr>RecStatus = [], RecWorkerID = [], RecStartedAt = [], RecCompletedAt = []\<rparr>"

fun json_Unmarshal_idem :: "jtext \<Rightarrow> go_error + idempotencyRecord" where
  "json_Unmarshal_idem (Doc JNull) = Inr zero_idem"
| "json_Unmarshal_idem (Doc (JObj kvs)) =
     (case dec_struct dec_idem_field kvs zero_idem of None \<Rightarrow> Inl unmarshal_error | Some r \<Rightarrow> Inr r)"
| "json_Unmarshal_idem _ = Inl unmarshal_error"

subsection \<open>Operations\<close>

definition idempotencyKeyPrefix :: string where
  "idempotencyKeyPrefix = ''idempotency:''"

definition idempotencyKey :: "string \<Rightarrow> string" where
  "idempotencyKey taskID = idempotencyKeyPrefix @ taskID"

definition unix_text :: "go_time \<Rightarrow> string" where
  "unix_text t = show_int (time_unix t)"

text \<open>\<open>int64(d.Seconds())\<close>, in binary64 as \<open>time.Duration.Seconds\<close> computes it.\<close>

definition duration_seconds :: "duration \<Rightarrow> f64" where
  "duration_seconds d =
     (let sec = rat_trunc (of_int (sint d) / 1000000000); nsec = sint d - sec * 1000000000
      in f64_add (f64_of_rat (of_int sec)) (f64_of_rat (of_int nsec / 1000000000)))"

definition SetProcessing ::
  "'s env \<Rightarrow> Config \<Rightarrow> ScriptRegistry \<Rightarrow> string \<Rightarrow> string \<Rightarrow> 's \<Rightarrow> (bool \<times> go_error option) \<times> 's" where
  "SetProcessing e cfg scr taskID workerID s =
     (let key = idempotencyKey taskID; ttl = show_int (sint (DLQTTLSeconds (CfgRetry cfg)));
          (now, s1) = time_now e s; startedAt = unix_text now;
          (r, s2) = env_client e (EVALSHA (IdempotencySHA scr) [key] [workerID, ttl, startedAt]) s1
      in case reply_int r of
           Inl err \<Rightarrow>
             if errors_is err ErrRedisNil then ((False, None), s2)
             else ((False, Some (EWrap (''idempotency: SetProcessing '' @ taskID) err)), s2)
         | Inr n \<Rightarrow> ((n = 1, None), s2))"

definition SetCompleted ::
  "'s env \<Rightarrow> Config \<Rightarrow> string \<Rightarrow> 's \<Rightarrow> go_error option \<times> 's" where
  "SetCompleted e cfg taskID s =
     (let key = idempotencyKey taskID; ttl = DLQTTLSeconds (CfgRetry cfg) * go_second;
          (now, s1) = time_now e s;
          rec = \<lparr>RecStatus = ''completed'', RecWorkerID = [], RecStartedAt = [],
                 RecCompletedAt = rfc3339 (time_unix now * 1000000000)\<rparr>;
          (r, s2) = env_client e (SET_XX key (Doc (idem_json rec)) ttl) s1
      in case reply_err r of
           None \<Rightarrow> (None, s2)
         | Some err \<Rightarrow>
             if errors_is err ErrRedisNil then (None, s2)
             else (Some (EWrap (''idempotency: SetCompleted '' @ taskID) err), s2))"

definition IsCompleted :: "'s env \<Rightarrow> string \<Rightarrow> 's \<Rightarrow> (bool \<times> go_error option) \<times> 's" where
  "IsCompleted e taskID s =
     (let (r, s1) = env_client e (GET (idempotencyKey taskID)) s in
      case reply_text r of
        Inl err \<Rightarrow>
          if errors_is err ErrRedisNil then ((False, None), s1)
          else ((False, Some (EWrap (''idempotency: IsCompleted '' @ taskID) err)), s1)
      | Inr raw \<Rightarrow>
          (case json_Unmarshal_idem raw of
             Inl err \<Rightarrow> ((False, Some (EWrap (''idempotency: IsCompleted '' @ taskID @ '': unmarshal'') err)), s1)
           | Inr rec \<Rightarrow> ((RecStatus rec = ''completed'', None), s1)))"

definition ClearProcessing :: "'s env \<Rightarrow> string \<Rightarrow> 's \<Rightarrow> go_error option \<times> 's" where
  "ClearProcessing e taskID s =
     (let (r, s1) = env_client e (DEL (idempotencyKey taskID)) s in
      case reply_err r of
        None \<Rightarrow> (None, s1)
      | Some err \<Rightarrow> (Some (EWrap (''idempotency: ClearProcessing '' @ taskID) err), s1))"

definition TryReclaimStale ::
  "'s env \<Rightarrow> Config \<Rightarrow> ScriptRegistry \<Rightarrow> string \<Rightarrow> string \<Rightarrow> duration \<Rightarrow> 's \<Rightarrow>
   (bool \<times> go_error option) \<times> 's" where
  "TryReclaimStale e cfg scr taskID workerID maxAge s =
     (let key = idempotencyKey taskID; (now, s1) = time_now e s;
          ttl = show_int (sint (DLQTTLSeconds (CfgRetry cfg)));
          newStartedAt = unix_text now;
          maxAgeSeconds = show_int (sint (f64_to_i64 (duration_seconds maxAge)));
          nowUnix = unix_text now;
          (r, s2) = env_client e (EVALSHA (ReclaimStaleSHA scr) [key]
                      [workerID, ttl, newStartedAt, maxAgeSeconds, nowUnix]) s1
      in case reply_int r of
           Inl err \<Rightarrow>
             if errors_is err ErrRedisNil then ((False, None), s2)
             else ((False, Some (EWrap (''idempotency: TryReclaimStale '' @ taskID) err)), s2)
         | Inr n \<Rightarrow> ((n = 1, None), s2))"

subsection \<open>The abstract lock\<close>

text \<open>
  What a key stands for: free, held by a worker since a second of the Unix clock, completed, or
  something the scripts do not write.
\<close>

datatype lock = Free | Held string int | Done | Foreign

definition lock_of_text :: "jtext \<Rightarrow> lock" where
  "lock_of_text v =
     (case lua_decode v of
        None \<Rightarrow> Foreign
      | Some data \<Rightarrow>
          if lua_field data ''status'' = Some (JStr ''completed'') then Done
          else if lua_field data ''status'' = Some (JStr ''processing'') then
            (case (lua_field data ''worker_id'', lua_tonumber (lua_field data ''started_at'')) of
               (Some (JStr w), Some t) \<Rightarrow> Held w t
             | _ \<Rightarrow> Foreign)
          else Foreign)"

definition lock_of :: "kvstore \<Rightarrow> string \<Rightarrow> lock" where
  "lock_of kv key = (case kv key of None \<Rightarrow> Free | Some (v, _) \<Rightarrow> lock_of_text v)"

lemma lock_of_processing [simp]: "lock_of_text (processing_payload w (show_int t)) = Held w t"
  by (simp add: lock_of_text_def processing_payload_def lua_field_def)

lemma lock_of_completed:
  "RecStatus r = ''completed'' \<Longrightarrow> lock_of_text (Doc (idem_json r)) = Done"
  by (simp add: lock_of_text_def idem_json_def lua_field_def omit_string_def utf8_ok_ascii [unfolded utf8_ok_def])

text \<open>Acquiring on the abstract lock, and reclaiming it.\<close>

definition lock_acquire :: "string \<Rightarrow> int \<Rightarrow> lock \<Rightarrow> bool \<times> lock" where
  "lock_acquire w now l = (if l = Free then (True, Held w now) else (False, l))"

definition lock_reclaim :: "string \<Rightarrow> int \<Rightarrow> int \<Rightarrow> lock \<Rightarrow> bool \<times> lock" where
  "lock_reclaim w now age l =
     (case l of Held _ t \<Rightarrow> if age \<le> now - t then (True, Held w now) else (False, l) | _ \<Rightarrow> (False, l))"

lemma acquire_script:
  assumes "lock_of kv key \<noteq> Foreign" and "0 < ttl"
  shows "\<exists>kv'. idempotencyLuaScript kv key w (show_int ttl) (show_int now) =
      Some (if lock_of kv key = Free then 1 else 0, kv') \<and>
    lock_of kv' key = snd (lock_acquire w now (lock_of kv key)) \<and>
    (lock_of kv key \<noteq> Free \<longrightarrow> kv' = kv) \<and> (\<forall>k. k \<noteq> key \<longrightarrow> kv' k = kv k)"
  using assms
  by (auto simp: idempotencyLuaScript_def lock_of_def lock_of_text_def lock_acquire_def lua_set_ex_def
      processing_payload_def lua_field_def Let_def split: option.splits if_splits prod.splits json.splits)

lemma reclaim_script:
  assumes "lock_of kv key \<noteq> Foreign" and "0 < ttl"
  shows "\<exists>kv'. reclaimStaleLuaScript kv key w (show_int ttl) (show_int now) (show_int age) (show_int now) =
      Some (if fst (lock_reclaim w now age (lock_of kv key)) then 1 else 0, kv') \<and>
    lock_of kv' key = snd (lock_reclaim w now age (lock_of kv key)) \<and>
    (\<not> fst (lock_reclaim w now age (lock_of kv key)) \<longrightarrow> kv' = kv) \<and>
    (\<forall>k. k \<noteq> key \<longrightarrow> kv' k = kv k)"
  using assms
  by (auto simp: reclaimStaleLuaScript_def lock_of_def lock_of_text_def lock_reclaim_def lua_set_ex_def
      processing_payload_def lua_field_def Let_def split: option.splits if_splits prod.splits json.splits)

subsection \<open>The operations implement the lock\<close>

definition acquire_cmd :: "ScriptRegistry \<Rightarrow> Config \<Rightarrow> string \<Rightarrow> string \<Rightarrow> go_time \<Rightarrow> rcmd" where
  "acquire_cmd scr cfg taskID w now =
     EVALSHA (IdempotencySHA scr) [idempotencyKey taskID]
       [w, show_int (sint (DLQTTLSeconds (CfgRetry cfg))), unix_text now]"

definition max_age_secs :: "duration \<Rightarrow> int" where
  "max_age_secs maxAge = sint (f64_to_i64 (duration_seconds maxAge))"

definition reclaim_cmd :: "ScriptRegistry \<Rightarrow> Config \<Rightarrow> string \<Rightarrow> string \<Rightarrow> duration \<Rightarrow> go_time \<Rightarrow> rcmd" where
  "reclaim_cmd scr cfg taskID w maxAge now =
     EVALSHA (ReclaimStaleSHA scr) [idempotencyKey taskID]
       [w, show_int (sint (DLQTTLSeconds (CfgRetry cfg))), unix_text now,
        show_int (max_age_secs maxAge), unix_text now]"

definition scripts_loaded :: "ScriptRegistry \<Rightarrow> keyspace \<Rightarrow> bool" where
  "scripts_loaded scr k \<longleftrightarrow>
     scripts k (IdempotencySHA scr) = Some IdempotencyLua \<and>
     scripts k (ReclaimStaleSHA scr) = Some ReclaimStaleLua"

text \<open>Two key spaces that differ at most in the string value of one key.\<close>

definition same_but_str :: "string \<Rightarrow> keyspace \<Rightarrow> keyspace \<Rightarrow> bool" where
  "same_but_str key k k' \<longleftrightarrow> (\<exists>v. k' = k\<lparr>strs := (strs k)(key := v)\<rparr>)"

lemma same_but_str_refl [simp]: "same_but_str key k k"
  unfolding same_but_str_def by (rule exI [of _ "strs k key"]) simp

lemma same_but_str_upd: "same_but_str key k (k\<lparr>strs := (strs k)(key := v)\<rparr>)"
  by (auto simp: same_but_str_def)

lemma same_but_str_trans: "same_but_str key k k' \<Longrightarrow> same_but_str key k' k'' \<Longrightarrow> same_but_str key k k''"
  by (auto simp: same_but_str_def)

lemma same_but_strI:
  assumes "\<forall>x. x \<noteq> key \<longrightarrow> kv x = strs k x"
  shows "same_but_str key k (k\<lparr>strs := kv\<rparr>)"
proof -
  have "kv = (strs k)(key := kv key)" using assms by auto
  then show ?thesis unfolding same_but_str_def by (metis (no_types))
qed

lemma same_but_str_scripts: "same_but_str key k k' \<Longrightarrow> scripts k' = scripts k"
  by (auto simp: same_but_str_def)

lemma acquire_ok:
  assumes "redis_ok (acquire_cmd scr cfg taskID w now) k (RNum n) k'" and "scripts_loaded scr k"
    and "lock_of (strs k) (idempotencyKey taskID) \<noteq> Foreign" and "0 < sint (DLQTTLSeconds (CfgRetry cfg))"
  shows "same_but_str (idempotencyKey taskID) k k' \<and>
    (n = 1, lock_of (strs k') (idempotencyKey taskID)) =
      lock_acquire w (time_unix now) (lock_of (strs k) (idempotencyKey taskID))"
  using assms(1,2) acquire_script [OF assms(3,4), of w "time_unix now"]
  by (auto simp: acquire_cmd_def scripts_loaded_def unix_text_def lock_acquire_def intro: same_but_strI)

lemma reclaim_ok:
  assumes "redis_ok (reclaim_cmd scr cfg taskID w maxAge now) k (RNum n) k'" and "scripts_loaded scr k"
    and "lock_of (strs k) (idempotencyKey taskID) \<noteq> Foreign" and "0 < sint (DLQTTLSeconds (CfgRetry cfg))"
  shows "same_but_str (idempotencyKey taskID) k k' \<and>
    (n = 1, lock_of (strs k') (idempotencyKey taskID)) =
      lock_reclaim w (time_unix now) (max_age_secs maxAge) (lock_of (strs k) (idempotencyKey taskID))"
  using assms(1,2) reclaim_script [OF assms(3,4), of w "time_unix now" "max_age_secs maxAge"]
  by (auto simp: reclaim_cmd_def scripts_loaded_def unix_text_def prod_eq_iff intro: same_but_strI split: if_splits)

text \<open>Running the script any number of times does what running it once does, or nothing.\<close>

lemma acquire_effs:
  assumes "redis_effs (acquire_cmd scr cfg taskID w now) k k'" and "scripts_loaded scr k"
    and "lock_of (strs k) (idempotencyKey taskID) \<noteq> Foreign" and "0 < sint (DLQTTLSeconds (CfgRetry cfg))"
  shows "same_but_str (idempotencyKey taskID) k k' \<and>
    lock_of (strs k') (idempotencyKey taskID) \<in>
      {lock_of (strs k) (idempotencyKey taskID),
       snd (lock_acquire w (time_unix now) (lock_of (strs k) (idempotencyKey taskID)))}"
    (is "?P k'")
  using assms(1)
proof (rule redis_effs_induct)
  show "?P k" by simp
next
  fix k1 k2 r
  assume P: "?P k1" and ok: "redis_ok (acquire_cmd scr cfg taskID w now) k1 r k2"
  then obtain n where n: "r = RNum n" by (auto simp: acquire_cmd_def)
  have "scripts_loaded scr k1" using P assms(2) same_but_str_scripts by (auto simp: scripts_loaded_def)
  moreover have "lock_of (strs k1) (idempotencyKey taskID) \<noteq> Foreign"
    using P assms(3) by (auto simp: lock_acquire_def split: if_splits)
  ultimately show "?P k2"
    using acquire_ok [OF ok [unfolded n]] assms(4) P
    by (auto simp: lock_acquire_def split: if_splits intro: same_but_str_trans)
qed

lemma reclaim_effs:
  assumes "redis_effs (reclaim_cmd scr cfg taskID w maxAge now) k k'" and "scripts_loaded scr k"
    and "lock_of (strs k) (idempotencyKey taskID) \<noteq> Foreign" and "0 < sint (DLQTTLSeconds (CfgRetry cfg))"
  shows "same_but_str (idempotencyKey taskID) k k' \<and>
    lock_of (strs k') (idempotencyKey taskID) \<in>
      {lock_of (strs k) (idempotencyKey taskID),
       snd (lock_reclaim w (time_unix now) (max_age_secs maxAge) (lock_of (strs k) (idempotencyKey taskID)))}"
    (is "?P k'")
  using assms(1)
proof (rule redis_effs_induct)
  show "?P k" by simp
next
  fix k1 k2 r
  assume P: "?P k1" and ok: "redis_ok (reclaim_cmd scr cfg taskID w maxAge now) k1 r k2"
  then obtain n where n: "r = RNum n" by (auto simp: reclaim_cmd_def)
  have "scripts_loaded scr k1" using P assms(2) same_but_str_scripts by (auto simp: scripts_loaded_def)
  moreover have "lock_of (strs k1) (idempotencyKey taskID) \<noteq> Foreign"
    using P assms(3) by (auto simp: lock_reclaim_def split: lock.splits if_splits)
  ultimately show "?P k2"
    using reclaim_ok [OF ok [unfolded n]] assms(4) P
    by (auto simp: lock_reclaim_def split: lock.splits if_splits intro: same_but_str_trans)
qed

definition completed_record :: "go_time \<Rightarrow> idempotencyRecord" where
  "completed_record now =
     \<lparr>RecStatus = ''completed'', RecWorkerID = [], RecStartedAt = [],
      RecCompletedAt = rfc3339 (time_unix now * 1000000000)\<rparr>"

lemma completed_record_decodes:
  "\<exists>rec. json_Unmarshal_idem (Doc (idem_json (completed_record now))) = Inr rec \<and> RecStatus rec = ''completed''"
  by (simp add: idem_json_def completed_record_def omit_string_def zero_idem_def dec_idem_field_def Let_def
      lower_char_def byte_in_def utf8_ok_ascii [unfolded utf8_ok_def])

lemma set_xx_effs:
  "redis_effs (SET_XX key v d) k k' \<Longrightarrow>
   k' = k \<or> strs k key \<noteq> None \<and>
     k' = k\<lparr>strs := (strs k)(key \<mapsto> (v, if 0 < sint d then Some (ttl_secs d) else None))\<rparr>"
  by (erule redis_effs_induct [where P = "\<lambda>k'. k' = k \<or> strs k key \<noteq> None \<and>
        k' = k\<lparr>strs := (strs k)(key \<mapsto> (v, if 0 < sint d then Some (ttl_secs d) else None))\<rparr>"]) auto

context redis_env begin

lemma SetProcessing_spec:
  assumes "scripts_loaded scr (ks s)" and "lock_of (strs (ks s)) (idempotencyKey taskID) \<noteq> Foreign"
    and "0 < sint (DLQTTLSeconds (CfgRetry cfg))"
    and "SetProcessing e cfg scr taskID w s = ((a, err), s')"
  shows "\<exists>now. now = time_unix (fst (time_now e s)) \<and> same_but_str (idempotencyKey taskID) (ks s) (ks s') \<and>
    lock_of (strs (ks s')) (idempotencyKey taskID) \<in>
      {lock_of (strs (ks s)) (idempotencyKey taskID),
       snd (lock_acquire w now (lock_of (strs (ks s)) (idempotencyKey taskID)))} \<and>
    (a \<longrightarrow> err = None \<and> lock_of (strs (ks s)) (idempotencyKey taskID) = Free \<and>
       lock_of (strs (ks s')) (idempotencyKey taskID) = Held w now) \<and>
    (\<not> a \<and> err = None \<longrightarrow> lock_of (strs (ks s')) (idempotencyKey taskID) \<noteq> Free)"
proof -
  obtain now s1 where t: "time_now e s = (now, s1)" by fastforce
  then have k1: "ks s1 = ks s" by (rule now_ks)
  let ?c = "acquire_cmd scr cfg taskID w now"
  obtain r s2 where r: "env_client e ?c s1 = (r, s2)" by fastforce
  have res: "((a, err), s') =
      (case reply_int r of
         Inl err \<Rightarrow> if errors_is err ErrRedisNil then ((False, None), s2)
           else ((False, Some (EWrap (''idempotency: SetProcessing '' @ taskID) err)), s2)
       | Inr n \<Rightarrow> ((n = 1, None), s2))"
    using assms(4) t r by (simp add: SetProcessing_def Let_def acquire_cmd_def)
  then have s': "s' = s2" by (auto split: sum.splits if_splits)
  have effs: "redis_effs ?c (ks s) (ks s2)" using client_effs [OF r] k1 by simp
  note A = acquire_effs [OF this assms(1,2,3)]
  show ?thesis
  proof (cases "\<exists>n. r = Inr (RNum n)")
    case True
    then obtain n where n: "r = Inr (RNum n)" by blast
    then have ae: "a \<longleftrightarrow> n = 1" "err = None" using res by (auto simp: reply_int_def)
    obtain k where k: "redis_effs ?c (ks s) k" "redis_ok ?c k (RNum n) (ks s2)"
      using client_ok [of ?c s1 "RNum n" s2] r n k1 by auto
    note B = acquire_effs [OF k(1) assms(1,2,3)]
    have "scripts_loaded scr k" using B assms(1) same_but_str_scripts by (auto simp: scripts_loaded_def)
    moreover have "lock_of (strs k) (idempotencyKey taskID) \<noteq> Foreign"
      using B assms(2) by (auto simp: lock_acquire_def split: if_splits)
    ultimately have "(n = 1, lock_of (strs (ks s2)) (idempotencyKey taskID)) =
        lock_acquire w (time_unix now) (lock_of (strs k) (idempotencyKey taskID))"
      using acquire_ok [OF k(2)] assms(3) by blast
    with A B ae show ?thesis
      by (intro exI [of _ "time_unix now"]) (auto simp: s' t lock_acquire_def split: if_splits)
  next
    case False
    obtain er where "reply_int r = Inl er"
      using False by (cases "reply_int r") auto
    moreover have "\<not> errors_is er ErrRedisNil"
    proof
      assume nil: "errors_is er ErrRedisNil"
      then obtain e' where "r = Inl e'" "e' = er"
        using \<open>reply_int r = Inl er\<close> by (auto simp: reply_int_def split: sum.splits reply.splits)
      then show False using client_nil [of ?c s1 er s2] r nil by (simp add: acquire_cmd_def)
    qed
    ultimately have "\<not> a \<and> err \<noteq> None" using res by (auto split: if_splits)
    with A show ?thesis by (intro exI [of _ "time_unix now"]) (auto simp: s' t)
  qed
qed

lemma TryReclaimStale_spec:
  assumes "scripts_loaded scr (ks s)" and "lock_of (strs (ks s)) (idempotencyKey taskID) \<noteq> Foreign"
    and "0 < sint (DLQTTLSeconds (CfgRetry cfg))"
    and "TryReclaimStale e cfg scr taskID w maxAge s = ((a, err), s')"
  shows "\<exists>now. now = time_unix (fst (time_now e s)) \<and> same_but_str (idempotencyKey taskID) (ks s) (ks s') \<and>
    lock_of (strs (ks s')) (idempotencyKey taskID) \<in>
      {lock_of (strs (ks s)) (idempotencyKey taskID),
       snd (lock_reclaim w now (max_age_secs maxAge) (lock_of (strs (ks s)) (idempotencyKey taskID)))} \<and>
    (a \<longrightarrow> err = None \<and>
       (\<exists>w0 t0. lock_of (strs (ks s)) (idempotencyKey taskID) = Held w0 t0 \<and> max_age_secs maxAge \<le> now - t0) \<and>
       lock_of (strs (ks s')) (idempotencyKey taskID) = Held w now)"
proof -
  obtain now s1 where t: "time_now e s = (now, s1)" by fastforce
  then have k1: "ks s1 = ks s" by (rule now_ks)
  let ?c = "reclaim_cmd scr cfg taskID w maxAge now"
  obtain r s2 where r: "env_client e ?c s1 = (r, s2)" by fastforce
  have res: "((a, err), s') =
      (case reply_int r of
         Inl err \<Rightarrow> if errors_is err ErrRedisNil then ((False, None), s2)
           else ((False, Some (EWrap (''idempotency: TryReclaimStale '' @ taskID) err)), s2)
       | Inr n \<Rightarrow> ((n = 1, None), s2))"
    using assms(4) t r by (simp add: TryReclaimStale_def Let_def reclaim_cmd_def max_age_secs_def)
  then have s': "s' = s2" by (auto split: sum.splits if_splits)
  have effs: "redis_effs ?c (ks s) (ks s2)" using client_effs [OF r] k1 by simp
  note A = reclaim_effs [OF this assms(1,2,3)]
  show ?thesis
  proof (cases a)
    case True
    then have n: "r = Inr (RNum 1)" "err = None" using res by (auto split: sum.splits if_splits)
    obtain k where k: "redis_effs ?c (ks s) k" "redis_ok ?c k (RNum 1) (ks s2)"
      using client_ok [of ?c s1 "RNum 1" s2] r n k1 by auto
    note B = reclaim_effs [OF k(1) assms(1,2,3)]
    have "scripts_loaded scr k" using B assms(1) same_but_str_scripts by (auto simp: scripts_loaded_def)
    moreover have "lock_of (strs k) (idempotencyKey taskID) \<noteq> Foreign"
      using B assms(2) by (auto simp: lock_reclaim_def split: lock.splits if_splits)
    ultimately have C: "(True, lock_of (strs (ks s2)) (idempotencyKey taskID)) =
        lock_reclaim w (time_unix now) (max_age_secs maxAge) (lock_of (strs k) (idempotencyKey taskID))"
      using reclaim_ok [OF k(2)] assms(3) by simp
    have "same_but_str (idempotencyKey taskID) (ks s) (ks s2)" using A by simp
    moreover have "\<exists>w0 t0. lock_of (strs (ks s)) (idempotencyKey taskID) = Held w0 t0 \<and>
        max_age_secs maxAge \<le> time_unix now - t0"
      using B C by (auto simp: lock_reclaim_def split: lock.splits if_splits)
    moreover have "lock_of (strs (ks s2)) (idempotencyKey taskID) = Held w (time_unix now)"
      using C by (auto simp: lock_reclaim_def split: lock.splits if_splits)
    ultimately show ?thesis using n
      by (intro exI [of _ "time_unix now"]) (auto simp: s' t lock_reclaim_def)
  next
    case False
    with A show ?thesis by (intro exI [of _ "time_unix now"]) (simp add: s' t)
  qed
qed

lemma SetCompleted_spec:
  assumes "SetCompleted e cfg taskID s = (err, s')"
  shows "same_but_str (idempotencyKey taskID) (ks s) (ks s') \<and>
    (\<exists>now t. strs (ks s') (idempotencyKey taskID) \<in>
       {strs (ks s) (idempotencyKey taskID), Some (Doc (idem_json (completed_record now)), t)} \<and>
     (err = None \<longrightarrow> strs (ks s') (idempotencyKey taskID) =
       (if strs (ks s) (idempotencyKey taskID) = None then None
        else Some (Doc (idem_json (completed_record now)), t))))"
proof -
  obtain now s1 where t: "time_now e s = (now, s1)" by fastforce
  then have k1: "ks s1 = ks s" by (rule now_ks)
  let ?v = "Doc (idem_json (completed_record now))" and ?d = "DLQTTLSeconds (CfgRetry cfg) * go_second"
  let ?c = "SET_XX (idempotencyKey taskID) ?v ?d"
  obtain r s2 where r: "env_client e ?c s1 = (r, s2)" by fastforce
  have res: "(err, s') = (case reply_err r of None \<Rightarrow> (None, s2)
      | Some er \<Rightarrow> if errors_is er ErrRedisNil then (None, s2)
          else (Some (EWrap (''idempotency: SetCompleted '' @ taskID) er), s2))"
    using assms t r by (simp add: SetCompleted_def Let_def completed_record_def)
  then have s': "s' = s2" by (auto split: option.splits if_splits)
  define t where "t = (if 0 < sint ?d then Some (ttl_secs ?d) else None)"
  have E: "ks s2 = ks s \<or> strs (ks s) (idempotencyKey taskID) \<noteq> None \<and>
      ks s2 = (ks s)\<lparr>strs := (strs (ks s))(idempotencyKey taskID \<mapsto> (?v, t))\<rparr>"
    using set_xx_effs [OF client_effs [OF r]] k1 by (simp add: t_def)
  then have same: "same_but_str (idempotencyKey taskID) (ks s) (ks s2)"
    by (auto intro: same_but_str_upd)
  have None: "strs (ks s2) (idempotencyKey taskID) =
       (if strs (ks s) (idempotencyKey taskID) = None then None else Some (?v, t))" if "err = None"
  proof (cases r)
    case (Inl er)
    then have "errors_is er ErrRedisNil" using res that by (auto split: if_splits)
    then have "strs (ks s2) (idempotencyKey taskID) = None"
      using client_nil [of ?c s1 er s2] r Inl by simp
    then show ?thesis using E by auto
  next
    case (Inr x)
    then obtain k where k: "redis_effs ?c (ks s) k" "redis_ok ?c k x (ks s2)"
      using client_ok [of ?c s1 x s2] r k1 by auto
    then show ?thesis using set_xx_effs [OF k(1)] by (auto simp: t_def)
  qed
  show ?thesis
    using E same None by (intro conjI exI [of _ now] exI [of _ t]) (auto simp: s')
qed

lemma IsCompleted_spec:
  assumes "IsCompleted e taskID s = ((b, err), s')"
  shows "ks s' = ks s \<and> (b \<longrightarrow> err = None) \<and>
    (err = None \<longrightarrow> (case strs (ks s) (idempotencyKey taskID) of
        None \<Rightarrow> \<not> b
      | Some (v, _) \<Rightarrow> \<exists>rec. json_Unmarshal_idem v = Inr rec \<and> (b \<longleftrightarrow> RecStatus rec = ''completed'')))"
proof -
  let ?c = "GET (idempotencyKey taskID)"
  obtain r s1 where r: "env_client e ?c s = (r, s1)" by fastforce
  have k: "ks s1 = ks s" by (rule client_read_only [OF _ r]) simp
  have nil: "r = Inl er \<Longrightarrow> errors_is er ErrRedisNil \<Longrightarrow> strs (ks s) (idempotencyKey taskID) = None" for er
    using client_nil [of ?c s er s1] r k by simp
  have ok: "r = Inr (RText v) \<Longrightarrow> \<exists>t. strs (ks s) (idempotencyKey taskID) = Some (v, t)" for v
    using client_read [of ?c s "RText v" s1] r by simp
  show ?thesis
  proof (cases r)
    case (Inl er)
    then show ?thesis using assms r k nil
      by (auto simp: IsCompleted_def reply_text_def split: if_splits option.splits)
  next
    case (Inr x)
    then show ?thesis using assms r k ok
      by (cases x) (force simp: IsCompleted_def reply_text_def split: sum.splits if_splits option.splits)+
  qed
qed

lemma ClearProcessing_spec:
  assumes "ClearProcessing e taskID s = (err, s')"
  shows "same_but_str (idempotencyKey taskID) (ks s) (ks s') \<and>
    strs (ks s') (idempotencyKey taskID) \<in> {strs (ks s) (idempotencyKey taskID), None} \<and>
    (err = None \<longrightarrow> strs (ks s') (idempotencyKey taskID) = None)"
proof -
  let ?c = "DEL (idempotencyKey taskID)"
  obtain r s1 where r: "env_client e ?c s = (r, s1)" by fastforce
  then have s1: "s' = s1" using assms by (auto simp: ClearProcessing_def Let_def split: option.splits)
  have "same_but_str (idempotencyKey taskID) (ks s) (ks s1)"
    and "strs (ks s1) (idempotencyKey taskID) \<in> {strs (ks s) (idempotencyKey taskID), None}"
    using del_effs [OF client_effs [OF r]] by (auto intro: same_but_str_upd)
  moreover have "strs (ks s1) (idempotencyKey taskID) = None" if "err = None"
  proof -
    from that assms r obtain x where "r = Inr x"
      by (auto simp: ClearProcessing_def Let_def split: option.splits)
    with client_ok [of ?c s x s1] r show ?thesis by auto
  qed
  ultimately show ?thesis by (simp add: s1)
qed

end

subsection \<open>Properties\<close>

text \<open>C23: The processing lock, whatever requests or replies get lost or are sent twice: \<open>SetProcessing\<close> reports
  \<open>acquired\<close> only if the attempt was free, and then the worker holds it; if it reports
  \<open>acquired = false\<close> without an error somebody holds or has completed the attempt; a held or
  completed attempt is left alone; and no other key changes.\<close>

theorem SetProcessing_lock:
  assumes "redis_env e ks" and "scripts_loaded scr (ks s)"
    and "lock_of (strs (ks s)) (idempotencyKey taskID) \<noteq> Foreign"
    and "0 < sint (DLQTTLSeconds (CfgRetry cfg))"
    and "SetProcessing e cfg scr taskID w s = ((acquired, err), s')"
  shows "(acquired \<longrightarrow> err = None \<and> lock_of (strs (ks s)) (idempotencyKey taskID) = Free \<and>
      lock_of (strs (ks s')) (idempotencyKey taskID) = Held w (time_unix (fst (time_now e s)))) \<and>
    (\<not> acquired \<and> err = None \<longrightarrow> lock_of (strs (ks s')) (idempotencyKey taskID) \<noteq> Free) \<and>
    (lock_of (strs (ks s)) (idempotencyKey taskID) \<noteq> Free \<longrightarrow>
       lock_of (strs (ks s')) (idempotencyKey taskID) = lock_of (strs (ks s)) (idempotencyKey taskID)) \<and>
    same_but_str (idempotencyKey taskID) (ks s) (ks s')"
  using redis_env.SetProcessing_spec [OF assms] by (auto simp: lock_acquire_def split: if_splits)

text \<open>C24: A stale lock is handed over only when it is old enough: \<open>TryReclaimStale\<close> reports success only if
  some worker has held the attempt for at least the idle threshold by the caller's clock, and then the caller holds it;
  a completed or free attempt is never reclaimed. (The comment of \<open>TryReclaimStale\<close> says so too; the script in ADR-006 answers 1
  for an absent key, the script of scripts.go answers 0.)\<close>

theorem TryReclaimStale_lock:
  assumes "redis_env e ks" and "scripts_loaded scr (ks s)"
    and "lock_of (strs (ks s)) (idempotencyKey taskID) \<noteq> Foreign"
    and "0 < sint (DLQTTLSeconds (CfgRetry cfg))"
    and "TryReclaimStale e cfg scr taskID w maxAge s = ((reclaimed, err), s')"
  shows "(reclaimed \<longrightarrow>
       (\<exists>w0 t0. lock_of (strs (ks s)) (idempotencyKey taskID) = Held w0 t0 \<and>
          max_age_secs maxAge \<le> time_unix (fst (time_now e s)) - t0 \<and>
          lock_of (strs (ks s')) (idempotencyKey taskID) = Held w (time_unix (fst (time_now e s))))) \<and>
    (lock_of (strs (ks s)) (idempotencyKey taskID) \<in> {Free, Done} \<longrightarrow>
       \<not> reclaimed \<and>
       lock_of (strs (ks s')) (idempotencyKey taskID) = lock_of (strs (ks s)) (idempotencyKey taskID)) \<and>
    same_but_str (idempotencyKey taskID) (ks s) (ks s')"
proof -
  obtain now where "now = time_unix (fst (time_now e s))" and "same_but_str (idempotencyKey taskID) (ks s) (ks s')"
    and "lock_of (strs (ks s')) (idempotencyKey taskID) \<in>
      {lock_of (strs (ks s)) (idempotencyKey taskID),
       snd (lock_reclaim w now (max_age_secs maxAge) (lock_of (strs (ks s)) (idempotencyKey taskID)))}"
    and "reclaimed \<longrightarrow> err = None \<and>
       (\<exists>w0 t0. lock_of (strs (ks s)) (idempotencyKey taskID) = Held w0 t0 \<and> max_age_secs maxAge \<le> now - t0) \<and>
       lock_of (strs (ks s')) (idempotencyKey taskID) = Held w now"
    using redis_env.TryReclaimStale_spec [OF assms] by blast
  then show ?thesis by (auto simp: lock_reclaim_def)
qed

text \<open>Completion is remembered: after \<open>SetCompleted\<close> returned nil, \<open>IsCompleted\<close> answers yes if it
  answers without an error, except when the key had expired before (\<open>XX\<close> does not bring it back).\<close>

theorem SetCompleted_IsCompleted:
  assumes "redis_env e ks" and "SetCompleted e cfg taskID s = (None, s1)"
    and "IsCompleted e taskID s1 = ((b, None), s2)"
  shows "b \<longleftrightarrow> strs (ks s) (idempotencyKey taskID) \<noteq> None"
proof -
  obtain now t where "strs (ks s1) (idempotencyKey taskID) =
      (if strs (ks s) (idempotencyKey taskID) = None then None
       else Some (Doc (idem_json (completed_record now)), t))"
    using redis_env.SetCompleted_spec [OF assms(1,2)] by blast
  moreover have "case strs (ks s1) (idempotencyKey taskID) of None \<Rightarrow> \<not> b
      | Some (v, _) \<Rightarrow> \<exists>rec. json_Unmarshal_idem v = Inr rec \<and> (b \<longleftrightarrow> RecStatus rec = ''completed'')"
    using redis_env.IsCompleted_spec [OF assms(1,3)] by simp
  ultimately show ?thesis
    using completed_record_decodes [of now] by (auto split: if_splits)
qed

text \<open>C25: What the operations of the store do to a completed attempt, by whichever worker and under whichever faults:
  \<open>SetProcessing\<close> and \<open>TryReclaimStale\<close> never hand it out again, and they, \<open>SetCompleted\<close> and \<open>IsCompleted\<close> leave the mark where
  it is. Only \<open>ClearProcessing\<close>, which does not look at what it deletes, takes the mark away: if it returns nil the attempt is free
  again, and if it fails it is free or still completed.\<close>

theorem completed_is_final:
  assumes "redis_env e ks" and "scripts_loaded scr (ks s)"
    and "lock_of (strs (ks s)) (idempotencyKey taskID) = Done"
    and "0 < sint (DLQTTLSeconds (CfgRetry cfg))"
  shows "(\<forall>a err s'. SetProcessing e cfg scr taskID w s = ((a, err), s') \<longrightarrow>
      \<not> a \<and> lock_of (strs (ks s')) (idempotencyKey taskID) = Done) \<and>
    (\<forall>a err s'. TryReclaimStale e cfg scr taskID w maxAge s = ((a, err), s') \<longrightarrow>
      \<not> a \<and> lock_of (strs (ks s')) (idempotencyKey taskID) = Done) \<and>
    (\<forall>err s'. SetCompleted e cfg taskID s = (err, s') \<longrightarrow> lock_of (strs (ks s')) (idempotencyKey taskID) = Done) \<and>
    (\<forall>b err s'. IsCompleted e taskID s = ((b, err), s') \<longrightarrow> ks s' = ks s) \<and>
    (\<forall>err s'. ClearProcessing e taskID s = (err, s') \<longrightarrow>
      lock_of (strs (ks s')) (idempotencyKey taskID) \<in> (if err = None then {Free} else {Free, Done}))"
proof (intro conjI allI impI)
  fix a err s' assume "SetProcessing e cfg scr taskID w s = ((a, err), s')"
  from redis_env.SetProcessing_spec [OF assms(1,2) _ assms(4) this] assms(3)
  show "\<not> a" and "lock_of (strs (ks s')) (idempotencyKey taskID) = Done" by (auto simp: lock_acquire_def)
next
  fix a err s' assume "TryReclaimStale e cfg scr taskID w maxAge s = ((a, err), s')"
  from redis_env.TryReclaimStale_spec [OF assms(1,2) _ assms(4) this] assms(3)
  show "\<not> a" and "lock_of (strs (ks s')) (idempotencyKey taskID) = Done" by (auto simp: lock_reclaim_def)
next
  fix err s' assume "SetCompleted e cfg taskID s = (err, s')"
  from redis_env.SetCompleted_spec [OF assms(1) this] assms(3)
  show "lock_of (strs (ks s')) (idempotencyKey taskID) = Done"
    by (auto simp: lock_of_def lock_of_completed completed_record_def)
next
  fix b err s' assume "IsCompleted e taskID s = ((b, err), s')"
  then show "ks s' = ks s" using redis_env.IsCompleted_spec [OF assms(1)] by blast
next
  fix err s' assume "ClearProcessing e taskID s = (err, s')"
  from redis_env.ClearProcessing_spec [OF assms(1) this] assms(3)
  show "lock_of (strs (ks s')) (idempotencyKey taskID) \<in> (if err = None then {Free} else {Free, Done})"
    by (auto simp: lock_of_def)
qed

text \<open>A world with the scripts loaded, for the witnesses.\<close>

definition sample_scripts :: ScriptRegistry where
  "sample_scripts = \<lparr>IdempotencySHA = ''sha-idem'', ReclaimStaleSHA = ''sha-reclaim''\<rparr>"

definition sample_world :: "(string \<Rightarrow> (jtext \<times> int option) option) \<Rightarrow> fault list \<Rightarrow> mem_world" where
  "sample_world kv fs =
     \<lparr>mem_ks = empty_ks\<lparr>strs := kv,
        scripts := [''sha-idem'' \<mapsto> IdempotencyLua, ''sha-reclaim'' \<mapsto> ReclaimStaleLua]\<rparr>,
      mem_faults = fs, mem_clock = 1700000100000000000, mem_metrics = [], mem_ctx = None, mem_rand = Fin 0\<rparr>"

lemma sample_scripts_loaded [simp]: "scripts_loaded sample_scripts (mem_ks (sample_world kv fs))"
  by (simp add: scripts_loaded_def sample_scripts_def sample_world_def)

lemma sample_world_sels [simp]:
  "strs (mem_ks (sample_world kv fs)) = kv" "mem_faults (sample_world kv fs) = fs"
  "mem_clock (sample_world kv fs) = 1700000100000000000"
  by (simp_all add: sample_world_def)

theorem SetProcessing_lock_witness:
  "lock_of (strs (mem_ks (snd (SetProcessing (mem_env True) sample_config sample_scripts ''t#0'' ''w''
     (sample_world Map.empty [Resent]))))) ''idempotency:t#0'' \<noteq> Free"
proof -
  let ?s = "sample_world Map.empty [Resent]"
  obtain a err s' where r: "SetProcessing (mem_env True) sample_config sample_scripts ''t#0'' ''w'' ?s = ((a, err), s')"
    by (metis prod.exhaust)
  moreover from r have "err = None \<and> \<not> a"
    by (simp add: SetProcessing_def Let_def mem_eval sample_scripts_def sample_world_def
        idempotencyLuaScript_def lua_set_ex_def reply_int_def processing_payload_def lua_field_def)
  ultimately show ?thesis
    using SetProcessing_lock [OF mem_env.redis_env_axioms sample_scripts_loaded _ _ r]
    by (simp add: lock_of_def idempotencyKey_def idempotencyKeyPrefix_def)
qed

lemma max_age_secs_sample: "max_age_secs 30000000000 = 30"
proof -
  have "f64_of_rat (of_int 30) = Fin 30" "f64_of_rat 0 = Fin 0"
    using f64_of_rat_Fin(1) [of 30] rnd64_of_int [of 30] f64_of_rat_Fin(1) [of 0] rnd64_of_int [of 0] by simp_all
  then show ?thesis
    by (simp add: max_age_secs_def duration_seconds_def Let_def rat_trunc_def)
qed

abbreviation stale_kv :: kvstore where
  "stale_kv \<equiv> [''idempotency:t#0'' \<mapsto> (processing_payload ''w1'' (show_int 1700000000), Some 600)]"

theorem TryReclaimStale_lock_witness:
  "\<exists>now. lock_of (strs (mem_ks (snd (TryReclaimStale (mem_env True) sample_config sample_scripts ''t#0'' ''w2''
      30000000000 (sample_world stale_kv [NoFault]))))) ''idempotency:t#0'' = Held ''w2'' now"
proof -
  let ?s = "sample_world stale_kv [NoFault]"
  obtain a err s' where r: "TryReclaimStale (mem_env True) sample_config sample_scripts ''t#0'' ''w2''
      30000000000 ?s = ((a, err), s')"
    by (metis prod.exhaust)
  moreover from r have a
    by (simp add: TryReclaimStale_def Let_def mem_eval sample_scripts_def sample_world_def
        reclaimStaleLuaScript_def lua_set_ex_def reply_int_def processing_payload_def lua_field_def
        idempotencyKey_def idempotencyKeyPrefix_def unix_text_def time_unix_def
        max_age_secs_sample [unfolded max_age_secs_def])
  ultimately show ?thesis
    using TryReclaimStale_lock [OF mem_env.redis_env_axioms sample_scripts_loaded _ _ r]
    by (auto simp: lock_of_def idempotencyKey_def idempotencyKeyPrefix_def)
qed

theorem SetCompleted_IsCompleted_witness:
  "fst (fst (IsCompleted (mem_env True) ''t#0''
     (snd (SetCompleted (mem_env True) sample_config ''t#0'' (sample_world stale_kv [NoFault, LostRequest])))))
   \<or> snd (fst (IsCompleted (mem_env True) ''t#0''
     (snd (SetCompleted (mem_env True) sample_config ''t#0'' (sample_world stale_kv [NoFault, LostRequest])))))
     \<noteq> None"
proof -
  let ?s = "sample_world stale_kv [NoFault, LostRequest]"
  obtain c s1 where c: "SetCompleted (mem_env True) sample_config ''t#0'' ?s = (c, s1)" by fastforce
  obtain b err s2 where b: "IsCompleted (mem_env True) ''t#0'' s1 = ((b, err), s2)" by (metis prod.exhaust)
  have "c = None" using c
    by (simp add: SetCompleted_def Let_def mem_eval sample_world_def
        idempotencyKey_def idempotencyKeyPrefix_def)
  with c b SetCompleted_IsCompleted [OF mem_env.redis_env_axioms, of True sample_config "''t#0''" ?s s1 b s2]
  show ?thesis by (auto simp: idempotencyKey_def idempotencyKeyPrefix_def)
qed

theorem completed_is_final_witness:
  "lock_of (strs (mem_ks (snd (SetProcessing (mem_env True) sample_config sample_scripts ''t#0'' ''w''
     (sample_world [idempotencyKey ''t#0'' \<mapsto> (Doc (idem_json (completed_record 0)), None)] [LostReply])))))
     (idempotencyKey ''t#0'') = Done"
proof -
  let ?s = "sample_world [idempotencyKey ''t#0'' \<mapsto> (Doc (idem_json (completed_record 0)), None)] [LostReply]"
  have "lock_of (strs (mem_ks ?s)) (idempotencyKey ''t#0'') = Done"
    by (simp add: lock_of_def lock_of_completed completed_record_def)
  moreover obtain a err s' where r: "SetProcessing (mem_env True) sample_config sample_scripts ''t#0'' ''w'' ?s = ((a, err), s')"
    by (metis prod.exhaust)
  ultimately have "lock_of (strs (mem_ks s')) (idempotencyKey ''t#0'') = Done"
    using completed_is_final [OF mem_env.redis_env_axioms sample_scripts_loaded, where taskID = "''t#0''" and cfg = sample_config]
    by simp
  with r show ?thesis by simp
qed

end
