(* ===== verification/Client.thy ===== *)
theory Client
  imports Idempotency
begin

text \<open>
  internal/adapters/redis/client.go: building the Redis client, its health check and its end. The
  go-redis library and the Prometheus registry are an argument.
\<close>

text \<open>The fields of \<open>redis.Options\<close> that are set; no field asks for TLS.\<close>

record redis_options =
  Addr :: string
  OptPassword :: string
  OptDB :: i64
  OptPoolSize :: i64
  OptMinIdleConns :: i64
  OptDialTimeout :: duration
  OptReadTimeout :: duration
  OptWriteTimeout :: duration

record pool_stats =
  Hits :: "32 word"
  Misses :: "32 word"
  Timeouts :: "32 word"
  TotalConns :: "32 word"
  IdleConns :: "32 word"
  StaleConns :: "32 word"

text \<open>\<open>lib_Ping opts d\<close> pings with the deadline \<open>d\<close>; \<open>lib_Register\<close> registers the pool collector.\<close>

record 's go_redis =
  lib_Ping :: "redis_options \<Rightarrow> duration \<Rightarrow> 's \<Rightarrow> go_error option \<times> 's"
  lib_Close :: "redis_options \<Rightarrow> 's \<Rightarrow> go_error option \<times> 's"
  lib_PoolStats :: "redis_options \<Rightarrow> 's \<Rightarrow> pool_stats"
  lib_Register :: "string list \<Rightarrow> 's \<Rightarrow> go_error option \<times> 's"

subsection \<open>The address\<close>

fun strip_first :: "string list \<Rightarrow> string \<Rightarrow> string" where
  "strip_first [] url = url"
| "strip_first (p # ps) url =
     (if length p < length url \<and> take (length p) url = p then drop (length p) url else strip_first ps url)"

definition addrFromURL :: "string \<Rightarrow> string" where
  "addrFromURL url = strip_first [''redis://'', ''rediss://''] url"

subsection \<open>The pool collector\<close>

definition Describe :: "string list" where
  "Describe = [''redis_pool_total_conns'', ''redis_pool_idle_conns'', ''redis_pool_stale_conns'']"

definition f64_of_u32 :: "32 word \<Rightarrow> f64" where
  "f64_of_u32 n = f64_of_rat (of_int (uint n))"

definition Collect :: "pool_stats \<Rightarrow> (string \<times> f64) list" where
  "Collect stats =
     [(''redis_pool_total_conns'', f64_of_u32 (TotalConns stats)),
      (''redis_pool_idle_conns'', f64_of_u32 (IdleConns stats)),
      (''redis_pool_stale_conns'', f64_of_u32 (StaleConns stats))]"

definition registerPoolMetrics :: "'s go_redis \<Rightarrow> 's \<Rightarrow> 's" where
  "registerPoolMetrics g s = snd (lib_Register g Describe s)"

subsection \<open>The client\<close>

definition client_options :: "Config \<Rightarrow> redis_options" where
  "client_options cfg =
     \<lparr>Addr = addrFromURL (URL (CfgRedis cfg)), OptPassword = Password (CfgRedis cfg), OptDB = DB (CfgRedis cfg),
      OptPoolSize = RedisPoolSize (CfgRedis cfg), OptMinIdleConns = MinIdleConns (CfgRedis cfg),
      OptDialTimeout = DialTimeout (CfgRedis cfg), OptReadTimeout = RedisReadTimeout (CfgRedis cfg),
      OptWriteTimeout = RedisWriteTimeout (CfgRedis cfg)\<rparr>"

definition NewRedisClient :: "'s go_redis \<Rightarrow> Config \<Rightarrow> 's \<Rightarrow> (go_error + redis_options) \<times> 's" where
  "NewRedisClient g cfg s =
     (let opts = client_options cfg;
          (err, s1) = lib_Ping g opts (DialTimeout (CfgRedis cfg)) s
      in case err of
           Some er \<Rightarrow>
             let (_, s2) = lib_Close g opts s1
             in (Inl (EWrap (''redis: ping failed (addr='' @ Addr opts @ '')'') er), s2)
         | None \<Rightarrow> (Inr opts, registerPoolMetrics g s1))"

definition Lifecycle_HealthCheck :: "'s go_redis \<Rightarrow> redis_options \<Rightarrow> 's \<Rightarrow> go_error option \<times> 's" where
  "Lifecycle_HealthCheck g opts s =
     (let (err, s1) = lib_Ping g opts (2 * go_second) s
      in case err of Some er \<Rightarrow> (Some (EWrap ''redis: health check failed'' er), s1) | None \<Rightarrow> (None, s1))"

definition Lifecycle_Close :: "'s go_redis \<Rightarrow> redis_options \<Rightarrow> 's \<Rightarrow> go_error option \<times> 's" where
  "Lifecycle_Close g opts s =
     (let (err, s1) = lib_Close g opts s
      in case err of Some er \<Rightarrow> (Some (EWrap ''redis: close'' er), s1) | None \<Rightarrow> (None, s1))"

subsection \<open>Lemmas\<close>

lemma strip_hit: "a \<noteq> [] \<Longrightarrow> strip_first (p # ps) (p @ a) = a"
  by simp

lemma addrFromURL_redis: "a \<noteq> [] \<Longrightarrow> addrFromURL (''redis://'' @ a) = a"
  unfolding addrFromURL_def by (rule strip_hit)

lemma addrFromURL_rediss: "a \<noteq> [] \<Longrightarrow> addrFromURL (''rediss://'' @ a) = a"
  unfolding addrFromURL_def by simp

subsection \<open>Properties\<close>

text \<open>The scheme selects nothing: a \<open>rediss\<close> URL, which asks for TLS, and a \<open>redis\<close> URL of the same address give the same client, ping the same
  server in the same way and end in the same state; user information and a database number in the URL stay part of the address.\<close>

theorem rediss_is_plain:
  assumes "a \<noteq> []" and "CfgRedis cfg = r\<lparr>URL := ''rediss://'' @ a\<rparr>" and "CfgRedis cfg' = r\<lparr>URL := ''redis://'' @ a\<rparr>"
  shows "NewRedisClient g cfg s = NewRedisClient g cfg' s \<and> Addr (client_options cfg) = a"
proof -
  have "client_options cfg = client_options cfg'"
    using assms by (simp add: client_options_def addrFromURL_redis addrFromURL_rediss del: append_Cons append_Nil)
  then show ?thesis
    using assms by (simp add: NewRedisClient_def Let_def client_options_def addrFromURL_rediss del: append_Cons append_Nil)
qed

text \<open>A client is handed out only after Redis has answered: the result is an error exactly when the ping fails, its text then carries the
  address and the cause, and the client has been closed; on success the pool metrics are registered.\<close>

theorem NewRedisClient_pings:
  "case lib_Ping g (client_options cfg) (DialTimeout (CfgRedis cfg)) s of
     (Some er, s1) \<Rightarrow>
       NewRedisClient g cfg s =
         (Inl (EWrap (''redis: ping failed (addr='' @ addrFromURL (URL (CfgRedis cfg)) @ '')'') er),
          snd (lib_Close g (client_options cfg) s1))
   | (None, s1) \<Rightarrow> NewRedisClient g cfg s = (Inr (client_options cfg), snd (lib_Register g Describe s1))"
  by (auto simp: NewRedisClient_def Let_def registerPoolMetrics_def client_options_def split: prod.splits option.splits)

text \<open>The collector sends exactly the metrics it has described, in order.\<close>

lemma Collect_described: "map fst (Collect stats) = Describe"
  by (simp add: Collect_def Describe_def)

definition down_redis :: "unit go_redis" where
  "down_redis =
     \<lparr>lib_Ping = (\<lambda>opts d s. (Some (ENew (''dial tcp '' @ Addr opts)), s)), lib_Close = (\<lambda>opts s. (None, s)),
      lib_PoolStats = (\<lambda>opts s. \<lparr>Hits = 0, Misses = 0, Timeouts = 0, TotalConns = 0, IdleConns = 0, StaleConns = 0\<rparr>),
      lib_Register = (\<lambda>ds s. (None, s))\<rparr>"

theorem rediss_is_plain_witness:
  "Addr (client_options (sample_config\<lparr>CfgRedis := (CfgRedis sample_config)\<lparr>URL := ''rediss://cache:6379''\<rparr>\<rparr>)) = ''cache:6379''"
  using rediss_is_plain [of "''cache:6379''" "sample_config\<lparr>CfgRedis := (CfgRedis sample_config)\<lparr>URL := ''rediss://cache:6379''\<rparr>\<rparr>"
      "CfgRedis sample_config" "sample_config\<lparr>CfgRedis := (CfgRedis sample_config)\<lparr>URL := ''redis://cache:6379''\<rparr>\<rparr>" down_redis "()"]
  by simp

end
