(* ===== verification/Http.thy ===== *)
theory Http
  imports Config Json
begin

text \<open>
  internal/adapters/http: middleware, handlers and the route table. A handler gets the request, the
  response writer and the world, and may panic. What chi and promhttp do (matching a
  path, the answer to an unknown path, the timeout, the metrics page, the real address) is an
  argument, and so are the clock, the UUID source and the access log.
\<close>

record http_in =
  Method :: string
  Path :: string
  RemoteAddr :: string
  Header :: "string \<Rightarrow> string"
  ctxRequestID :: "string option"
  ctxTenantID :: "string option"

text \<open>
  The writer: the headers set so far, what was sent with the first \<open>WriteHeader\<close>, the body, and the
  status the logging wrapper has seen.
\<close>

record responseWriter =
  out_header :: "string \<rightharpoonup> string"
  wrote :: "(int \<times> (string \<rightharpoonup> string)) option"
  out_body :: string
  rw_status :: int

type_synonym 'w handler = "http_in \<Rightarrow> responseWriter \<Rightarrow> 'w \<Rightarrow> (string option \<times> responseWriter) \<times> 'w"

definition new_response :: responseWriter where
  "new_response = \<lparr>out_header = Map.empty, wrote = None, out_body = [], rw_status = 200\<rparr>"

definition header_set :: "string \<Rightarrow> string \<Rightarrow> responseWriter \<Rightarrow> responseWriter" where
  "header_set k v rw = rw\<lparr>out_header := (out_header rw)(k \<mapsto> v)\<rparr>"

text \<open>\<open>(*responseWriter).WriteHeader\<close>: a second call only changes what the log says.\<close>

definition WriteHeader :: "int \<Rightarrow> responseWriter \<Rightarrow> responseWriter" where
  "WriteHeader code rw =
     (let rw1 = rw\<lparr>rw_status := code\<rparr>
      in if wrote rw1 = None then rw1\<lparr>wrote := Some (code, out_header rw1)\<rparr> else rw1)"

definition newResponseWriter :: "responseWriter \<Rightarrow> responseWriter" where
  "newResponseWriter rw = rw\<lparr>rw_status := 200\<rparr>"

definition RequestIDFromContext :: "http_in \<Rightarrow> string" where
  "RequestIDFromContext r = (case ctxRequestID r of Some v \<Rightarrow> v | None \<Rightarrow> [])"

definition TenantIDFromContext :: "http_in \<Rightarrow> string" where
  "TenantIDFromContext r = (case ctxTenantID r of Some v \<Rightarrow> v | None \<Rightarrow> [])"

subsection \<open>Responses\<close>

definition writeJSON :: "int \<Rightarrow> json \<Rightarrow> responseWriter \<Rightarrow> responseWriter" where
  "writeJSON status v rw =
     (let rw1 = WriteHeader status (header_set ''Content-Type'' ''application/json'' rw)
      in rw1\<lparr>out_body := out_body rw1 @ json_text v @ [CHR 0x0A]\<rparr>)"

definition errorResponse :: "string \<Rightarrow> string \<Rightarrow> string \<Rightarrow> json" where
  "errorResponse message code rid =
     JObj [(''error'', JStr (coerce_utf8 message)), (''code'', JStr (coerce_utf8 code)), (''request_id'', JStr (coerce_utf8 rid))]"

definition writeError :: "http_in \<Rightarrow> int \<Rightarrow> string \<Rightarrow> string \<Rightarrow> responseWriter \<Rightarrow> responseWriter" where
  "writeError r status code message rw = writeJSON status (errorResponse message code (RequestIDFromContext r)) rw"

subsection \<open>Middleware\<close>

datatype log_level = InfoLevel | WarnLevel | ErrorLevel

record access_entry =
  LogLevelOf :: log_level
  LogMethod :: string
  LogPath :: string
  LogStatus :: int
  LogRequestID :: string
  LogTenantID :: string
  LogRemoteAddr :: string

record 'w http_os =
  uuid_New :: "'w \<Rightarrow> string \<times> 'w"
  http_now :: "'w \<Rightarrow> go_time \<times> 'w"
  access_log :: "access_entry \<Rightarrow> 'w \<Rightarrow> 'w"
  chi_real_ip :: "http_in \<Rightarrow> string"
  chi_timeout :: "'w handler \<Rightarrow> 'w handler"
  chi_match :: "string \<Rightarrow> string \<Rightarrow> bool"
  chi_miss :: "'w handler"
  promhttp :: "'w handler"

definition requestIDMiddleware :: "'w http_os \<Rightarrow> 'w handler \<Rightarrow> 'w handler" where
  "requestIDMiddleware os next r rw w =
     (let given = Header r ''X-Request-ID'';
          (rid, w1) = (if given = [] then uuid_New os w else (given, w))
      in next (r\<lparr>ctxRequestID := Some rid\<rparr>) (header_set ''X-Request-ID'' rid rw) w1)"

definition levelForStatus :: "int \<Rightarrow> log_level" where
  "levelForStatus status =
     (if 500 \<le> status then ErrorLevel else if 400 \<le> status then WarnLevel else InfoLevel)"

text \<open>The entry is made from the request the logger was given, not from the one further in.\<close>

definition requestLoggerMiddleware :: "'w http_os \<Rightarrow> 'w handler \<Rightarrow> 'w handler" where
  "requestLoggerMiddleware os next r rw w =
     (let ((p, rw1), w1) = next r (newResponseWriter rw) w
      in case p of
           Some _ \<Rightarrow> ((p, rw1), w1)
         | None \<Rightarrow> ((None, rw1), access_log os
             \<lparr>LogLevelOf = levelForStatus (rw_status rw1), LogMethod = Method r, LogPath = Path r,
              LogStatus = rw_status rw1, LogRequestID = RequestIDFromContext r,
              LogTenantID = TenantIDFromContext r, LogRemoteAddr = RemoteAddr r\<rparr> w1))"

definition recovererMiddleware :: "'w handler \<Rightarrow> 'w handler" where
  "recovererMiddleware next r rw w =
     (let ((p, rw1), w1) = next r rw w
      in case p of
           None \<Rightarrow> ((None, rw1), w1)
         | Some _ \<Rightarrow> ((None, writeError r 500 ''internal_error'' ''an unexpected error occurred'' rw1), w1))"

definition apiKeyAuthMiddleware :: "string list \<Rightarrow> 'w handler \<Rightarrow> 'w handler" where
  "apiKeyAuthMiddleware validKeys next r rw w =
     (let provided = Header r ''X-API-Key''
      in if provided = []
         then ((None, writeError r 401 ''missing_api_key'' ''X-API-Key header is required'' rw), w)
         else if provided \<in> set validKeys then next r rw w
         else ((None, writeError r 401 ''invalid_api_key'' ''the provided API key is not valid'' rw), w))"

definition tenantExtractorMiddleware :: "'w handler \<Rightarrow> 'w handler" where
  "tenantExtractorMiddleware next r rw w =
     (let tenantID = Header r ''X-Tenant-ID''
      in if tenantID = []
         then ((None, writeError r 400 ''missing_tenant_id'' ''X-Tenant-ID header is required'' rw), w)
         else next (r\<lparr>ctxTenantID := Some tenantID\<rparr>) rw w)"

definition contentTypeEnforcer :: "'w handler \<Rightarrow> 'w handler" where
  "contentTypeEnforcer next r rw w =
     (if Method r \<in> {''POST'', ''PUT'', ''PATCH''} \<and> \<not> HasPrefix (Header r ''Content-Type'') ''application/json''
      then ((None, writeError r 415 ''unsupported_media_type'' ''Content-Type must be application/json'' rw), w)
      else next r rw w)"

definition realIPMiddleware :: "'w http_os \<Rightarrow> 'w handler \<Rightarrow> 'w handler" where
  "realIPMiddleware os next r rw w = next (r\<lparr>RemoteAddr := chi_real_ip os r\<rparr>) rw w"

subsection \<open>Handlers\<close>

definition handleHealthz :: "'w http_os \<Rightarrow> 'w handler" where
  "handleHealthz os r rw w =
     (let (now, w1) = http_now os w
      in ((None, writeJSON 200 (JObj [(''status'', JStr ''ok''),
            (''time'', JStr (rfc3339 (time_unix now * 1000000000)))]) rw), w1))"

definition handleReadyz :: "bool \<Rightarrow> 'w handler" where
  "handleReadyz ready r rw w =
     ((None, if ready then writeJSON 200 (JObj [(''status'', JStr ''ready'')]) rw
             else writeJSON 503 (JObj [(''status'', JStr ''not_ready'')]) rw), w)"

definition not_implemented :: "string \<Rightarrow> 'w handler" where
  "not_implemented message r rw w = ((None, writeError r 501 ''not_implemented'' message rw), w)"

definition handleEnqueueTask :: "'w handler" where
  "handleEnqueueTask = not_implemented ''task enqueue is not yet implemented''"

definition handleGetTask :: "'w handler" where
  "handleGetTask = not_implemented ''task lookup is not yet implemented''"

definition handleDeleteTask :: "'w handler" where
  "handleDeleteTask = not_implemented ''task deletion is not yet implemented''"

definition handleListDLQ :: "'w handler" where
  "handleListDLQ = not_implemented ''DLQ listing is not yet implemented''"

record EnqueueTaskRequest =
  ReqRecipient :: string
  ReqType :: TaskType
  ReqPriority :: i8
  ReqTemplateID :: string
  ReqTemplateData :: "(string, go_any) fmap option"
  ReqScheduledFor :: "go_time option"
  ReqMetadata :: "(string, string) fmap option"

definition EnqueueTaskRequest_Validate :: "EnqueueTaskRequest \<Rightarrow> go_error option" where
  "EnqueueTaskRequest_Validate req =
     (if ReqRecipient req = [] then Some (EValidation \<lparr>Field = ''recipient'', Message = ''recipient is required''\<rparr>)
      else if \<not> TaskType_IsValid (ReqType req)
      then Some (EValidation \<lparr>Field = ''type'', Message = ''type must be a valid TaskType''\<rparr>)
      else if ReqTemplateID req = []
      then Some (EValidation \<lparr>Field = ''template_id'', Message = ''template_id is required''\<rparr>)
      else if \<not> Priority_IsValid (ReqPriority req)
      then Some (EValidation \<lparr>Field = ''priority'',
             Message = ''priority must be 0'' @ [CHR 0xE2, CHR 0x80, CHR 0x93] @ ''3''\<rparr>)
      else None)"

subsection \<open>The router\<close>

record Router =
  rt_cfg :: Config
  rt_ready :: bool

definition NewRouter :: "Config \<Rightarrow> Router" where
  "NewRouter cfg = \<lparr>rt_cfg = cfg, rt_ready = False\<rparr>"

definition SetReady :: "bool \<Rightarrow> Router \<Rightarrow> Router" where
  "SetReady v rt = rt\<lparr>rt_ready := v\<rparr>"

definition IsReady :: "Router \<Rightarrow> bool" where
  "IsReady rt = rt_ready rt"

text \<open>The middleware of the authenticated group, in the order of registration.\<close>

definition api_group :: "'w http_os \<Rightarrow> Router \<Rightarrow> 'w handler \<Rightarrow> 'w handler" where
  "api_group os rt h =
     apiKeyAuthMiddleware (APIKeys (CfgServer (rt_cfg rt)))
       (tenantExtractorMiddleware (chi_timeout os (contentTypeEnforcer h)))"

definition api_routes :: "(string \<times> string \<times> 'w handler) list" where
  "api_routes =
     [(''POST'', ''/v1/tasks'', handleEnqueueTask), (''GET'', ''/v1/tasks/{taskID}'', handleGetTask),
      (''DELETE'', ''/v1/tasks/{taskID}'', handleDeleteTask), (''GET'', ''/v1/dlq'', handleListDLQ)]"

text \<open>\<open>None\<close> as method: \<open>Handle\<close> accepts every method.\<close>

definition registerRoutes :: "'w http_os \<Rightarrow> Router \<Rightarrow> (string option \<times> string \<times> 'w handler) list" where
  "registerRoutes os rt =
     [(Some ''GET'', ''/healthz'', handleHealthz os), (Some ''GET'', ''/readyz'', handleReadyz (IsReady rt)),
      (None, ''/metrics'', promhttp os)] @
     map (\<lambda>(m, p, h). (Some m, p, api_group os rt h)) api_routes"

definition dispatch_route :: "'w http_os \<Rightarrow> Router \<Rightarrow> 'w handler" where
  "dispatch_route os rt r =
     (case find (\<lambda>(m, p, h). (m = None \<or> m = Some (Method r)) \<and> chi_match os p (Path r)) (registerRoutes os rt) of
        None \<Rightarrow> chi_miss os r
      | Some (_, _, h) \<Rightarrow> h r)"

definition registerMiddleware :: "'w http_os \<Rightarrow> 'w handler \<Rightarrow> 'w handler" where
  "registerMiddleware os h =
     requestIDMiddleware os (realIPMiddleware os (requestLoggerMiddleware os (recovererMiddleware h)))"

definition ServeHTTP :: "'w http_os \<Rightarrow> Router \<Rightarrow> http_in \<Rightarrow> 'w \<Rightarrow> (string option \<times> responseWriter) \<times> 'w" where
  "ServeHTTP os rt r w = registerMiddleware os (dispatch_route os rt) r new_response w"

subsection \<open>What chi promises\<close>

text \<open>
  A pattern without a parameter matches itself; \<open>{taskID}\<close> matches one segment that is not empty. The
  timeout runs the handler and may write a status afterwards, which has no effect when the handler has
  answered.
\<close>

locale chi_laws =
  fixes os :: "'w http_os"
  assumes match_literal: "CHR 0x7B \<notin> set p \<Longrightarrow> chi_match os p path \<longleftrightarrow> path = p"
    and match_param: "CHR 0x7B \<notin> set p \<Longrightarrow> chi_match os (p @ ''{taskID}'') path \<longleftrightarrow>
      (\<exists>x. path = p @ x \<and> x \<noteq> [] \<and> CHR ''/'' \<notin> set x)"
    and timeout: "h r rw w = ((None, rw1), w1) \<Longrightarrow> wrote rw1 = Some a \<Longrightarrow>
      \<exists>rw2. chi_timeout os h r rw w = ((None, rw2), w1) \<and> wrote rw2 = Some a \<and> out_body rw2 = out_body rw1"
begin

lemma match_task: "chi_match os ''/v1/tasks/{taskID}'' path \<longleftrightarrow>
    (\<exists>x. path = ''/v1/tasks/'' @ x \<and> x \<noteq> [] \<and> CHR ''/'' \<notin> set x)"
  using match_param [of "''/v1/tasks/''" path] by simp

lemma match_literals:
  "chi_match os ''/healthz'' path \<longleftrightarrow> path = ''/healthz''" "chi_match os ''/readyz'' path \<longleftrightarrow> path = ''/readyz''"
  "chi_match os ''/metrics'' path \<longleftrightarrow> path = ''/metrics''" "chi_match os ''/v1/tasks'' path \<longleftrightarrow> path = ''/v1/tasks''"
  "chi_match os ''/v1/dlq'' path \<longleftrightarrow> path = ''/v1/dlq''"
  by (rule match_literal; simp)+

end

text \<open>The requests of the authenticated group.\<close>

definition api_request :: "http_in \<Rightarrow> bool" where
  "api_request r \<longleftrightarrow>
     Method r = ''POST'' \<and> Path r = ''/v1/tasks'' \<or> Method r = ''GET'' \<and> Path r = ''/v1/dlq'' \<or>
     Method r \<in> {''GET'', ''DELETE''} \<and> (\<exists>x. Path r = ''/v1/tasks/'' @ x \<and> x \<noteq> [] \<and> CHR ''/'' \<notin> set x)"

text \<open>Why the group refuses a request: the status, the code and the message of the error; \<open>None\<close> lets it through to its handler.\<close>

definition refusal :: "string list \<Rightarrow> http_in \<Rightarrow> (int \<times> string \<times> string) option" where
  "refusal keys r =
     (if Header r ''X-API-Key'' = [] then Some (401, ''missing_api_key'', ''X-API-Key header is required'')
      else if Header r ''X-API-Key'' \<notin> set keys then Some (401, ''invalid_api_key'', ''the provided API key is not valid'')
      else if Header r ''X-Tenant-ID'' = [] then Some (400, ''missing_tenant_id'', ''X-Tenant-ID header is required'')
      else if Method r \<in> {''POST'', ''PUT'', ''PATCH''} \<and> \<not> HasPrefix (Header r ''Content-Type'') ''application/json''
      then Some (415, ''unsupported_media_type'', ''Content-Type must be application/json'')
      else None)"

text \<open>A writer on which nothing but one error was written.\<close>

definition answers_error :: "responseWriter \<Rightarrow> int \<times> string \<times> string \<Rightarrow> string \<Rightarrow> responseWriter \<Rightarrow> bool" where
  "answers_error rw0 x rid rw \<longleftrightarrow>
     (case x of (status, code, msg) \<Rightarrow>
        wrote rw = Some (status, (out_header rw0)(''Content-Type'' \<mapsto> ''application/json'')) \<and>
        out_body rw = out_body rw0 @ json_text (errorResponse msg code rid) @ [CHR 0x0A])"

lemma writeError_answers:
  "wrote rw = None \<Longrightarrow> answers_error rw (status, code, msg) (RequestIDFromContext r) (writeError r status code msg rw)"
  by (simp add: answers_error_def writeError_def writeJSON_def WriteHeader_def header_set_def Let_def)

subsection \<open>The outer middleware\<close>

definition request_id :: "'w http_os \<Rightarrow> http_in \<Rightarrow> 'w \<Rightarrow> string \<times> 'w" where
  "request_id os r w = (if Header r ''X-Request-ID'' = [] then uuid_New os w else (Header r ''X-Request-ID'', w))"

text \<open>The request as the routes see it.\<close>

definition inner_request :: "'w http_os \<Rightarrow> http_in \<Rightarrow> string \<Rightarrow> http_in" where
  "inner_request os r rid =
     (let r1 = r\<lparr>ctxRequestID := Some rid\<rparr> in r1\<lparr>RemoteAddr := chi_real_ip os r1\<rparr>)"

lemma inner_request_sels [simp]:
  "Method (inner_request os r rid) = Method r" "Path (inner_request os r rid) = Path r"
  "Header (inner_request os r rid) = Header r" "ctxRequestID (inner_request os r rid) = Some rid"
  "ctxTenantID (inner_request os r rid) = ctxTenantID r"
  by (simp_all add: inner_request_def Let_def)

definition id_response :: "string \<Rightarrow> responseWriter" where
  "id_response rid = header_set ''X-Request-ID'' rid new_response"

lemma id_response_sels [simp]:
  "wrote (id_response rid) = None" "out_header (id_response rid) = [''X-Request-ID'' \<mapsto> rid]"
  "newResponseWriter (id_response rid) = id_response rid"
  by (simp_all add: id_response_def header_set_def new_response_def newResponseWriter_def)

lemma ServeHTTP_unfold:
  assumes "request_id os r w = (rid, w1)"
    and "recovererMiddleware (dispatch_route os rt) (inner_request os r rid) (id_response rid) w1 = ((None, rw2), w2)"
  shows "ServeHTTP os rt r w = ((None, rw2), access_log os
    \<lparr>LogLevelOf = levelForStatus (rw_status rw2), LogMethod = Method r, LogPath = Path r, LogStatus = rw_status rw2,
     LogRequestID = rid, LogTenantID = TenantIDFromContext r, LogRemoteAddr = chi_real_ip os (r\<lparr>ctxRequestID := Some rid\<rparr>)\<rparr> w2)"
proof -
  have "(if Header r ''X-Request-ID'' = [] then uuid_New os w else (Header r ''X-Request-ID'', w)) = (rid, w1)"
    using assms(1) by (simp add: request_id_def)
  moreover have "newResponseWriter (header_set ''X-Request-ID'' rid new_response) = id_response rid"
    using id_response_sels(3) by (simp add: id_response_def)
  ultimately show ?thesis
    using assms(2)
    by (simp add: ServeHTTP_def registerMiddleware_def requestIDMiddleware_def realIPMiddleware_def
        requestLoggerMiddleware_def inner_request_def RequestIDFromContext_def TenantIDFromContext_def Let_def)
qed

lemma recoverer_total: "\<exists>rw1 w1. recovererMiddleware h r rw w = ((None, rw1), w1)"
  by (auto simp: recovererMiddleware_def split: prod.splits option.splits)

context chi_laws begin

lemma dispatch_api:
  assumes "api_request r"
  shows "\<exists>h \<in> {handleEnqueueTask, handleGetTask, handleDeleteTask, handleListDLQ}.
    dispatch_route os rt r = api_group os rt h r"
proof -
  have l: "''/v1/tasks/'' @ x \<noteq> ''/v1/tasks''" "''/v1/tasks/'' @ x \<noteq> ''/v1/dlq''" for x :: string by simp_all
  show ?thesis
    using assms unfolding api_request_def
    by (auto simp: dispatch_route_def registerRoutes_def api_routes_def match_literals match_task)
qed

text \<open>A handler that answers is not disturbed by the timeout; a refused request never gets to it.\<close>

lemma api_group_refuses:
  assumes "wrote rw = None" and "refusal (APIKeys (CfgServer (rt_cfg rt))) r = Some x"
  shows "\<exists>rw1. api_group os rt h r rw w = ((None, rw1), w) \<and> answers_error rw x (RequestIDFromContext r) rw1"
proof -
  let ?r = "r\<lparr>ctxTenantID := Some (Header r ''X-Tenant-ID'')\<rparr>"
  let ?keys = "APIKeys (CfgServer (rt_cfg rt))"
  have id: "RequestIDFromContext ?r = RequestIDFromContext r" by (simp add: RequestIDFromContext_def)
  show ?thesis
  proof (cases "Header r ''X-API-Key'' = [] \<or> Header r ''X-API-Key'' \<notin> set ?keys \<or> Header r ''X-Tenant-ID'' = []")
    case True
    then show ?thesis using assms writeError_answers [OF assms(1)]
      by (auto simp: api_group_def apiKeyAuthMiddleware_def tenantExtractorMiddleware_def refusal_def Let_def)
  next
    case False
    then have x: "x = (415, ''unsupported_media_type'', ''Content-Type must be application/json'')"
      and c: "Method r \<in> {''POST'', ''PUT'', ''PATCH''} \<and> \<not> HasPrefix (Header r ''Content-Type'') ''application/json''"
      using assms(2) by (auto simp: refusal_def split: if_splits)
    let ?rw = "writeError ?r 415 ''unsupported_media_type'' ''Content-Type must be application/json'' rw"
    have "contentTypeEnforcer h ?r rw w = ((None, ?rw), w)" using c by (simp add: contentTypeEnforcer_def)
    moreover have e: "answers_error rw x (RequestIDFromContext r) ?rw"
      using writeError_answers [OF assms(1), of _ _ _ ?r] by (simp add: x id)
    ultimately obtain rw2 where "chi_timeout os (contentTypeEnforcer h) ?r rw w = ((None, rw2), w)"
      "wrote rw2 = wrote ?rw" "out_body rw2 = out_body ?rw"
      using timeout [of "contentTypeEnforcer h" ?r rw w ?rw w] by (auto simp: answers_error_def x)
    then show ?thesis using False e
      by (auto simp: api_group_def apiKeyAuthMiddleware_def tenantExtractorMiddleware_def answers_error_def Let_def)
  qed
qed

lemma api_group_passes:
  assumes "wrote rw = None" and "refusal (APIKeys (CfgServer (rt_cfg rt))) r = None"
  shows "\<exists>rw1. api_group os rt (not_implemented msg) r rw w = ((None, rw1), w) \<and>
    answers_error rw (501, ''not_implemented'', msg) (RequestIDFromContext r) rw1"
proof -
  let ?r = "r\<lparr>ctxTenantID := Some (Header r ''X-Tenant-ID'')\<rparr>"
  let ?rw = "writeError ?r 501 ''not_implemented'' msg rw"
  have "RequestIDFromContext ?r = RequestIDFromContext r" by (simp add: RequestIDFromContext_def)
  then have e: "answers_error rw (501, ''not_implemented'', msg) (RequestIDFromContext r) ?rw"
    using writeError_answers [OF assms(1), of _ _ _ ?r] by metis
  have "contentTypeEnforcer (not_implemented msg) ?r rw w = ((None, ?rw), w)"
    using assms(2) by (auto simp: contentTypeEnforcer_def not_implemented_def refusal_def split: if_splits)
  then obtain rw2 where "chi_timeout os (contentTypeEnforcer (not_implemented msg)) ?r rw w = ((None, rw2), w)"
    "wrote rw2 = wrote ?rw" "out_body rw2 = out_body ?rw"
    using timeout [of "contentTypeEnforcer (not_implemented msg)" ?r rw w ?rw w] e by (auto simp: answers_error_def)
  then show ?thesis using assms(2) e
    by (auto simp: api_group_def apiKeyAuthMiddleware_def tenantExtractorMiddleware_def answers_error_def refusal_def Let_def
        split: if_splits)
qed

lemma serve_api:
  assumes "api_request r" and "request_id os r w = (rid, w1)"
  shows "\<exists>rw entry. ServeHTTP os rt r w = ((None, rw), access_log os entry w1) \<and>
    (case refusal (APIKeys (CfgServer (rt_cfg rt))) r of
       Some x \<Rightarrow> answers_error (id_response rid) x rid rw
     | None \<Rightarrow> \<exists>msg. answers_error (id_response rid) (501, ''not_implemented'', msg) rid rw)"
proof -
  let ?r = "inner_request os r rid" and ?keys = "APIKeys (CfgServer (rt_cfg rt))"
  have r: "api_request ?r" "RequestIDFromContext ?r = rid" "refusal ?keys ?r = refusal ?keys r"
    using assms(1) by (auto simp: api_request_def RequestIDFromContext_def refusal_def)
  from dispatch_api [OF r(1)] obtain msg where h: "dispatch_route os rt ?r = api_group os rt (not_implemented msg) ?r"
    by (auto simp: handleEnqueueTask_def handleGetTask_def handleDeleteTask_def handleListDLQ_def)
  obtain rw1 where g: "api_group os rt (not_implemented msg) ?r (id_response rid) w1 = ((None, rw1), w1)"
    and x: "case refusal ?keys r of Some x \<Rightarrow> answers_error (id_response rid) x rid rw1
      | None \<Rightarrow> \<exists>msg. answers_error (id_response rid) (501, ''not_implemented'', msg) rid rw1"
  proof (cases "refusal ?keys r")
    case None
    then obtain rw1 where "api_group os rt (not_implemented msg) ?r (id_response rid) w1 = ((None, rw1), w1)"
      "answers_error (id_response rid) (501, ''not_implemented'', msg) rid rw1"
      using api_group_passes [OF id_response_sels(1), of rt ?r msg rid w1] r by auto
    then show thesis using that [of rw1] None by auto
  next
    case (Some x)
    then obtain rw1 where "api_group os rt (not_implemented msg) ?r (id_response rid) w1 = ((None, rw1), w1)"
      "answers_error (id_response rid) x rid rw1"
      using api_group_refuses [OF id_response_sels(1), of rt ?r x "not_implemented msg" rid w1] r by auto
    then show thesis using that [of rw1] Some by auto
  qed
  have "recovererMiddleware (dispatch_route os rt) ?r (id_response rid) w1 = ((None, rw1), w1)"
    by (simp add: recovererMiddleware_def h g)
  from ServeHTTP_unfold [OF assms(2) this] x show ?thesis by blast
qed

lemma serve_readyz:
  assumes "Method r = ''GET''" and "Path r = ''/readyz''"
  shows "\<exists>hdr. wrote (snd (fst (ServeHTTP os rt r w))) = Some (if IsReady rt then 200 else 503, hdr)"
proof -
  obtain rid w1 where i: "request_id os r w = (rid, w1)" by fastforce
  let ?r = "inner_request os r rid"
  have "dispatch_route os rt ?r = handleReadyz (IsReady rt) ?r"
    using assms by (simp add: dispatch_route_def registerRoutes_def match_literals)
  then obtain rw2 where d: "recovererMiddleware (dispatch_route os rt) ?r (id_response rid) w1 = ((None, rw2), w1)"
    and s: "\<exists>hdr. wrote rw2 = Some (if IsReady rt then 200 else 503, hdr)"
    by (auto simp: recovererMiddleware_def handleReadyz_def writeJSON_def WriteHeader_def header_set_def Let_def)
  from ServeHTTP_unfold [OF i d] s show ?thesis by simp
qed

end

subsection \<open>A router in memory\<close>

record mem_http_state =
  next_uuid :: nat
  mem_time :: go_time
  access_entries :: "access_entry list"

definition simple_match :: "string \<Rightarrow> string \<Rightarrow> bool" where
  "simple_match p path =
     (if CHR 0x7B \<in> set p then
        let pre = takeWhile (\<lambda>c. c \<noteq> CHR 0x7B) p; x = drop (length pre) path
        in HasPrefix path pre \<and> x \<noteq> [] \<and> CHR ''/'' \<notin> set x
      else path = p)"

definition mem_http_os :: "mem_http_state http_os" where
  "mem_http_os =
     \<lparr>uuid_New = (\<lambda>w. (''uuid-'' @ show_nat (next_uuid w), w\<lparr>next_uuid := Suc (next_uuid w)\<rparr>)),
      http_now = (\<lambda>w. (mem_time w, w)),
      access_log = (\<lambda>e w. w\<lparr>access_entries := access_entries w @ [e]\<rparr>),
      chi_real_ip = RemoteAddr, chi_timeout = (\<lambda>h. h), chi_match = simple_match,
      chi_miss = (\<lambda>r rw w. ((None, WriteHeader 404 rw), w)),
      promhttp = (\<lambda>r rw w. ((None, WriteHeader 200 rw), w))\<rparr>"

interpretation mem_chi: chi_laws mem_http_os
proof unfold_locales
  fix p path :: string assume "CHR 0x7B \<notin> set p"
  then show "chi_match mem_http_os p path \<longleftrightarrow> path = p" by (simp add: mem_http_os_def simple_match_def)
next
  fix p path :: string assume "CHR 0x7B \<notin> set p"
  then have "takeWhile (\<lambda>c. c \<noteq> CHR 0x7B) (p @ ''{taskID}'') = p" by (subst takeWhile_append2) auto
  then show "chi_match mem_http_os (p @ ''{taskID}'') path \<longleftrightarrow> (\<exists>x. path = p @ x \<and> x \<noteq> [] \<and> CHR ''/'' \<notin> set x)"
    by (auto simp: mem_http_os_def simple_match_def Let_def HasPrefix_iff)
qed (simp add: mem_http_os_def)

definition sample_request :: "string \<Rightarrow> string \<Rightarrow> (string \<times> string) list \<Rightarrow> http_in" where
  "sample_request m p hs =
     \<lparr>Method = m, Path = p, RemoteAddr = ''10.0.0.1'', Header = (\<lambda>k. case map_of hs k of None \<Rightarrow> [] | Some v \<Rightarrow> v),
      ctxRequestID = None, ctxTenantID = None\<rparr>"

definition empty_http :: mem_http_state where
  "empty_http = \<lparr>next_uuid = 0, mem_time = 0, access_entries = []\<rparr>"

subsection \<open>Properties\<close>

text \<open>C38: Authentication of the API: a request to an API route whose \<open>X-API-Key\<close> is empty or not configured is answered 401, then
  one without a tenant 400, then one that must be JSON and is not 415; only then does it get to a handler, which, all four being stubs,
  answers 501. The whole answer is that one JSON error with its code and the ID of the request (which the client sent, or else a fresh
  one), and beside the access log nothing has happened. And no refused request gets to a handler: whatever handler were registered, it answers just the
  refusal and leaves the world as it is.\<close>

theorem api_requires_key:
  assumes "chi_laws os" and "api_request r" and "request_id os r w = (rid, w1)"
  shows "(\<exists>rw entry. ServeHTTP os rt r w = ((None, rw), access_log os entry w1) \<and>
      (case refusal (APIKeys (CfgServer (rt_cfg rt))) r of
         Some x \<Rightarrow> answers_error (id_response rid) x rid rw
       | None \<Rightarrow> \<exists>msg. answers_error (id_response rid) (501, ''not_implemented'', msg) rid rw)) \<and>
    (\<forall>h x rw0 w0. refusal (APIKeys (CfgServer (rt_cfg rt))) r = Some x \<longrightarrow> wrote rw0 = None \<longrightarrow>
      (\<exists>rw1. api_group os rt h r rw0 w0 = ((None, rw1), w0) \<and> answers_error rw0 x (RequestIDFromContext r) rw1))"
  using chi_laws.serve_api [OF assms] chi_laws.api_group_refuses [OF assms(1)] by blast

text \<open>No panic leaves the router, whatever the handlers, chi or promhttp do: a request is always answered and logged. If a handler panics, the
  log says 500, and so does the answer unless the handler had already sent another status.\<close>

theorem ServeHTTP_recovers:
  assumes "request_id os r w = (rid, w1)"
    and "dispatch_route os rt (inner_request os r rid) (id_response rid) w1 = ((p, rw2), w2)"
  shows "\<exists>rw3 entry. ServeHTTP os rt r w = ((None, rw3), access_log os entry w2) \<and> LogStatus entry = rw_status rw3 \<and>
    (p = None \<and> rw3 = rw2 \<or>
     p \<noteq> None \<and> rw_status rw3 = 500 \<and>
       (\<exists>hdr. wrote rw3 = Some (case wrote rw2 of None \<Rightarrow> 500 | Some (code, _) \<Rightarrow> code, hdr)))"
proof (cases p)
  case None
  then show ?thesis using assms ServeHTTP_unfold [OF assms(1), of rt rw2 w2] by (auto simp: recovererMiddleware_def)
next
  case (Some msg)
  let ?rw = "writeError (inner_request os r rid) 500 ''internal_error'' ''an unexpected error occurred'' rw2"
  have "recovererMiddleware (dispatch_route os rt) (inner_request os r rid) (id_response rid) w1 = ((None, ?rw), w2)"
    using assms(2) Some by (simp add: recovererMiddleware_def)
  from ServeHTTP_unfold [OF assms(1) this] Some show ?thesis
    by (auto simp: writeError_def writeJSON_def WriteHeader_def header_set_def Let_def split: option.splits)
qed

text \<open>The readiness probe follows the flag: 503 from \<open>NewRouter\<close> until \<open>SetReady(true)\<close>, and again after \<open>SetReady(false)\<close>.\<close>

theorem readyz_follows_flag:
  assumes "chi_laws os" and "Method r = ''GET''" and "Path r = ''/readyz''"
  shows "\<exists>hdr. wrote (snd (fst (ServeHTTP os rt r w))) = Some (if IsReady rt then 200 else 503, hdr)"
  using chi_laws.serve_readyz [OF assms] .

text \<open>The access log never names the tenant: the entry is made from the request outside the tenant middleware, so for a
  request that comes in without one, as all do, the logged tenant is empty.\<close>

theorem access_log_without_tenant:
  assumes "ctxTenantID r = None"
  shows "\<exists>entry w0. snd (ServeHTTP os rt r w) = access_log os entry w0 \<and> LogTenantID entry = [] \<and>
    LogRequestID entry = fst (request_id os r w)"
proof -
  obtain rid w1 where i: "request_id os r w = (rid, w1)" by fastforce
  obtain rw2 w2 where
    "recovererMiddleware (dispatch_route os rt) (inner_request os r rid) (id_response rid) w1 = ((None, rw2), w2)"
    using recoverer_total [of "dispatch_route os rt" "inner_request os r rid" "id_response rid" w1] by blast
  from ServeHTTP_unfold [OF i this] assms i show ?thesis
    by (intro exI conjI) (auto simp: TenantIDFromContext_def)
qed

subsection \<open>Witnesses\<close>

theorem api_requires_key_witness:
  "\<exists>hdr entry. ServeHTTP mem_http_os (NewRouter sample_config)
     (sample_request ''GET'' ''/v1/tasks/42'' [(''X-Request-ID'', ''r-1'')]) empty_http = ((None, hdr), empty_http\<lparr>access_entries := [entry]\<rparr>) \<and>
     answers_error (id_response ''r-1'') (401, ''missing_api_key'', ''X-API-Key header is required'') ''r-1'' hdr"
proof -
  let ?r = "sample_request ''GET'' ''/v1/tasks/42'' [(''X-Request-ID'', ''r-1'')]"
  have "api_request ?r" by (simp add: api_request_def sample_request_def)
  moreover have "request_id mem_http_os ?r empty_http = (''r-1'', empty_http)" by (simp add: request_id_def sample_request_def)
  moreover have "refusal keys ?r = Some (401, ''missing_api_key'', ''X-API-Key header is required'')" for keys
    by (simp add: refusal_def sample_request_def)
  ultimately obtain rw entry where "ServeHTTP mem_http_os (NewRouter sample_config) ?r empty_http = ((None, rw), access_log mem_http_os entry empty_http)"
    "answers_error (id_response ''r-1'') (401, ''missing_api_key'', ''X-API-Key header is required'') ''r-1'' rw"
    using api_requires_key [OF mem_chi.chi_laws_axioms, of ?r empty_http "''r-1''" empty_http "NewRouter sample_config"] by auto
  then show ?thesis by (intro exI [of _ rw] exI [of _ entry]) (simp add: mem_http_os_def empty_http_def)
qed

theorem ServeHTTP_recovers_witness:
  "\<exists>hdr. wrote (snd (fst (ServeHTTP (mem_http_os\<lparr>promhttp := (\<lambda>r rw w. ((Some ''boom'', rw), w))\<rparr>) (NewRouter sample_config)
     (sample_request ''GET'' ''/metrics'' [(''X-Request-ID'', ''r-1'')]) empty_http))) = Some (500, hdr)"
proof -
  let ?os = "mem_http_os\<lparr>promhttp := (\<lambda>r rw w. ((Some ''boom'', rw), w))\<rparr>"
  let ?r = "sample_request ''GET'' ''/metrics'' [(''X-Request-ID'', ''r-1'')]"
  have "request_id ?os ?r empty_http = (''r-1'', empty_http)" by (simp add: request_id_def sample_request_def)
  moreover have "dispatch_route ?os (NewRouter sample_config) (inner_request ?os ?r ''r-1'') (id_response ''r-1'') empty_http =
      ((Some ''boom'', id_response ''r-1''), empty_http)"
    by (simp add: dispatch_route_def registerRoutes_def mem_http_os_def simple_match_def sample_request_def)
  ultimately show ?thesis using ServeHTTP_recovers [of ?os ?r empty_http "''r-1''" empty_http "NewRouter sample_config"] by fastforce
qed

theorem readyz_follows_flag_witness:
  "\<exists>hdr. wrote (snd (fst (ServeHTTP mem_http_os (SetReady True (NewRouter sample_config)) (sample_request ''GET'' ''/readyz'' [])
     empty_http))) = Some (200, hdr)"
  using readyz_follows_flag [OF mem_chi.chi_laws_axioms, of "sample_request ''GET'' ''/readyz'' []"
      "SetReady True (NewRouter sample_config)" empty_http]
  by (simp add: sample_request_def SetReady_def IsReady_def)

theorem access_log_without_tenant_witness:
  "\<exists>entry w0. snd (ServeHTTP mem_http_os (NewRouter sample_config)
     (sample_request ''GET'' ''/v1/dlq'' [(''X-Tenant-ID'', ''acme'')]) empty_http) = access_log mem_http_os entry w0 \<and>
     LogTenantID entry = []"
  using access_log_without_tenant [of "sample_request ''GET'' ''/v1/dlq'' [(''X-Tenant-ID'', ''acme'')]" mem_http_os
      "NewRouter sample_config" empty_http]
  by (auto simp: sample_request_def)

end
