(* ===== verification/Circuit_Breaker.thy ===== *)
theory Circuit_Breaker
  imports Go_Error
begin

text \<open>
  internal/adapters/email/circuit_breaker.go: the breaker in front of the email provider, its three
  operations, and the closed form of its state after any history of recorded results.
\<close>

record circuitBreaker =
  maxFailures :: i64
  openDuration :: duration
  consecutive :: i64
  openUntil :: go_time

definition newCircuitBreaker :: "i64 \<Rightarrow> duration \<Rightarrow> circuitBreaker" where
  "newCircuitBreaker m d = \<lparr>maxFailures = m, openDuration = d, consecutive = 0, openUntil = zero_time\<rparr>"

text \<open>The clock is read when the operation runs; \<open>now\<close> is that reading.\<close>

definition Allow :: "go_time \<Rightarrow> circuitBreaker \<Rightarrow> go_error option" where
  "Allow now b =
     (if openUntil b = zero_time \<or> openUntil b < now then None else Some (ESentinel ErrCircuitOpen))"

definition RecordSuccess :: "circuitBreaker \<Rightarrow> circuitBreaker" where
  "RecordSuccess b = b\<lparr>consecutive := 0, openUntil := zero_time\<rparr>"

definition RecordFailure :: "go_time \<Rightarrow> circuitBreaker \<Rightarrow> circuitBreaker" where
  "RecordFailure now b =
     (let b1 = b\<lparr>consecutive := consecutive b + 1\<rparr>
      in if consecutive b1 <s maxFailures b1 then b1
         else b1\<lparr>openUntil := time_add now (openDuration b1), consecutive := 0\<rparr>)"

subsection \<open>Histories\<close>

datatype cb_event = CBSuccess | CBFailure go_time

fun cb_apply :: "cb_event \<Rightarrow> circuitBreaker \<Rightarrow> circuitBreaker" where
  "cb_apply CBSuccess b = RecordSuccess b"
| "cb_apply (CBFailure t) b = RecordFailure t b"

definition cb_run :: "cb_event list \<Rightarrow> circuitBreaker \<Rightarrow> circuitBreaker" where
  "cb_run h b = fold cb_apply h b"

text \<open>The times of the failures since the last success.\<close>

fun streak :: "go_time list \<Rightarrow> cb_event list \<Rightarrow> go_time list" where
  "streak acc [] = acc"
| "streak acc (CBSuccess # h) = streak [] h"
| "streak acc (CBFailure t # h) = streak (acc @ [t]) h"

text \<open>
  The breaker, read off the streak: the failures are counted in groups of \<open>m\<close>; the last complete
  group decides until when it is open.
\<close>

definition cb_of_streak :: "nat \<Rightarrow> duration \<Rightarrow> go_time list \<Rightarrow> circuitBreaker" where
  "cb_of_streak m d ts =
     \<lparr>maxFailures = of_nat m, openDuration = d, consecutive = of_nat (length ts mod m),
      openUntil = (if length ts < m then zero_time else time_add (ts ! (m * (length ts div m) - 1)) d)\<rparr>"

lemma Suc_mod_cases:
  assumes "0 < m"
  shows "if Suc (n mod m) < m then Suc n mod m = Suc (n mod m) \<and> Suc n div m = n div m
    else Suc n mod m = 0 \<and> m * (Suc n div m) = Suc n"
proof (cases "Suc (n mod m) < m")
  case True
  then show ?thesis by (simp add: mod_Suc div_Suc)
next
  case False
  then have "Suc (n mod m) = m" using mod_less_divisor [OF assms, of n] by linarith
  then have "Suc n mod m = 0" by (simp add: mod_Suc)
  then show ?thesis using False by (metis mult_div_mod_eq add.right_neutral)
qed

lemma sint_small: "n < 2 ^ 63 \<Longrightarrow> sint (of_nat n :: i64) = int n"
  using sint_i64_of_int [of "int n"] by simp

lemma failure_streak:
  assumes "0 < m" "m < 2 ^ 62"
  shows "RecordFailure t (cb_of_streak m d ts) = cb_of_streak m d (ts @ [t])"
proof -
  let ?n = "length ts" and ?r = "length ts mod m"
  have r: "?r < m" using assms by simp
  have "(2::nat) ^ 62 < 2 ^ 63" by simp
  with r assms(2) have "Suc ?r < 2 ^ 63" "m < 2 ^ 63" by linarith+
  then have "sint (of_nat (Suc ?r) :: i64) = int (Suc ?r)" "sint (of_nat m :: i64) = int m"
    by (simp_all only: sint_small)
  then have less: "(of_nat ?r + 1 :: i64) <s of_nat m \<longleftrightarrow> Suc ?r < m"
    by (simp add: word_sless_alt add.commute) linarith
  note S = Suc_mod_cases [OF assms(1), of ?n]
  show ?thesis
  proof (cases "Suc ?r < m")
    case True
    with S have s: "Suc ?n mod m = Suc ?r" "Suc ?n div m = ?n div m" by simp_all
    have "openUntil (cb_of_streak m d (ts @ [t])) = openUntil (cb_of_streak m d ts)"
    proof (cases "?n < m")
      case True
      then have "Suc ?n < m" using \<open>Suc ?r < m\<close> by simp
      then show ?thesis by (simp add: cb_of_streak_def)
    next
      case False
      then have "m * (?n div m) - 1 < ?n"
        using assms(1) times_div_less_eq_dividend [of m ?n] by linarith
      then show ?thesis using False s by (simp add: cb_of_streak_def nth_append)
    qed
    then show ?thesis using True less s
      by (simp add: RecordFailure_def cb_of_streak_def Let_def)
  next
    case False
    with S have s: "Suc ?n mod m = 0" "m * (Suc ?n div m) = Suc ?n" by simp_all
    then have "\<not> Suc ?n < m" using assms(1) by (metis mod_less nat.distinct(1))
    then show ?thesis using False less s
      by (simp add: RecordFailure_def cb_of_streak_def Let_def nth_append)
  qed
qed

lemma success_streak: "0 < m \<Longrightarrow> RecordSuccess (cb_of_streak m d ts) = cb_of_streak m d []"
  by (simp add: RecordSuccess_def cb_of_streak_def)

lemma cb_run_streak:
  assumes "0 < m" "m < 2 ^ 62"
  shows "cb_run h (cb_of_streak m d acc) = cb_of_streak m d (streak acc h)"
  by (induction acc h rule: streak.induct)
    (simp_all add: cb_run_def failure_streak [OF assms] success_streak [OF assms(1)])

lemma new_streak: "0 < m \<Longrightarrow> newCircuitBreaker (of_nat m) d = cb_of_streak m d []"
  by (simp add: newCircuitBreaker_def cb_of_streak_def)

subsection \<open>Properties\<close>

text \<open>C35: The breaker after any history: started fresh with threshold m, it rejects a call at time \<open>now\<close> exactly if
  at least m failures were recorded since the last success and the open window, counted from the failure that
  completed the last full group of m, has not passed. One success closes it and clears the count.\<close>

theorem circuit_breaker_history:
  assumes "0 < m" and "m < 2 ^ 62" and "\<forall>t \<in> set (streak [] h). time_add t d \<noteq> zero_time"
  shows "Allow now (cb_run h (newCircuitBreaker (of_nat m) d)) =
    (let ts = streak [] h in
     if m \<le> length ts \<and> now \<le> time_add (ts ! (m * (length ts div m) - 1)) d
     then Some (ESentinel ErrCircuitOpen) else None)"
proof -
  let ?ts = "streak [] h"
  have "m * (length ?ts div m) - 1 < length ?ts" if "m \<le> length ?ts"
    using that assms(1) times_div_less_eq_dividend [of m "length ?ts"] by linarith
  then have "time_add (?ts ! (m * (length ?ts div m) - 1)) d \<noteq> zero_time" if "m \<le> length ?ts"
    using that assms(3) nth_mem by blast
  moreover have "cb_run h (newCircuitBreaker (of_nat m) d) = cb_of_streak m d ?ts"
    by (simp only: new_streak [OF assms(1)] cb_run_streak [OF assms(1,2)])
  ultimately show ?thesis by (auto simp: Allow_def cb_of_streak_def Let_def)
qed

theorem circuit_breaker_history_witness:
  "Allow 35 (cb_run [CBSuccess, CBFailure 1, CBFailure 2, CBFailure 3] (newCircuitBreaker 2 30)) = None \<and>
   Allow 32 (cb_run [CBSuccess, CBFailure 1, CBFailure 2, CBFailure 3] (newCircuitBreaker 2 30)) =
     Some (ESentinel ErrCircuitOpen)"
  using circuit_breaker_history [of 2 "[CBSuccess, CBFailure 1, CBFailure 2, CBFailure 3]" 30 35]
    circuit_breaker_history [of 2 "[CBSuccess, CBFailure 1, CBFailure 2, CBFailure 3]" 30 32]
  by (simp add: time_add_def zero_time_def)

end
