(* ===== verification/Producer.thy ===== *)
theory Producer
  imports Idempotency
begin

text \<open>
  internal/adapters/redis/producer.go and stream_entry.go: writing tasks to the priority streams
  and to the delayed set. The span context the tracer hands out is an argument (\<open>None\<close> when it
  is not valid). Operations that write to the task return it.
\<close>

definition delayedQueueKey :: string where
  "delayedQueueKey = ''queue:email:delayed''"

text \<open>\<open>UnixNano\<close> is an \<open>int64\<close>.\<close>

definition unix_nano :: "go_time \<Rightarrow> i64" where
  "unix_nano t = word_of_int t"

definition XAddValuesBuilder :: "EmailTask \<Rightarrow> jtext \<Rightarrow> (string, jtext) fmap" where
  "XAddValuesBuilder task payload = fmap_of_list
     [(''id'', Raw (ID task)),
      (''payload'', payload),
      (''enqueued_at'', Raw (show_int (sint (unix_nano (EnqueuedAt task))))),
      (''tenant_id'', Raw (TenantID task)),
      (''task_type'', Raw (Type task)),
      (''priority'', Raw (Priority_String (Priority task))),
      (''attempt'', Raw (show_int (sint (Attempt task)))),
      (''trace_id'', Raw (TraceID task))]"

definition MarshalTaskPayload :: "EmailTask \<Rightarrow> go_error + jtext" where
  "MarshalTaskPayload task =
     (case json_Marshal_task task of
        Inl err \<Rightarrow> Inl (EWrap (''redis: marshal task '' @ ID task) err)
      | Inr b \<Rightarrow> Inr b)"

definition xadd_cmd :: "EmailTask \<Rightarrow> jtext \<Rightarrow> rcmd" where
  "xadd_cmd task payload = XADD (QueueName (Priority task)) (XAddValuesBuilder task payload)"

definition enqueued_metric :: "EmailTask \<Rightarrow> metric" where
  "enqueued_metric task = RecordEnqueued (TenantID task) (Type task) (Priority_String (Priority task))"

definition set_span :: "(string \<times> string) option \<Rightarrow> EmailTask \<Rightarrow> EmailTask" where
  "set_span spanCtx task =
     (case spanCtx of None \<Rightarrow> task | Some (tid, sid) \<Rightarrow> task\<lparr>TraceID := tid, SpanID := sid\<rparr>)"

definition Enqueue ::
  "'s env \<Rightarrow> (string \<times> string) option \<Rightarrow> EmailTask \<Rightarrow> 's \<Rightarrow> (go_error option \<times> EmailTask) \<times> 's" where
  "Enqueue e spanCtx task s =
     (case Validate task of
        Some err \<Rightarrow> ((Some err, task), s)
      | None \<Rightarrow>
          let (cerr, s1) = ctx_err e s in
          if cerr \<noteq> None then ((cerr, task), s1)
          else let task = set_span spanCtx task in
            case MarshalTaskPayload task of
              Inl err \<Rightarrow> ((Some (EWrap ''producer'' err), task), s1)
            | Inr payload \<Rightarrow>
                let (r, s2) = env_client e (xadd_cmd task payload) s1 in
                case reply_err r of
                  Some err \<Rightarrow>
                    let (cerr, s3) = ctx_err e s2 in
                    if cerr \<noteq> None then ((cerr, task), s3)
                    else ((Some (EWrap (''producer: enqueue task '' @ ID task) err), task), s3)
                | None \<Rightarrow> ((None, task), record_metric e (enqueued_metric task) s2))"

definition batch_error :: "EmailTask \<Rightarrow> go_error \<Rightarrow> go_error" where
  "batch_error task err = EWrap (''task '' @ ID task) err"

definition validation_errors :: "EmailTask list \<Rightarrow> go_error list" where
  "validation_errors tasks =
     concat (map (\<lambda>t. case Validate t of None \<Rightarrow> [] | Some err \<Rightarrow> [batch_error t err]) tasks)"

text \<open>The loop over the tasks that stops at the first one that does not marshal.\<close>

fun marshal_all :: "EmailTask list \<Rightarrow> go_error + jtext list" where
  "marshal_all [] = Inr []"
| "marshal_all (t # ts) =
     (case MarshalTaskPayload t of
        Inl err \<Rightarrow> Inl (EWrap ''producer'' err)
      | Inr p \<Rightarrow> (case marshal_all ts of Inl err \<Rightarrow> Inl err | Inr ps \<Rightarrow> Inr (p # ps)))"

definition exec_errors :: "EmailTask list \<Rightarrow> (go_error + reply) list \<Rightarrow> go_error list" where
  "exec_errors tasks results =
     concat (map2 (\<lambda>t r. case reply_err r of None \<Rightarrow> [] | Some err \<Rightarrow> [batch_error t err]) tasks results)"

definition EnqueueBatch :: "'s env \<Rightarrow> EmailTask list \<Rightarrow> 's \<Rightarrow> go_error option \<times> 's" where
  "EnqueueBatch e tasks s =
     (if tasks = [] then (None, s)
      else if validation_errors tasks \<noteq> [] then (Some (EMulti (validation_errors tasks)), s)
      else let (cerr, s1) = ctx_err e s in
        if cerr \<noteq> None then (cerr, s1)
        else case marshal_all tasks of
            Inl err \<Rightarrow> (Some err, s1)
          | Inr payloads \<Rightarrow>
              let (results, s2) = pipe_exec e (map2 xadd_cmd tasks payloads) s1;
                  (cerr, s3) = (if pipe_err results \<noteq> None then ctx_err e s2 else (None, s2))
              in if cerr \<noteq> None then (cerr, s3)
                 else if exec_errors tasks results \<noteq> [] then (Some (EMulti (exec_errors tasks results)), s3)
                 else (None, fold (\<lambda>t. record_metric e (enqueued_metric t)) tasks s3))"

text \<open>The score of a sorted set entry: \<open>float64(t.Unix())\<close>.\<close>

definition unix_score :: "go_time \<Rightarrow> f64" where
  "unix_score t = f64_of_i64 (word_of_int (time_unix t))"

definition EnqueueDelayed ::
  "'s env \<Rightarrow> EmailTask \<Rightarrow> duration \<Rightarrow> 's \<Rightarrow> (go_error option \<times> EmailTask) \<times> 's" where
  "EnqueueDelayed e task delay s =
     (case Validate task of
        Some err \<Rightarrow> ((Some err, task), s)
      | None \<Rightarrow>
          let (cerr, s1) = ctx_err e s in
          if cerr \<noteq> None then ((cerr, task), s1)
          else let (now, s2) = time_now e s1; scheduledTime = time_add now delay;
                   task = task\<lparr>ScheduledFor := Some scheduledTime\<rparr> in
            case json_Marshal_task task of
              Inl err \<Rightarrow> ((Some (EWrap (''producer: marshal task '' @ ID task) err), task), s2)
            | Inr payload \<Rightarrow>
                let (r, s3) = env_client e (ZADD delayedQueueKey (unix_score scheduledTime) payload) s2 in
                case reply_err r of
                  Some err \<Rightarrow>
                    let (cerr, s4) = ctx_err e s3 in
                    if cerr \<noteq> None then ((cerr, task), s4)
                    else ((Some (EWrap (''producer: enqueue delayed task '' @ ID task) err), task), s4)
                | None \<Rightarrow> ((None, task), s3))"

subsection \<open>What the producer does to the key space\<close>

lemma add_entries_Nil [simp]: "add_entries [] st = st"
  by (simp add: add_entries_def)

lemma upd_stream_id [simp]: "upd_stream key (\<lambda>st. st) k = k" "upd_stream key (add_entries []) k = k"
  by (simp_all add: upd_stream_def)

lemma set_span_other [simp]:
  "Priority (set_span c t) = Priority t" "ID (set_span c t) = ID t" "Type (set_span c t) = Type t"
  "TenantID (set_span c t) = TenantID t" "Recipient (set_span c t) = Recipient t"
  "MaxAttempts (set_span c t) = MaxAttempts t" "Attempt (set_span c t) = Attempt t"
  by (simp_all add: set_span_def split: option.split)

lemma valid_task_set_span [simp]: "valid_task (set_span c t) = valid_task t"
  by (simp add: valid_task_def)

lemma payload_field [simp]: "fmlookup (XAddValuesBuilder t p) ''payload'' = Some p"
  by (simp add: XAddValuesBuilder_def fmlookup_of_list)

text \<open>Messages that carry a task: the field map the builder makes of it.\<close>

definition carries :: "EmailTask \<Rightarrow> stream_msg \<Rightarrow> bool" where
  "carries t m \<longleftrightarrow> (\<exists>p. json_Marshal_task t = Inr p \<and> MsgValues m = XAddValuesBuilder t p)"

lemma MarshalTaskPayload_Inr [simp]: "MarshalTaskPayload t = Inr p \<longleftrightarrow> json_Marshal_task t = Inr p"
  by (auto simp: MarshalTaskPayload_def split: sum.splits)

context redis_env begin

lemma xadd_spec:
  assumes "env_client e (xadd_cmd t p) s = (r, s')" and "json_Marshal_task t = Inr p"
  shows "\<exists>ms. ks s' = upd_stream (QueueName (Priority t)) (add_entries ms) (ks s) \<and>
    (\<forall>m \<in> set ms. carries t m) \<and> (\<forall>x. r = Inr x \<longrightarrow> ms \<noteq> [])"
proof (cases r)
  case (Inl er)
  with client_effs [OF assms(1)] xadd_effs [of "QueueName (Priority t)" "XAddValuesBuilder t p"] assms(2)
  show ?thesis by (fastforce simp: xadd_cmd_def carries_def)
next
  case (Inr x)
  then obtain k where k: "redis_effs (xadd_cmd t p) (ks s) k" "redis_ok (xadd_cmd t p) k x (ks s')"
    using client_ok assms(1) by blast
  obtain ms where ms: "k = upd_stream (QueueName (Priority t)) (add_entries ms) (ks s)"
    "\<forall>m \<in> set ms. MsgValues m = XAddValuesBuilder t p"
    using xadd_effs k(1) unfolding xadd_cmd_def by blast
  obtain i where "ks s' = upd_stream (QueueName (Priority t))
      (\<lambda>st. st\<lparr>entries := entries st @ [\<lparr>MsgID = i, MsgValues = XAddValuesBuilder t p\<rparr>]\<rparr>) k"
    using k(2) by (auto simp: xadd_cmd_def)
  then have "ks s' = upd_stream (QueueName (Priority t))
      (add_entries (ms @ [\<lparr>MsgID = i, MsgValues = XAddValuesBuilder t p\<rparr>])) (ks s)"
    by (simp add: ms(1) upd_stream_def add_entries_def)
  then show ?thesis using ms(2) assms(2)
    by (intro exI [of _ "ms @ [\<lparr>MsgID = i, MsgValues = XAddValuesBuilder t p\<rparr>]"]) (auto simp: carries_def)
qed

lemma Enqueue_spec:
  assumes "Enqueue e sp task s = ((err, task'), s')"
  shows "\<exists>ms. ks s' = upd_stream (QueueName (Priority task)) (add_entries ms) (ks s) \<and>
    (\<forall>m \<in> set ms. carries task' m) \<and> task' \<in> {task, set_span sp task} \<and>
    (err = None \<longrightarrow> ms \<noteq> [] \<and> valid_task task \<and> task' = set_span sp task)"
proof (cases "Validate task")
  case (Some er)
  show ?thesis using assms by (intro exI [of _ "[]"]) (auto simp: Enqueue_def Some)
next
  case None
  obtain c s1 where c: "ctx_err e s = (c, s1)" by fastforce
  then have k1: "ks s1 = ks s" by (rule ctx_ks)
  let ?t = "set_span sp task"
  consider (cancelled) "c \<noteq> None" | (marshal) er where "c = None" "MarshalTaskPayload ?t = Inl er"
    | (ok) p where "c = None" "MarshalTaskPayload ?t = Inr p"
    by (cases "MarshalTaskPayload ?t") auto
  then show ?thesis
  proof cases
    case cancelled
    then show ?thesis using assms None c k1
      by (intro exI [of _ "[]"]) (auto simp: Enqueue_def)
  next
    case marshal
    then show ?thesis using assms None c k1
      by (intro exI [of _ "[]"]) (auto simp: Enqueue_def)
  next
    case (ok p)
    note mp = ok(2)
    then have p: "json_Marshal_task ?t = Inr p" by simp
    obtain r s2 where r: "env_client e (xadd_cmd ?t p) s1 = (r, s2)" by fastforce
    from xadd_spec [OF this p] obtain ms where
      ms: "ks s2 = upd_stream (QueueName (Priority task)) (add_entries ms) (ks s)"
        "\<forall>m \<in> set ms. carries ?t m" "\<forall>x. r = Inr x \<longrightarrow> ms \<noteq> []"
      by (auto simp: k1)
    show ?thesis
    proof (cases r)
      case (Inl er)
      obtain c2 s3 where c2: "ctx_err e s2 = (c2, s3)" by fastforce
      then have "ks s3 = ks s2" by (rule ctx_ks)
      with assms None c ok r Inl c2 ms show ?thesis
        by (intro exI [of _ ms]) (auto simp: Enqueue_def Let_def split: if_splits)
    next
      case (Inr x)
      with assms None c ok r ms show ?thesis
        by (intro exI [of _ ms]) (auto simp: Enqueue_def Let_def simp flip: Validate_None_iff)
    qed
  qed
qed

end

text \<open>C28: \<open>Enqueue\<close> and durability: if it returns nil, the task was valid and its stream holds at least one
  new message built from the task as it now is; if it returns an error, the stream of the task's
  priority is as it was or has gained messages built from this task (a lost reply), never
  anything else. Whatever happens, no other stream and no other key changes and no message is lost.\<close>

theorem Enqueue_durable:
  assumes "redis_env e ks" and "Enqueue e sp task s = ((err, task'), s')"
  shows "\<exists>ms. ks s' = upd_stream (QueueName (Priority task)) (add_entries ms) (ks s) \<and>
    (\<forall>m \<in> set ms. carries task' m) \<and>
    (err = None \<longrightarrow> ms \<noteq> [] \<and> Validate task = None \<and> task' = set_span sp task)"
  using redis_env.Enqueue_spec [OF assms] by (metis Validate_None_iff)

subsection \<open>Batches\<close>

text \<open>Key spaces that differ only by messages appended to streams.\<close>

definition grows :: "keyspace \<Rightarrow> keyspace \<Rightarrow> bool" where
  "grows k k' \<longleftrightarrow>
     (\<forall>key. \<exists>ms. streams k' key = add_entries ms (streams k key)) \<and> k' = k\<lparr>streams := streams k'\<rparr>"

lemma grows_refl [simp]: "grows k k"
  by (auto simp: grows_def intro: exI [of _ "[]"])

lemma grows_trans: "grows k k' \<Longrightarrow> grows k' k'' \<Longrightarrow> grows k k''"
  unfolding grows_def
proof (intro conjI allI; elim conjE)
  fix key
  assume "\<forall>key. \<exists>ms. streams k' key = add_entries ms (streams k key)"
    and "\<forall>key. \<exists>ms. streams k'' key = add_entries ms (streams k' key)"
  then obtain ms ms' where "streams k'' key = add_entries ms' (add_entries ms (streams k key))" by metis
  then have "streams k'' key = add_entries (ms @ ms') (streams k key)" by (simp add: add_entries_def)
  then show "\<exists>ms. streams k'' key = add_entries ms (streams k key)" ..
next
  assume "k' = k\<lparr>streams := streams k'\<rparr>" and "k'' = k'\<lparr>streams := streams k''\<rparr>"
  then show "k'' = k\<lparr>streams := streams k''\<rparr>"
    by (metis keyspace.surjective keyspace.update_convs(1) keyspace.select_convs)
qed

lemma grows_upd_stream: "grows k (upd_stream key (add_entries ms) k)"
  by (auto simp: grows_def upd_stream_def intro: exI [of _ "[]"])

definition queued :: "EmailTask \<Rightarrow> keyspace \<Rightarrow> bool" where
  "queued t k \<longleftrightarrow> (\<exists>m \<in> set (entries (streams k (QueueName (Priority t)))). carries t m)"

lemma queued_grows: "queued t k \<Longrightarrow> grows k k' \<Longrightarrow> queued t k'"
  unfolding queued_def grows_def by (metis (no_types) add_entries_def redis_stream.select_convs(1)
      redis_stream.surjective redis_stream.update_convs(1) in_set_conv_decomp append_assoc append_Cons)

context redis_env begin

lemma xadd_pipe:
  assumes "pipe_exec e (map2 xadd_cmd ts ps) s = (rs, s')" and "marshal_all ts = Inr ps"
  shows "grows (ks s) (ks s') \<and> (exec_errors ts rs = [] \<longrightarrow> (\<forall>t \<in> set ts. queued t (ks s')))"
  using assms
proof (induction ts arbitrary: ps s rs)
  case Nil
  then show ?case by simp
next
  case (Cons t ts)
  then obtain p ps' where p: "json_Marshal_task t = Inr p" and ps: "marshal_all ts = Inr ps'" "ps = p # ps'"
    by (auto split: sum.splits)
  obtain r s1 where r: "env_client e (xadd_cmd t p) s = (r, s1)" by fastforce
  obtain rs' where rs: "pipe_exec e (map2 xadd_cmd ts ps') s1 = (rs', s')" "rs = r # rs'"
    using Cons.prems(1) r ps(2) by (auto simp: Let_def split: prod.splits)
  obtain ms where ms: "ks s1 = upd_stream (QueueName (Priority t)) (add_entries ms) (ks s)"
    "\<forall>m \<in> set ms. carries t m" "\<forall>x. r = Inr x \<longrightarrow> ms \<noteq> []"
    using xadd_spec [OF r p] by blast
  have g: "grows (ks s) (ks s1)" unfolding ms(1) by (rule grows_upd_stream)
  note IH = Cons.IH [OF rs(1) ps(1)]
  have "queued t (ks s1)" if "r = Inr x" for x
  proof -
    from ms(2,3) that obtain m where "m \<in> set ms" "carries t m" by (cases ms) auto
    then show ?thesis by (auto simp: queued_def ms(1) upd_stream_def add_entries_def)
  qed
  then have "exec_errors (t # ts) rs = [] \<longrightarrow> queued t (ks s')"
    using IH by (cases r) (auto simp: exec_errors_def rs(2) intro: queued_grows)
  moreover have "exec_errors (t # ts) rs = [] \<longrightarrow> exec_errors ts rs' = []"
    by (simp add: exec_errors_def rs(2))
  ultimately show ?case using g IH grows_trans by auto
qed

lemma metric_fold_ks [simp]: "ks (fold (\<lambda>t. record_metric e (f t)) ts s) = ks s"
  by (induction ts arbitrary: s) auto

lemma EnqueueBatch_spec:
  assumes "EnqueueBatch e ts s = (err, s')"
  shows "grows (ks s) (ks s') \<and>
    (validation_errors ts \<noteq> [] \<longrightarrow> err = Some (EMulti (validation_errors ts)) \<and> s' = s) \<and>
    (err = None \<longrightarrow> (\<forall>t \<in> set ts. queued t (ks s')))"
proof (cases "ts = [] \<or> validation_errors ts \<noteq> []")
  case True
  moreover have "validation_errors [] = []" by (simp add: validation_errors_def)
  ultimately show ?thesis using assms
    by (cases "ts = []"; simp add: EnqueueBatch_def; blast?)
next
  case False
  obtain c s1 where c: "ctx_err e s = (c, s1)" by fastforce
  then have k1: "ks s1 = ks s" by (rule ctx_ks)
  show ?thesis
  proof (cases "c = None \<and> (\<exists>ps. marshal_all ts = Inr ps)")
    case no: False
    then show ?thesis using assms False c k1
      by (auto simp: EnqueueBatch_def Let_def split: sum.splits if_splits)
  next
    case True
    then obtain ps where ps: "marshal_all ts = Inr ps" by blast
    obtain rs s2 where rs: "pipe_exec e (map2 xadd_cmd ts ps) s1 = (rs, s2)" by fastforce
    note X = xadd_pipe [OF rs ps, unfolded k1]
    obtain c2 s3 where c2: "(if pipe_err rs \<noteq> None then ctx_err e s2 else (None, s2)) = (c2, s3)" by fastforce
    then have "ks s3 = ks s2" using ctx_ks by (auto split: if_splits)
    with X assms False c True ps rs c2 show ?thesis
      by (auto simp: EnqueueBatch_def Let_def split: if_splits)
  qed
qed

end

text \<open>C29: \<open>EnqueueBatch\<close>: an invalid task aborts the whole batch before anything happens: the state is as before, and the
  \<open>MultiError\<close> holds, in the order of the batch and for exactly the invalid tasks, the error of that task's own validation wrapped
  with its ID. If the call returns nil, every task of the batch has a message in the stream of its priority; and in every case the
  batch only appends messages.\<close>

theorem EnqueueBatch_atomic_validation:
  assumes "redis_env e ks" and "EnqueueBatch e ts s = (err, s')"
  shows "grows (ks s) (ks s') \<and>
    ((\<exists>t. t \<in> set ts \<and> Validate t \<noteq> None) \<longrightarrow> s' = s \<and>
       (\<exists>errs. err = Some (EMulti errs) \<and>
          list_all2 (\<lambda>t er. \<exists>v. Validate t = Some v \<and> er = EWrap (''task '' @ ID t) v)
            (filter (\<lambda>t. Validate t \<noteq> None) ts) errs)) \<and>
    (err = None \<longrightarrow> (\<forall>t. t \<in> set ts \<longrightarrow> queued t (ks s')))"
proof -
  have "list_all2 (\<lambda>t er. \<exists>v. Validate t = Some v \<and> er = EWrap (''task '' @ ID t) v)
      (filter (\<lambda>t. Validate t \<noteq> None) ts) (validation_errors ts)"
    by (induction ts) (auto simp: validation_errors_def batch_error_def split: option.split)
  moreover have "(\<exists>t. t \<in> set ts \<and> Validate t \<noteq> None) \<longleftrightarrow> validation_errors ts \<noteq> []"
    by (auto simp: validation_errors_def split: option.splits)
  ultimately show ?thesis using redis_env.EnqueueBatch_spec [OF assms] by auto
qed

subsection \<open>Delayed tasks\<close>

context redis_env begin

lemma EnqueueDelayed_spec:
  assumes "EnqueueDelayed e task delay s = ((err, task'), s')"
  shows "(ks s' = ks s \<or> (\<exists>sc p. json_Marshal_task task' = Inr p \<and>
       ks s' = upd_zset delayedQueueKey (zadd sc p) (ks s))) \<and>
    (err = None \<longrightarrow> valid_task task \<and> (\<exists>sc p now. json_Marshal_task task' = Inr p \<and>
       task' = task\<lparr>ScheduledFor := Some (time_add now delay)\<rparr> \<and> sc = unix_score (time_add now delay) \<and>
       ks s' = upd_zset delayedQueueKey (zadd sc p) (ks s)))"
proof (cases "Validate task")
  case (Some er)
  show ?thesis using assms by (auto simp: EnqueueDelayed_def Some)
next
  case None
  obtain c s1 where c: "ctx_err e s = (c, s1)" by fastforce
  obtain now s2 where n: "time_now e s1 = (now, s2)" by fastforce
  have k: "ks s1 = ks s" "ks s2 = ks s" using ctx_ks [OF c] now_ks [OF n] by simp_all
  let ?t = "task\<lparr>ScheduledFor := Some (time_add now delay)\<rparr>" and ?sc = "unix_score (time_add now delay)"
  consider (cancelled) "c \<noteq> None" | (marshal) er where "c = None" "json_Marshal_task ?t = Inl er"
    | (ok) p where "c = None" "json_Marshal_task ?t = Inr p"
    by (cases "json_Marshal_task ?t") auto
  then show ?thesis
  proof cases
    case cancelled
    then show ?thesis using assms None c k by (auto simp: EnqueueDelayed_def)
  next
    case marshal
    then show ?thesis using assms None c n k by (auto simp: EnqueueDelayed_def)
  next
    case (ok p)
    let ?c = "ZADD delayedQueueKey ?sc p"
    obtain r s3 where r: "env_client e ?c s2 = (r, s3)" by fastforce
    obtain c2 s4 where c2: "ctx_err e s3 = (c2, s4)" by fastforce
    have k4: "ks s4 = ks s3" by (rule ctx_ks [OF c2])
    have E: "ks s3 = ks s \<or> ks s3 = upd_zset delayedQueueKey (zadd ?sc p) (ks s)"
      using zadd_effs [OF client_effs [OF r]] k by simp
    show ?thesis
    proof (cases r)
      case (Inl er)
      then have "s' = s4" "err \<noteq> None" "task' = ?t"
        using assms None c n ok r c2 by (auto simp: EnqueueDelayed_def Let_def split: if_splits)
      then show ?thesis using E k4 ok by auto
    next
      case (Inr x)
      then obtain k' where "redis_effs ?c (ks s) k'" "redis_ok ?c k' x (ks s3)"
        using client_ok [of ?c s2 x s3] r k by auto
      then have "ks s3 = upd_zset delayedQueueKey (zadd ?sc p) (ks s)"
        using zadd_effs [of delayedQueueKey ?sc p "ks s" k'] by (auto simp: upd_zset_idem)
      moreover have "s' = s3" "err = None" "task' = ?t"
        using assms None c n ok r Inr by (auto simp: EnqueueDelayed_def)
      ultimately show ?thesis using ok None by (auto simp: Validate_None_iff)
    qed
  qed
qed

end

theorem Enqueue_durable_witness:
  "\<exists>ms. mem_ks (snd (Enqueue (mem_env True) None sample_task (sample_world Map.empty [Resent]))) =
     upd_stream ''{queue}:email:normal'' (add_entries ms) (mem_ks (sample_world Map.empty [Resent]))"
proof -
  obtain err t' s' where "Enqueue (mem_env True) None sample_task (sample_world Map.empty [Resent]) = ((err, t'), s')"
    by (metis prod.exhaust)
  from this Enqueue_durable [OF mem_env.redis_env_axioms this] show ?thesis
    by (auto simp: QueueName_def Priority_String_def)
qed

theorem EnqueueBatch_atomic_validation_witness:
  "\<exists>v. Validate (sample_task\<lparr>Recipient := []\<rparr>) = Some v \<and>
     EnqueueBatch (mem_env True) [sample_task, sample_task\<lparr>Recipient := []\<rparr>] (sample_world Map.empty []) =
       (Some (EMulti [EWrap (''task '' @ ID sample_task) v]), sample_world Map.empty [])"
proof -
  let ?bad = "sample_task\<lparr>Recipient := []\<rparr>"
  obtain err s' where r: "EnqueueBatch (mem_env True) [sample_task, ?bad] (sample_world Map.empty []) = (err, s')" by fastforce
  have "Validate ?bad \<noteq> None" "Validate sample_task = None"
    by (simp add: Validate_def) (simp add: Validate_None_iff valid_task_def TaskType_IsValid_iff Priority_IsValid_iff)
  with EnqueueBatch_atomic_validation [OF mem_env.redis_env_axioms r] r show ?thesis
    by (auto simp: list_all2_Cons1)
qed

end
