(* ===== verification/Consumer.thy ===== *)
theory Consumer
  imports Producer
begin

text \<open>
  internal/adapters/redis/consumer.go: reading tasks from the four priority streams through a
  consumer group, acknowledging them, and reclaiming the ones a crashed worker left pending.
\<close>

definition priorityStreams :: "string list" where
  "priorityStreams =
     [QueueName PriorityCritical, QueueName PriorityHigh, QueueName PriorityNormal, QueueName PriorityLow]"

definition metaStreamID :: string where "metaStreamID = ''_stream_id''"
definition metaStreamKey :: string where "metaStreamKey = ''_stream_key''"

definition claimBatchSize :: nat where "claimBatchSize = 100"

definition isBusyGroup :: "go_error \<Rightarrow> bool" where
  "isBusyGroup err \<longleftrightarrow> Contains (Error err) ''BUSYGROUP''"

definition isNoGroup :: "go_error \<Rightarrow> bool" where
  "isNoGroup err \<longleftrightarrow> Contains (Error err) ''NOGROUP''"

definition ensureConsumerGroup :: "'s env \<Rightarrow> string \<Rightarrow> string \<Rightarrow> 's \<Rightarrow> go_error option \<times> 's" where
  "ensureConsumerGroup e streamKey g s =
     (let (r, s1) = env_client e (XGROUP_CREATE streamKey g) s in
      case reply_err r of
        None \<Rightarrow> (None, s1)
      | Some err \<Rightarrow>
          if \<not> isBusyGroup err
          then (Some (EWrap (''consumer: create group '' @ go_quote g @ '' on '' @ go_quote streamKey) err), s1)
          else (None, s1))"

fun ensureGroups :: "'s env \<Rightarrow> string list \<Rightarrow> string \<Rightarrow> 's \<Rightarrow> go_error option \<times> 's" where
  "ensureGroups e [] g s = (None, s)"
| "ensureGroups e (k # ks) g s =
     (let (err, s1) = ensureConsumerGroup e k g s in
      if err \<noteq> None then (err, s1) else ensureGroups e ks g s1)"

definition taskFromMessage :: "string \<Rightarrow> stream_msg \<Rightarrow> go_error + EmailTask" where
  "taskFromMessage streamKey msg =
     (case fmlookup (MsgValues msg) ''payload'' of
        None \<Rightarrow> Inl (ENew (''message '' @ MsgID msg @ '' missing 'payload' field''))
      | Some payloadStr \<Rightarrow>
          (case json_Unmarshal_task payloadStr of
             Inl err \<Rightarrow> Inl (EWrap (''message '' @ MsgID msg @ '': unmarshal'') err)
           | Inr task \<Rightarrow>
               Inr (metadata_set metaStreamKey streamKey (metadata_set metaStreamID (MsgID msg) task))))"

text \<open>
  Sending on the task channel, or giving up because the context is done, is an argument:
  \<open>send task\<close> answers whether the task was sent.
\<close>

fun deliver_msgs ::
  "(EmailTask \<Rightarrow> 's \<Rightarrow> bool \<times> 's) \<Rightarrow> string \<Rightarrow> stream_msg list \<Rightarrow> 's \<Rightarrow> bool \<times> 's" where
  "deliver_msgs send streamKey [] s = (True, s)"
| "deliver_msgs send streamKey (msg # msgs) s =
     (case taskFromMessage streamKey msg of
        Inl parseErr \<Rightarrow> deliver_msgs send streamKey msgs s
      | Inr task \<Rightarrow>
          let (sent, s1) = send task s in
          if sent then deliver_msgs send streamKey msgs s1 else (False, s1))"

fun deliver_streams ::
  "(EmailTask \<Rightarrow> 's \<Rightarrow> bool \<times> 's) \<Rightarrow> (string \<times> stream_msg list) list \<Rightarrow> 's \<Rightarrow> bool \<times> 's" where
  "deliver_streams send [] s = (True, s)"
| "deliver_streams send ((streamKey, msgs) # rest) s =
     (let (go, s1) = deliver_msgs send streamKey msgs s in
      if go then deliver_streams send rest s1 else (False, s1))"

text \<open>One round of the loop of \<open>pollLoop\<close>: whether the loop goes on.\<close>

definition poll_round ::
  "'s env \<Rightarrow> Config \<Rightarrow> (EmailTask \<Rightarrow> 's \<Rightarrow> bool \<times> 's) \<Rightarrow> 's \<Rightarrow> bool \<times> 's" where
  "poll_round e cfg send s =
     (let g = ConsumerGroup (CfgWorker cfg); consumer = ConsumerName (CfgWorker cfg);
          (cerr, s1) = ctx_err e s in
      if cerr \<noteq> None then (False, s1)
      else let (r, s2) = env_client e
             (XREADGROUP g consumer priorityStreams 10 (BlockTimeout (CfgWorker cfg))) s1 in
        case reply_streams r of
          Inl err \<Rightarrow>
            let (cerr, s3) = ctx_err e s2 in
            if cerr \<noteq> None then (False, s3)
            else if isNoGroup err
            then (True, fold (\<lambda>k s. snd (ensureConsumerGroup e k g s)) priorityStreams s3)
            else (True, s3)
        | Inr ss \<Rightarrow> deliver_streams send ss s2)"

text \<open>The loop for \<open>n\<close> rounds; it stops early when a round says so.\<close>

fun pollLoop ::
  "nat \<Rightarrow> 's env \<Rightarrow> Config \<Rightarrow> (EmailTask \<Rightarrow> 's \<Rightarrow> bool \<times> 's) \<Rightarrow> 's \<Rightarrow> bool \<times> 's" where
  "pollLoop 0 e cfg send s = (True, s)"
| "pollLoop (Suc n) e cfg send s =
     (let (go, s1) = poll_round e cfg send s in if go then pollLoop n e cfg send s1 else (False, s1))"

text \<open>\<open>Consume\<close> up to the start of the loop: the groups exist before the channel is handed out.\<close>

definition Consume :: "'s env \<Rightarrow> Config \<Rightarrow> 's \<Rightarrow> go_error option \<times> 's" where
  "Consume e cfg s = ensureGroups e priorityStreams (ConsumerGroup (CfgWorker cfg)) s"

definition Acknowledge :: "'s env \<Rightarrow> Config \<Rightarrow> EmailTask \<Rightarrow> 's \<Rightarrow> go_error option \<times> 's" where
  "Acknowledge e cfg task s =
     (let streamKey = metadata_get task metaStreamKey; msgID = metadata_get task metaStreamID;
          (r, s1) = env_client e (XACK streamKey (ConsumerGroup (CfgWorker cfg)) msgID) s in
      case reply_err r of
        None \<Rightarrow> (None, s1)
      | Some err \<Rightarrow> (Some (EWrap (''consumer: XACK stream='' @ streamKey @ '' id='' @ msgID) err), s1))"

text \<open>\<open>Nack\<close> only logs.\<close>

definition Nack :: "EmailTask \<Rightarrow> go_error \<Rightarrow> 's \<Rightarrow> go_error option \<times> 's" where
  "Nack task reason s = (None, s)"

definition parsed :: "string \<Rightarrow> stream_msg list \<Rightarrow> EmailTask list" where
  "parsed streamKey msgs =
     concat (map (\<lambda>m. case taskFromMessage streamKey m of Inl _ \<Rightarrow> [] | Inr t \<Rightarrow> [t]) msgs)"

fun claim_streams ::
  "'s env \<Rightarrow> Config \<Rightarrow> duration \<Rightarrow> string list \<Rightarrow> EmailTask list \<Rightarrow> 's \<Rightarrow> (go_error + EmailTask list) \<times> 's" where
  "claim_streams e cfg idle [] claimed s = (Inr claimed, s)"
| "claim_streams e cfg idle (streamKey # rest) claimed s =
     (let (r, s1) = env_client e (XAUTOCLAIM streamKey (ConsumerGroup (CfgWorker cfg))
            (ConsumerName (CfgWorker cfg)) idle claimBatchSize) s in
      case reply_msgs r of
        Inl err \<Rightarrow>
          if errors_is err ErrRedisNil then claim_streams e cfg idle rest claimed s1
          else (Inl (EWrap (''consumer: XAUTOCLAIM stream='' @ streamKey) err), s1)
      | Inr msgs \<Rightarrow> claim_streams e cfg idle rest (claimed @ parsed streamKey msgs) s1)"

definition ClaimStale :: "'s env \<Rightarrow> Config \<Rightarrow> duration \<Rightarrow> 's \<Rightarrow> (go_error + EmailTask list) \<times> 's" where
  "ClaimStale e cfg idle s = claim_streams e cfg idle priorityStreams [] s"

subsection \<open>The pending entries list\<close>

definition pending :: "Config \<Rightarrow> EmailTask \<Rightarrow> keyspace \<Rightarrow> bool" where
  "pending cfg t k \<longleftrightarrow>
     pel_of k (metadata_get t metaStreamKey) (ConsumerGroup (CfgWorker cfg)) (metadata_get t metaStreamID) \<noteq> None"

definition pel_keeps :: "keyspace \<Rightarrow> keyspace \<Rightarrow> bool" where
  "pel_keeps k k' \<longleftrightarrow> (\<forall>key g i. pel_of k key g i \<noteq> None \<longrightarrow> pel_of k' key g i \<noteq> None)"

lemma pel_keeps_refl [simp]: "pel_keeps k k"
  by (simp add: pel_keeps_def)

lemma pel_keeps_trans: "pel_keeps k k' \<Longrightarrow> pel_keeps k' k'' \<Longrightarrow> pel_keeps k k''"
  by (simp add: pel_keeps_def)

lemma pending_keeps: "pending cfg t k \<Longrightarrow> pel_keeps k k' \<Longrightarrow> pending cfg t k'"
  by (auto simp: pending_def pel_keeps_def)

lemma pel_of_upd_pel:
  "pel_of (upd_stream key (upd_pel g f) k) key' g' =
     (if key' = key \<and> g' = g \<and> groups (streams k key) g \<noteq> None then f (pel_of k key g) else pel_of k key' g')"
  by (auto simp: pel_of_def upd_stream_def upd_pel_def split: option.split)

lemma acked_not_pending:
  "\<not> pending cfg t (upd_stream (metadata_get t metaStreamKey)
      (upd_pel (ConsumerGroup (CfgWorker cfg)) (\<lambda>p. p(metadata_get t metaStreamID := None))) k)"
  by (auto simp: pending_def pel_of_upd_pel) (simp add: pel_of_def)

lemma pel_of_streams: "streams k' = streams k \<Longrightarrow> pel_of k' = pel_of k"
  by (simp add: pel_of_def fun_eq_iff)

lemma pel_of_grows: "grows k k' \<Longrightarrow> pel_of k' = pel_of k"
proof -
  assume "grows k k'"
  then have "groups (streams k' key) = groups (streams k key)" for key
    unfolding grows_def add_entries_def
    by (metis redis_stream.select_convs(2) redis_stream.surjective redis_stream.update_convs(1))
  then show ?thesis by (simp add: pel_of_def fun_eq_iff)
qed

lemma pel_of_read_group:
  "pel_of (k\<lparr>streams := (\<lambda>key. if key \<in> K then read_group g c n (streams k key) else streams k key)\<rparr>) key g' =
     (if key \<in> K \<and> g' = g \<and> groups (streams k key) g \<noteq> None
      then own c (take n (unread (streams k key) g)) (pel_of k key g) else pel_of k key g')"
  by (auto simp: pel_of_def read_group_def split: option.split)

lemma own_keeps: "p i \<noteq> None \<Longrightarrow> own c ms p i \<noteq> None"
  by (simp add: own_def)

lemma own_Some: "m \<in> set ms \<Longrightarrow> own c ms p (MsgID m) = Some c"
  by (simp add: own_def)

text \<open>Only XACK takes a message out of a pending entries list.\<close>

lemma redis_ok_pel_keeps: "(\<And>key g i. c \<noteq> XACK key g i) \<Longrightarrow> redis_ok c k r k' \<Longrightarrow> pel_keeps k k'"
proof (cases c)
  case (XADD key vals)
  assume "redis_ok c k r k'"
  with XADD have "groups (streams k' x) = groups (streams k x)" for x
    by (auto simp: upd_stream_def)
  then show ?thesis by (simp add: pel_keeps_def pel_of_def)
next
  case (XGROUP_CREATE key g)
  assume "redis_ok c k r k'"
  with XGROUP_CREATE show ?thesis
    by (auto simp: pel_keeps_def pel_of_def upd_stream_def split: option.splits)
next
  case (XREADGROUP g cons keys n d)
  assume "redis_ok c k r k'"
  with XREADGROUP show ?thesis by (auto simp: pel_keeps_def pel_of_read_group own_def)
next
  case (XAUTOCLAIM key g cons d n)
  assume "redis_ok c k r k'"
  with XAUTOCLAIM show ?thesis by (auto simp: pel_keeps_def pel_of_upd_pel own_def)
qed (auto simp: pel_keeps_def pel_of_def upd_zset_def upd_list_def split: if_splits)

lemma redis_effs_pel_keeps: "(\<And>key g i. c \<noteq> XACK key g i) \<Longrightarrow> redis_effs c k k' \<Longrightarrow> pel_keeps k k'"
  by (erule redis_effs_induct [where P = "pel_keeps k"])
    (simp, metis pel_keeps_trans redis_ok_pel_keeps)

lemma metadata_taskFromMessage:
  "taskFromMessage key m = Inr t \<Longrightarrow> metadata_get t metaStreamKey = key \<and> metadata_get t metaStreamID = MsgID m"
  by (auto simp: taskFromMessage_def metaStreamKey_def metaStreamID_def split: option.splits sum.splits)

context redis_env begin

lemma client_pel_keeps:
  "env_client e c s = (r, s') \<Longrightarrow> (\<And>key g i. c \<noteq> XACK key g i) \<Longrightarrow> pel_keeps (ks s) (ks s')"
  by (rule redis_effs_pel_keeps [OF _ client_effs])

lemma ensureConsumerGroup_pel:
  "ensureConsumerGroup e key g s = (err, s') \<Longrightarrow> pel_keeps (ks s) (ks s')"
  by (auto simp: ensureConsumerGroup_def Let_def split: prod.splits option.splits if_splits
      intro: client_pel_keeps)

lemma ensure_fold_pel:
  "pel_keeps (ks s) (ks (fold (\<lambda>k s. snd (ensureConsumerGroup e k g s)) keys s))"
proof (induction keys arbitrary: s)
  case (Cons k keys)
  have "pel_keeps (ks s) (ks (snd (ensureConsumerGroup e k g s)))"
    by (rule ensureConsumerGroup_pel [of k g s "fst (ensureConsumerGroup e k g s)"]) simp
  from pel_keeps_trans [OF this Cons.IH] show ?case by simp
qed simp

lemma Acknowledge_spec:
  assumes "Acknowledge e cfg t s = (err, s')"
  defines "acked \<equiv> upd_stream (metadata_get t metaStreamKey)
      (upd_pel (ConsumerGroup (CfgWorker cfg)) (\<lambda>p. p(metadata_get t metaStreamID := None))) (ks s)"
  shows "ks s' \<in> {ks s, acked} \<and> (err = None \<longrightarrow> ks s' = acked)"
proof -
  let ?c = "XACK (metadata_get t metaStreamKey) (ConsumerGroup (CfgWorker cfg)) (metadata_get t metaStreamID)"
  obtain r s1 where r: "env_client e ?c s = (r, s1)" by fastforce
  have s1: "s' = s1" using assms(1) r by (auto simp: Acknowledge_def Let_def split: option.splits)
  have E: "ks s1 \<in> {ks s, acked}"
    using xack_effs [OF client_effs [OF r]] by (auto simp: acked_def)
  have "ks s1 = acked" if "err = None"
  proof -
    from that assms(1) r obtain x where "r = Inr x"
      by (auto simp: Acknowledge_def Let_def split: option.splits)
    then obtain k where k: "redis_effs ?c (ks s) k" "redis_ok ?c k x (ks s1)"
      using client_ok [of ?c s x s1] r by blast
    then show ?thesis using xack_effs [OF k(1)]
      by (auto simp: acked_def upd_stream_idem upd_pel_idem)
  qed
  with E s1 show ?thesis by blast
qed

text \<open>Reading: what XREADGROUP and XAUTOCLAIM hand out is pending afterwards.\<close>

lemma xreadgroup_pending:
  assumes "env_client e (XREADGROUP g c keys n d) s = (Inr (RStreams ss), s')"
    and "(key, ms) \<in> set ss" and "m \<in> set ms"
  shows "pel_of (ks s') key g (MsgID m) = Some c"
proof -
  obtain k where k: "redis_ok (XREADGROUP g c keys n d) k (RStreams ss) (ks s')"
    using client_ok [OF assms(1)] by blast
  then have "key \<in> set keys" "ms = take n (unread (streams k key) g)" "groups (streams k key) g \<noteq> None"
    using assms(2) by auto
  with k assms(3) show ?thesis by (auto simp: pel_of_read_group own_Some)
qed

lemma xautoclaim_pending:
  assumes "env_client e (XAUTOCLAIM key g c d n) s = (Inr (RMsgs ms), s')" and "m \<in> set ms"
  shows "pel_of (ks s') key g (MsgID m) = Some c"
proof -
  obtain k where "redis_ok (XAUTOCLAIM key g c d n) k (RMsgs ms) (ks s')"
    using client_ok [OF assms(1)] by blast
  then show ?thesis using assms(2) by (auto simp: pel_of_upd_pel own_Some)
qed

lemma parsed_pending:
  assumes "t \<in> set (parsed key ms)" and "\<And>m. m \<in> set ms \<Longrightarrow> pel_of k key (ConsumerGroup (CfgWorker cfg)) (MsgID m) \<noteq> None"
  shows "pending cfg t k"
proof -
  from assms(1) obtain m where m: "m \<in> set ms" "taskFromMessage key m = Inr t"
    by (fastforce simp: parsed_def split: sum.splits)
  with assms(2) [OF m(1)] metadata_taskFromMessage [OF m(2)] show ?thesis by (simp add: pending_def)
qed

lemma claim_streams_spec:
  assumes "claim_streams e cfg idle keys claimed s = (res, s')"
    and "\<forall>t \<in> set claimed. pending cfg t (ks s)"
  shows "pel_keeps (ks s) (ks s') \<and> (\<forall>ts. res = Inr ts \<longrightarrow> (\<forall>t \<in> set ts. pending cfg t (ks s')))"
  using assms
proof (induction keys arbitrary: s claimed)
  case Nil
  then show ?case by auto
next
  case (Cons key keys)
  let ?c = "XAUTOCLAIM key (ConsumerGroup (CfgWorker cfg)) (ConsumerName (CfgWorker cfg)) idle claimBatchSize"
  obtain r s1 where r: "env_client e ?c s = (r, s1)" by fastforce
  have k1: "pel_keeps (ks s) (ks s1)" by (rule client_pel_keeps [OF r]) simp
  have old: "\<forall>t \<in> set claimed. pending cfg t (ks s1)" using Cons.prems(2) k1 pending_keeps by blast
  show ?case
  proof (cases "reply_msgs r")
    case (Inl er)
    then show ?thesis
    proof (cases "errors_is er ErrRedisNil")
      case True
      then have "claim_streams e cfg idle keys claimed s1 = (res, s')"
        using Cons.prems(1) r Inl by simp
      from Cons.IH [OF this old] k1 show ?thesis using pel_keeps_trans by blast
    next
      case False
      then show ?thesis using Cons.prems(1) r Inl k1 by auto
    qed
  next
    case (Inr ms)
    then have c: "claim_streams e cfg idle keys (claimed @ parsed key ms) s1 = (res, s')"
      using Cons.prems(1) r by simp
    have "\<forall>t \<in> set (parsed key ms). pending cfg t (ks s1)"
      using parsed_pending xautoclaim_pending r Inr by (metis option.distinct(1) reply_msgs_Inr)
    with old have "\<forall>t \<in> set (claimed @ parsed key ms). pending cfg t (ks s1)" by auto
    from Cons.IH [OF c this] k1 show ?thesis using pel_keeps_trans by blast
  qed
qed

end

subsection \<open>The task channel\<close>

text \<open>The channel between the poll loop and the supervisor: \<open>sent\<close> is what went through it.\<close>

locale task_channel = redis_env e ks
  for e :: "'s env" and ks :: "'s \<Rightarrow> keyspace" +
  fixes send :: "EmailTask \<Rightarrow> 's \<Rightarrow> bool \<times> 's" and sent :: "'s \<Rightarrow> EmailTask list"
  assumes send_spec:
    "send t s = (b, s') \<Longrightarrow> ks s' = ks s \<and> sent s' = (if b then sent s @ [t] else sent s)"
    and sent_client: "env_client e c s = (r, s') \<Longrightarrow> sent s' = sent s"
    and sent_ctx: "ctx_err e s = (err, s') \<Longrightarrow> sent s' = sent s"
begin

lemma deliver_msgs_spec:
  assumes "deliver_msgs send key ms s = (go, s')"
  shows "ks s' = ks s \<and> (\<exists>new. sent s' = sent s @ new \<and> set new \<subseteq> set (parsed key ms))"
  using assms
proof (induction ms arbitrary: s)
  case Nil
  then show ?case by simp
next
  case (Cons m ms)
  show ?case
  proof (cases "taskFromMessage key m")
    case (Inl er)
    then show ?thesis using Cons by (auto simp: parsed_def)
  next
    case (Inr t)
    obtain b s1 where b: "send t s = (b, s1)" by fastforce
    note S = send_spec [OF b]
    show ?thesis
    proof (cases b)
      case True
      then have "deliver_msgs send key ms s1 = (go, s')" using Cons.prems Inr b by simp
      from Cons.IH [OF this] S True Inr show ?thesis by (auto simp: parsed_def)
    next
      case False
      then show ?thesis using Cons.prems Inr b S by auto
    qed
  qed
qed

lemma deliver_streams_spec:
  assumes "deliver_streams send ss s = (go, s')"
    and "\<And>key ms m. (key, ms) \<in> set ss \<Longrightarrow> m \<in> set ms \<Longrightarrow>
      pel_of (ks s) key (ConsumerGroup (CfgWorker cfg)) (MsgID m) \<noteq> None"
  shows "ks s' = ks s \<and> (\<exists>new. sent s' = sent s @ new \<and> (\<forall>t \<in> set new. pending cfg t (ks s)))"
  using assms
proof (induction ss arbitrary: s)
  case Nil
  then show ?case by simp
next
  case (Cons x ss)
  obtain key ms where x: "x = (key, ms)" by fastforce
  obtain b s1 where b: "deliver_msgs send key ms s = (b, s1)" by fastforce
  obtain new where new: "ks s1 = ks s" "sent s1 = sent s @ new" "set new \<subseteq> set (parsed key ms)"
    using deliver_msgs_spec [OF b] by blast
  have pnd: "\<forall>t \<in> set new. pending cfg t (ks s)"
    using new(3) parsed_pending [of _ key ms] Cons.prems(2) x by (metis list.set_intros(1) subsetD)
  show ?case
  proof (cases b)
    case True
    then have d: "deliver_streams send ss s1 = (go, s')" using Cons.prems(1) b x by simp
    have "ks s' = ks s1 \<and> (\<exists>new. sent s' = sent s1 @ new \<and> (\<forall>t \<in> set new. pending cfg t (ks s1)))"
      by (rule Cons.IH [OF d]) (use Cons.prems(2) x new(1) in auto)
    with new pnd show ?thesis by auto
  next
    case False
    then show ?thesis using Cons.prems(1) b x new pnd by auto
  qed
qed

lemma sent_ensure:
  "sent (snd (ensureConsumerGroup e k g s)) = sent s"
  by (auto simp: ensureConsumerGroup_def Let_def split: prod.splits option.splits dest: sent_client)

lemma sent_ensure_fold:
  "sent (fold (\<lambda>k s. snd (ensureConsumerGroup e k g s)) keys s) = sent s"
  by (induction keys arbitrary: s) (simp_all add: sent_ensure)

lemma poll_round_spec:
  assumes "poll_round e cfg send s = (go, s')"
  shows "pel_keeps (ks s) (ks s') \<and>
    (\<exists>new. sent s' = sent s @ new \<and> (\<forall>t \<in> set new. pending cfg t (ks s')))"
proof -
  obtain c1 s1 where c1: "ctx_err e s = (c1, s1)" by fastforce
  let ?c = "XREADGROUP (ConsumerGroup (CfgWorker cfg)) (ConsumerName (CfgWorker cfg)) priorityStreams 10
    (BlockTimeout (CfgWorker cfg))"
  obtain r s2 where r: "env_client e ?c s1 = (r, s2)" by fastforce
  obtain c3 s3 where c3: "ctx_err e s2 = (c3, s3)" by fastforce
  have k: "ks s1 = ks s" "ks s3 = ks s2" using ctx_ks c1 c3 by blast+
  have sn: "sent s1 = sent s" "sent s2 = sent s" "sent s3 = sent s"
    using sent_ctx c1 c3 sent_client [OF r] by (blast, metis, metis)
  have k2: "pel_keeps (ks s) (ks s2)" using client_pel_keeps [OF r] k by simp
  show ?thesis
  proof (cases "c1 = None")
    case False
    then show ?thesis using assms c1 k sn by (auto simp: poll_round_def Let_def)
  next
    case True
    show ?thesis
    proof (cases "reply_streams r")
      case (Inl er)
      then have "s' \<in> {s3, fold (\<lambda>k s. snd (ensureConsumerGroup e k (ConsumerGroup (CfgWorker cfg)) s))
          priorityStreams s3}"
        using assms c1 True r c3 by (auto simp: poll_round_def Let_def split: if_splits)
      moreover have "pel_keeps (ks s) (ks (fold (\<lambda>k s. snd (ensureConsumerGroup e k
          (ConsumerGroup (CfgWorker cfg)) s)) priorityStreams s3))"
        by (rule pel_keeps_trans [OF _ ensure_fold_pel]) (simp add: k k2)
      ultimately show ?thesis using k2 k(2) sn by (auto simp: sent_ensure_fold)
    next
      case (Inr ss)
      then have d: "deliver_streams send ss s2 = (go, s')" and r': "r = Inr (RStreams ss)"
        using assms c1 True r by (auto simp: poll_round_def Let_def)
      have "ks s' = ks s2 \<and> (\<exists>new. sent s' = sent s2 @ new \<and> (\<forall>t \<in> set new. pending cfg t (ks s2)))"
        by (rule deliver_streams_spec [OF d]) (use xreadgroup_pending r r' in fastforce)
      then show ?thesis using k2 sn by auto
    qed
  qed
qed

lemma pollLoop_spec:
  assumes "pollLoop n e cfg send s = (go, s')"
  shows "pel_keeps (ks s) (ks s') \<and>
    (\<exists>new. sent s' = sent s @ new \<and> (\<forall>t \<in> set new. pending cfg t (ks s')))"
  using assms
proof (induction n arbitrary: s)
  case 0
  then show ?case by simp
next
  case (Suc n)
  obtain b s1 where b: "poll_round e cfg send s = (b, s1)" by fastforce
  note R = poll_round_spec [OF b]
  show ?case
  proof (cases b)
    case True
    then have "pollLoop n e cfg send s1 = (go, s')" using Suc.prems b by simp
    note I = Suc.IH [OF this]
    from R obtain new1 where n1: "sent s1 = sent s @ new1" "\<forall>t \<in> set new1. pending cfg t (ks s1)" by blast
    from I obtain new2 where n2: "sent s' = sent s1 @ new2" "\<forall>t \<in> set new2. pending cfg t (ks s')" by blast
    have "sent s' = sent s @ new1 @ new2" using n1 n2 by simp
    moreover have "\<forall>t \<in> set (new1 @ new2). pending cfg t (ks s')"
      using n1(2) n2(2) I pending_keeps by auto
    moreover have "pel_keeps (ks s) (ks s')" using R I pel_keeps_trans by blast
    ultimately show ?thesis by blast
  next
    case False
    then show ?thesis using Suc.prems b R by auto
  qed
qed

end

text \<open>The buffered channel of \<open>Consume\<close> in the in-memory world: a full channel blocks until the context is done.\<close>

record mem_chan = mem_world +
  mem_sent :: "EmailTask list"
  mem_cap :: nat

definition mem_send :: "EmailTask \<Rightarrow> 'a mem_chan_scheme \<Rightarrow> bool \<times> 'a mem_chan_scheme" where
  "mem_send t s = (if length (mem_sent s) < mem_cap s then (True, s\<lparr>mem_sent := mem_sent s @ [t]\<rparr>) else (False, s))"

interpretation mem_chan: task_channel "mem_env resend" mem_ks mem_send mem_sent for resend
  by unfold_locales
    (auto simp: mem_send_def mem_client_def split: if_splits list.splits prod.splits)

subsection \<open>Properties\<close>

text \<open>The poll loop neither loses nor invents work, for any number of rounds, under any loss or
  repetition of requests and with the context cancelled at any moment: a message that is pending stays
  pending, and every task it puts on the channel is pending in the group under the stream key
  and message ID stamped on it, so that \<open>Acknowledge\<close> can find it and a crash leaves it to be reclaimed.\<close>

theorem pollLoop_hands_out_pending:
  assumes "task_channel e ks send sent" and "pollLoop n e cfg send s = (go, s')"
  shows "pel_keeps (ks s) (ks s') \<and>
    (\<exists>new. sent s' = sent s @ new \<and> (\<forall>t. t \<in> set new \<longrightarrow> pending cfg t (ks s')))"
  using task_channel.pollLoop_spec [OF assms] by blast

text \<open>\<open>ClaimStale\<close> never takes a message out of a pending entries list, and every task it returns is
  pending in the group under its stamped stream key and message ID.\<close>

theorem ClaimStale_hands_out_pending:
  assumes "redis_env e ks" and "ClaimStale e cfg idle s = (res, s')"
  shows "pel_keeps (ks s) (ks s') \<and> (\<forall>ts. res = Inr ts \<longrightarrow> (\<forall>t. t \<in> set ts \<longrightarrow> pending cfg t (ks s')))"
  using redis_env.claim_streams_spec [OF assms(1) assms(2) [unfolded ClaimStale_def]] by simp

text \<open>\<open>Acknowledge\<close> removes at most the task's own entry from the pending list of its stream: on nil the entry
  is gone, on an error it may be gone, and every other stream, group, message and key is as before.\<close>

theorem Acknowledge_exact:
  assumes "redis_env e ks" and "Acknowledge e cfg t s = (err, s')"
  shows "(err = None \<longrightarrow> \<not> pending cfg t (ks s')) \<and>
    (\<forall>key g i. (key, g, i) \<noteq> (metadata_get t metaStreamKey, ConsumerGroup (CfgWorker cfg), metadata_get t metaStreamID) \<longrightarrow>
       pel_of (ks s') key g i = pel_of (ks s) key g i) \<and>
    (\<forall>key. entries (streams (ks s') key) = entries (streams (ks s) key)) \<and>
    ks s' = (ks s)\<lparr>streams := streams (ks s')\<rparr>"
proof -
  let ?acked = "upd_stream (metadata_get t metaStreamKey)
      (upd_pel (ConsumerGroup (CfgWorker cfg)) (\<lambda>p. p(metadata_get t metaStreamID := None))) (ks s)"
  have "ks s' = ks s \<or> ks s' = ?acked" "err = None \<longrightarrow> ks s' = ?acked"
    using redis_env.Acknowledge_spec [OF assms] by auto
  moreover have "\<not> pending cfg t ?acked" by (rule acked_not_pending)
  moreover have "entries (streams ?acked key) = entries (streams (ks s) key)" for key
    by (simp add: upd_stream_def upd_pel_def split: option.split)
  moreover have "?acked = (ks s)\<lparr>streams := streams ?acked\<rparr>" by (simp add: upd_stream_def)
  moreover have "pel_of ?acked key g i = pel_of (ks s) key g i"
    if "(key, g, i) \<noteq> (metadata_get t metaStreamKey, ConsumerGroup (CfgWorker cfg), metadata_get t metaStreamID)" for key g i
    using that by (auto simp: pel_of_upd_pel)
  ultimately show ?thesis by auto
qed

text \<open>The way of a task through its stream entry.\<close>

lemma taskFromMessage_carried:
  assumes "task_clean t" and "carries t m"
  shows "taskFromMessage key m =
    Inr (metadata_set metaStreamKey key (metadata_set metaStreamID (MsgID m) (norm_task t)))"
proof -
  obtain p where p: "json_Marshal_task t = Inr p" "MsgValues m = XAddValuesBuilder t p"
    using assms(2) by (auto simp: carries_def)
  obtain tpl where "p = Doc (JObj (task_members t tpl))"
    and "tpl = (case TemplateData t of None \<Rightarrow> None | Some m \<Rightarrow> template_json m)"
    using marshal_clean [OF assms(1)] p(1) by (metis sum.inject(2))
  with task_members_roundtrip [OF assms(1)] have "json_Unmarshal_task p = Inr (norm_task t)" by simp
  with p(2) show ?thesis by (simp add: taskFromMessage_def)
qed

text \<open>C30: From producer to worker: whatever message \<open>Enqueue\<close> writes for a task that JSON can carry, the
  consumer decodes it into the same task (with an empty map read as nil) plus the two routing
  entries in its metadata.\<close>

theorem taskFromMessage_inverts_Enqueue:
  assumes "task_clean t" and "carries t m"
  shows "taskFromMessage key m =
    Inr (metadata_set metaStreamKey key (metadata_set metaStreamID (MsgID m) (norm_task t)))"
  by (rule taskFromMessage_carried [OF assms])

subsection \<open>Witnesses\<close>

lemma sample_marshal: "json_Marshal_task sample_task = Inr (Doc (JObj (task_members sample_task None)))"
  by (simp add: json_Marshal_task_def task_json_def times_ok_def time_in_range_def time_unix_def)

definition sample_msg :: stream_msg where
  "sample_msg = \<lparr>MsgID = ''0'', MsgValues = XAddValuesBuilder sample_task (Doc (JObj (task_members sample_task None)))\<rparr>"

lemma sample_msg_carries: "carries sample_task sample_msg"
  by (simp add: carries_def sample_msg_def sample_marshal)

text \<open>A key space in which the group has one message pending, owned by the sample consumer.\<close>

definition pending_ks :: keyspace where
  "pending_ks = (mem_ks (sample_world Map.empty []))
     \<lparr>streams := (\<lambda>_. empty_stream)(''{queue}:email:normal'' :=
        \<lparr>entries = [sample_msg],
         groups = [''email-workers'' \<mapsto> \<lparr>last_read = 1, pel = [''0'' \<mapsto> ''pod-1:7'']\<rparr>]\<rparr>)\<rparr>"

definition stamped_task :: EmailTask where
  "stamped_task = metadata_set metaStreamKey ''{queue}:email:normal'' (metadata_set metaStreamID ''0'' sample_task)"

lemma stamped_task_meta [simp]:
  "metadata_get stamped_task metaStreamKey = ''{queue}:email:normal''"
  "metadata_get stamped_task metaStreamID = ''0''"
  by (simp_all add: stamped_task_def metaStreamKey_def metaStreamID_def)

lemma stamped_task_pending: "pending sample_config stamped_task pending_ks"
  by (simp add: pending_def pending_ks_def pel_of_def)

definition chan_world :: mem_chan where
  "chan_world =
     \<lparr>mem_ks = pending_ks, mem_faults = [LostReply, NoFault], mem_clock = 0, mem_metrics = [], mem_ctx = None,
      mem_rand = Fin 0, mem_sent = [], mem_cap = 2\<rparr>"

theorem pollLoop_hands_out_pending_witness:
  "pending sample_config stamped_task
     (mem_ks (snd (pollLoop 3 (mem_env True) sample_config mem_send chan_world)))"
proof -
  obtain go s' where r: "pollLoop 3 (mem_env True) sample_config mem_send chan_world = (go, s')" by fastforce
  have "pel_keeps (mem_ks chan_world) (mem_ks s')"
    using pollLoop_hands_out_pending [OF mem_chan.task_channel_axioms r] by blast
  moreover have "mem_ks chan_world = pending_ks" by (simp add: chan_world_def)
  ultimately show ?thesis using pending_keeps stamped_task_pending r by (metis snd_conv)
qed

theorem ClaimStale_hands_out_pending_witness:
  "pending sample_config stamped_task
     (mem_ks (snd (ClaimStale (mem_env True) sample_config 0 chan_world)))"
proof -
  obtain res s' where r: "ClaimStale (mem_env True) sample_config 0 chan_world = (res, s')" by fastforce
  have "pel_keeps (mem_ks chan_world) (mem_ks s')"
    using ClaimStale_hands_out_pending [OF mem_env.redis_env_axioms r] by blast
  moreover have "mem_ks chan_world = pending_ks" by (simp add: chan_world_def)
  ultimately show ?thesis using pending_keeps stamped_task_pending r by (metis snd_conv)
qed

theorem Acknowledge_exact_witness:
  "\<not> pending sample_config stamped_task
     (mem_ks (snd (Acknowledge (mem_env True) sample_config stamped_task (chan_world\<lparr>mem_faults := [Resent]\<rparr>))))"
proof -
  let ?s = "chan_world\<lparr>mem_faults := [Resent]\<rparr>"
  obtain err s' where r: "Acknowledge (mem_env True) sample_config stamped_task ?s = (err, s')" by fastforce
  have "err = None" using r
    by (simp add: Acknowledge_def mem_eval Let_def)
  with Acknowledge_exact [OF mem_env.redis_env_axioms r] r show ?thesis by simp
qed

theorem taskFromMessage_inverts_Enqueue_witness:
  "taskFromMessage ''{queue}:email:normal'' sample_msg = Inr stamped_task"
proof -
  have "task_clean (sample_task\<lparr>LastError := []\<rparr>)"
    by (rule sample_task_clean) (simp add: utf8_ok_ascii)
  then have c: "task_clean sample_task" by (simp add: sample_task_def)
  have "norm_task sample_task = sample_task" by (simp add: norm_task_def norm_map_def sample_task_def)
  with taskFromMessage_inverts_Enqueue [OF c sample_msg_carries] show ?thesis
    by (simp add: stamped_task_def) (simp add: sample_msg_def)
qed

end
