(* ===== verification/Retry_Scheduler.thy ===== *)
theory Retry_Scheduler
  imports Consumer
begin

text \<open>
  internal/adapters/redis/retry_scheduler.go and internal/worker/delayed_scheduler.go: the delay
  queue of tasks to retry and its periodic flush into the priority streams.
\<close>

definition retryDelayedKey :: string where "retryDelayedKey = ''queue:email:retry:delayed''"
definition retryPoisonKey :: string where "retryPoisonKey = ''queue:retry:poison''"

record retryPoisonEntry =
  RawMember :: string
  ParseError :: string
  QuarantinedAt :: go_time
  SourceKey :: string

definition json_Marshal_poison :: "retryPoisonEntry \<Rightarrow> go_error + jtext" where
  "json_Marshal_poison p =
     (if \<not> time_in_range (QuarantinedAt p) then Inl marshal_error
      else Inr (Doc (JObj
        [(''raw_member'', JStr (coerce_utf8 (RawMember p))),
         (''parse_error'', JStr (coerce_utf8 (ParseError p))),
         (''quarantined_at'', JTime (QuarantinedAt p)),
         (''source_key'', JStr (coerce_utf8 (SourceKey p)))])))"

definition ScheduleRetry :: "'s env \<Rightarrow> EmailTask \<Rightarrow> duration \<Rightarrow> 's \<Rightarrow> go_error option \<times> 's" where
  "ScheduleRetry e task delay s =
     (case json_Marshal_task task of
        Inl err \<Rightarrow> (Some (EWrap (''retry scheduler: marshal task '' @ ID task) err), s)
      | Inr payload \<Rightarrow>
          let (now, s1) = time_now e s; scheduledFor = time_add now delay;
              (r, s2) = env_client e (ZADD_NX retryDelayedKey (unix_score scheduledFor) payload) s1 in
          case reply_err r of
            Some err \<Rightarrow> (Some (EWrap (''retry scheduler: ZADD task '' @ ID task) err), s2)
          | None \<Rightarrow> (None, s2))"

text \<open>The members of the batch that decode, with their tasks, and the ones that do not, with the error.\<close>

definition valid_members :: "jtext list \<Rightarrow> (jtext \<times> EmailTask) list" where
  "valid_members ms =
     concat (map (\<lambda>m. case json_Unmarshal_task m of Inl _ \<Rightarrow> [] | Inr t \<Rightarrow> [(m, t)]) ms)"

definition corrupt_members :: "jtext list \<Rightarrow> (jtext \<times> go_error) list" where
  "corrupt_members ms =
     concat (map (\<lambda>m. case json_Unmarshal_task m of Inl err \<Rightarrow> [(m, err)] | Inr _ \<Rightarrow> []) ms)"

definition poison_entries :: "go_time \<Rightarrow> (jtext \<times> go_error) list \<Rightarrow> (jtext \<times> jtext) list" where
  "poison_entries quarantinedAt corrupt =
     concat (map (\<lambda>(m, err).
       case json_Marshal_poison \<lparr>RawMember = text_of m, ParseError = Error err,
              QuarantinedAt = quarantinedAt, SourceKey = retryDelayedKey\<rparr> of
         Inl _ \<Rightarrow> [] | Inr entry \<Rightarrow> [(m, entry)]) corrupt)"

definition quarantineCorruptMembers ::
  "'s env \<Rightarrow> Config \<Rightarrow> (jtext \<times> go_error) list \<Rightarrow> 's \<Rightarrow> 's" where
  "quarantineCorruptMembers e cfg corrupt s =
     (let (now, s1) = time_now e s; toRemove = poison_entries now corrupt in
      if toRemove = [] then s1
      else let cmds = map (\<lambda>(m, entry). RPUSH retryPoisonKey entry) toRemove @
                 [ZREM retryDelayedKey (map fst toRemove)] @
                 (if 0 <s DLQTTLSeconds (CfgRetry cfg)
                  then [EXPIRE retryPoisonKey (DLQTTLSeconds (CfgRetry cfg) * go_second)] else []) in
        snd (pipe_exec e cmds s1))"

text \<open>The tasks that marshal again, with their payloads: only they get an XADD.\<close>

definition xadd_tasks :: "EmailTask list \<Rightarrow> (EmailTask \<times> jtext) list" where
  "xadd_tasks ts =
     concat (map (\<lambda>t. case MarshalTaskPayload t of Inl _ \<Rightarrow> [] | Inr p \<Rightarrow> [(t, p)]) ts)"

definition flushed_tasks :: "(EmailTask \<times> jtext) list \<Rightarrow> (go_error + reply) list \<Rightarrow> EmailTask list" where
  "flushed_tasks xadds results =
     concat (map2 (\<lambda>(t, _) r. case reply_err r of None \<Rightarrow> [t] | Some _ \<Rightarrow> []) xadds results)"

definition FlushReady :: "'s env \<Rightarrow> Config \<Rightarrow> 's \<Rightarrow> (go_error + EmailTask list) \<times> 's" where
  "FlushReady e cfg s =
     (let (now, s1) = time_now e s;
          (r, s2) = env_client e (ZRANGEBYSCORE retryDelayedKey (show_int (time_unix now)) 100) s1 in
      case reply_texts r of
        Inl err \<Rightarrow> (Inl (EWrap ''retry scheduler: ZRANGEBYSCORE'' err), s2)
      | Inr members \<Rightarrow>
          if members = [] then (Inr [], s2)
          else let valid = valid_members members; corrupt = corrupt_members members;
                   s3 = (if corrupt \<noteq> [] then quarantineCorruptMembers e cfg corrupt s2 else s2) in
            if valid = [] then (Inr [], s3)
            else let xadds = xadd_tasks (map snd valid);
                     (results, s4) = pipe_exec e
                       (map (\<lambda>(t, p). xadd_cmd t p) xadds @ [ZREM retryDelayedKey (map fst valid)]) s3;
                     flushed = flushed_tasks xadds results;
                     (rd, s5) = env_client e (ZCARD retryDelayedKey) s4;
                     s6 = (case reply_int rd of
                             Inl _ \<Rightarrow> s5
                           | Inr depth \<Rightarrow> record_metric e
                               (RecordQueueDepth ''retry:delayed'' (f64_of_rat (of_int depth))) s5) in
              (Inr flushed, s6))"

text \<open>
  \<open>(*DelayedScheduler).Run\<close>: one flush per tick until the context is done. A tick or the end of
  the context is an argument: the list of ticks that fire before cancellation. \<open>time.NewTicker\<close>
  panics for an interval that is not positive: \<open>None\<close>.
\<close>

fun scheduler_ticks :: "nat \<Rightarrow> 's env \<Rightarrow> Config \<Rightarrow> 's \<Rightarrow> 's" where
  "scheduler_ticks 0 e cfg s = s"
| "scheduler_ticks (Suc n) e cfg s = scheduler_ticks n e cfg (snd (FlushReady e cfg s))"

definition DelayedScheduler_Run :: "nat \<Rightarrow> 's env \<Rightarrow> Config \<Rightarrow> 's \<Rightarrow> (go_error option \<times> 's) option" where
  "DelayedScheduler_Run ticks e cfg s =
     (if SchedulerInterval (CfgRetry cfg) <=s 0 then None
      else Some (None, scheduler_ticks ticks e cfg s))"

subsection \<open>What the scheduler does to the key space\<close>

abbreviation retry_set :: "keyspace \<Rightarrow> (jtext \<times> f64) list" where
  "retry_set k \<equiv> zsets k retryDelayedKey"

definition retry_stored :: "EmailTask \<Rightarrow> keyspace \<Rightarrow> bool" where
  "retry_stored t k \<longleftrightarrow> (\<exists>p sc. json_Marshal_task t = Inr p \<and> (p, sc) \<in> set (retry_set k))"

lemma zadd_nx_mem: "\<exists>sc'. (m, sc') \<in> set (zadd_nx sc m z)"
  by (auto simp: zadd_nx_def)

context redis_env begin

lemma ScheduleRetry_spec:
  assumes "ScheduleRetry e t delay s = (err, s')"
  shows "(ks s' = ks s \<or> (\<exists>p sc. json_Marshal_task t = Inr p \<and> ks s' = upd_zset retryDelayedKey (zadd_nx sc p) (ks s))) \<and>
    (err = None \<longrightarrow> (\<exists>p now. json_Marshal_task t = Inr p \<and>
       ks s' = upd_zset retryDelayedKey (zadd_nx (unix_score (time_add now delay)) p) (ks s)))"
proof (cases "json_Marshal_task t")
  case (Inl er)
  show ?thesis using assms by (auto simp: ScheduleRetry_def Inl)
next
  case (Inr p)
  obtain now s1 where n: "time_now e s = (now, s1)" by fastforce
  let ?sc = "unix_score (time_add now delay)"
  let ?c = "ZADD_NX retryDelayedKey ?sc p"
  obtain r s2 where r: "env_client e ?c s1 = (r, s2)" by fastforce
  have k1: "ks s1 = ks s" by (rule now_ks [OF n])
  have s2: "s' = s2" using assms Inr n r by (auto simp: ScheduleRetry_def Let_def split: option.splits)
  have E: "ks s2 = ks s \<or> ks s2 = upd_zset retryDelayedKey (zadd_nx ?sc p) (ks s)"
    using zadd_nx_effs [OF client_effs [OF r]] k1 by simp
  have "ks s2 = upd_zset retryDelayedKey (zadd_nx ?sc p) (ks s)" if "err = None"
  proof -
    have "\<exists>x. r = Inr x" using that assms Inr n r
      by (auto simp: ScheduleRetry_def Let_def split: option.splits)
    then obtain x where "r = Inr x" ..
    then obtain k where k: "redis_effs ?c (ks s) k" "redis_ok ?c k x (ks s2)"
      using client_ok [of ?c s1 x s2] r k1 by auto
    then show ?thesis using zadd_nx_effs [OF k(1)] by (auto simp: upd_zset_idem)
  qed
  with E show ?thesis using Inr by (auto simp: s2)
qed

lemma ScheduleRetry_stored:
  assumes "ScheduleRetry e t delay s = (None, s')"
  shows "retry_stored t (ks s')"
proof -
  obtain p sc where p: "json_Marshal_task t = Inr p" "ks s' = upd_zset retryDelayedKey (zadd_nx sc p) (ks s)"
    using ScheduleRetry_spec [OF assms] by blast
  then show ?thesis using zadd_nx_mem [of p sc] by (auto simp: retry_stored_def upd_zset_def)
qed

end

text \<open>What a flush may do, given the batch of members it read.\<close>

definition flush_rel :: "jtext list \<Rightarrow> keyspace \<Rightarrow> keyspace \<Rightarrow> bool" where
  "flush_rel members k k' \<longleftrightarrow>
     set (retry_set k') \<subseteq> set (retry_set k) \<and>
     (\<forall>m sc. (m, sc) \<in> set (retry_set k) \<longrightarrow> m \<notin> set members \<longrightarrow> (m, sc) \<in> set (retry_set k')) \<and>
     (\<forall>z. z \<noteq> retryDelayedKey \<longrightarrow> zsets k' z = zsets k z) \<and>
     strs k' = strs k \<and> (\<forall>l. l \<noteq> retryPoisonKey \<longrightarrow> lists k' l = lists k l) \<and>
     (\<forall>key. \<exists>ms. streams k' key = add_entries ms (streams k key) \<and>
        (\<forall>x \<in> set ms. \<exists>m t. m \<in> set members \<and> json_Unmarshal_task m = Inr t \<and>
           key = QueueName (Priority t) \<and> carries t x))"

lemma flush_rel_refl [simp]: "flush_rel members k k"
  by (auto simp: flush_rel_def intro: exI [of _ "[]"])

lemma flush_rel_trans: "flush_rel ms k k' \<Longrightarrow> flush_rel ms k' k'' \<Longrightarrow> flush_rel ms k k''"
proof -
  assume a: "flush_rel ms k k'" and b: "flush_rel ms k' k''"
  have "\<exists>xs. streams k'' key = add_entries xs (streams k key) \<and>
        (\<forall>x \<in> set xs. \<exists>m t. m \<in> set ms \<and> json_Unmarshal_task m = Inr t \<and>
           key = QueueName (Priority t) \<and> carries t x)" for key
  proof -
    from a obtain xs where "streams k' key = add_entries xs (streams k key)"
      "\<forall>x \<in> set xs. \<exists>m t. m \<in> set ms \<and> json_Unmarshal_task m = Inr t \<and> key = QueueName (Priority t) \<and> carries t x"
      unfolding flush_rel_def by blast
    moreover from b obtain ys where "streams k'' key = add_entries ys (streams k' key)"
      "\<forall>x \<in> set ys. \<exists>m t. m \<in> set ms \<and> json_Unmarshal_task m = Inr t \<and> key = QueueName (Priority t) \<and> carries t x"
      unfolding flush_rel_def by blast
    ultimately show ?thesis by (intro exI [of _ "xs @ ys"]) (auto simp: add_entries_def)
  qed
  then show ?thesis using a b by (auto simp: flush_rel_def)
qed

text \<open>The commands a flush sends.\<close>

definition flush_cmd :: "jtext list \<Rightarrow> rcmd \<Rightarrow> bool" where
  "flush_cmd members c \<longleftrightarrow>
     (\<exists>v. c = RPUSH retryPoisonKey v) \<or> (\<exists>d. c = EXPIRE retryPoisonKey d) \<or>
     (\<exists>ms. c = ZREM retryDelayedKey ms \<and> set ms \<subseteq> set members) \<or>
     (\<exists>t p m. c = xadd_cmd t p \<and> json_Marshal_task t = Inr p \<and> m \<in> set members \<and> json_Unmarshal_task m = Inr t)"

lemma flush_cmd_ok:
  assumes "flush_cmd members c" and "redis_ok c k r k'"
  shows "flush_rel members k k'"
  using assms(1) unfolding flush_cmd_def
proof (elim disjE exE conjE)
  fix v assume "c = RPUSH retryPoisonKey v"
  with assms(2) show ?thesis
    by (auto simp: flush_rel_def upd_list_def intro: exI [of _ "[]"])
next
  fix d assume "c = EXPIRE retryPoisonKey d"
  with assms(2) show ?thesis
    by (auto simp: flush_rel_def upd_list_def intro: exI [of _ "[]"] split: if_splits)
next
  fix ms assume "c = ZREM retryDelayedKey ms" "set ms \<subseteq> set members"
  with assms(2) show ?thesis
    by (auto simp: flush_rel_def upd_zset_def zrem_def intro: exI [of _ "[]"])
next
  fix t p m
  assume c: "c = xadd_cmd t p" and t: "json_Marshal_task t = Inr p" "m \<in> set members" "json_Unmarshal_task m = Inr t"
  then obtain i where k': "k' = upd_stream (QueueName (Priority t))
      (add_entries [\<lparr>MsgID = i, MsgValues = XAddValuesBuilder t p\<rparr>]) k"
    using assms(2) by (auto simp: xadd_cmd_def add_entries_def [abs_def])
  have "carries t \<lparr>MsgID = i, MsgValues = XAddValuesBuilder t p\<rparr>" using t(1) by (simp add: carries_def)
  then have "\<exists>ms. streams k' key = add_entries ms (streams k key) \<and>
        (\<forall>x \<in> set ms. \<exists>m t. m \<in> set members \<and> json_Unmarshal_task m = Inr t \<and>
           key = QueueName (Priority t) \<and> carries t x)" for key
    using t(2,3) unfolding k' upd_stream_def
    by (cases "key = QueueName (Priority t)") (fastforce intro: exI [of _ "[]"])+
  then show ?thesis by (simp add: flush_rel_def k') (simp add: upd_stream_def)
qed

lemma flush_cmd_effs: "flush_cmd members c \<Longrightarrow> redis_effs c k k' \<Longrightarrow> flush_rel members k k'"
  by (erule redis_effs_induct [where P = "flush_rel members k"])
    (simp, metis flush_rel_trans flush_cmd_ok)

lemma flush_rel_grows: "flush_rel members k k' \<Longrightarrow> queued t k \<Longrightarrow> queued t k'"
proof -
  assume "flush_rel members k k'" "queued t k"
  moreover then obtain ms where "streams k' (QueueName (Priority t)) = add_entries ms (streams k (QueueName (Priority t)))"
    unfolding flush_rel_def by blast
  ultimately show ?thesis by (auto simp: queued_def add_entries_def)
qed

lemma set_valid_members: "(m, t) \<in> set (valid_members ms) \<longleftrightarrow> m \<in> set ms \<and> json_Unmarshal_task m = Inr t"
  by (force simp: valid_members_def split: sum.splits)

lemma set_corrupt_members: "(m, err) \<in> set (corrupt_members ms) \<longleftrightarrow> m \<in> set ms \<and> json_Unmarshal_task m = Inl err"
  by (force simp: corrupt_members_def split: sum.splits)

lemma set_xadd_tasks: "(t, p) \<in> set (xadd_tasks ts) \<longleftrightarrow> t \<in> set ts \<and> json_Marshal_task t = Inr p"
  by (force simp: xadd_tasks_def MarshalTaskPayload_def split: sum.splits)

lemma poison_entries_fst: "(m, entry) \<in> set (poison_entries now corrupt) \<Longrightarrow> m \<in> fst ` set corrupt"
  by (force simp: poison_entries_def split: sum.splits)

lemma set_flushed:
  "t \<in> set (flushed_tasks xadds rs) \<Longrightarrow>
   \<exists>i p r. i < length xadds \<and> i < length rs \<and> xadds ! i = (t, p) \<and> rs ! i = Inr r"
proof -
  assume "t \<in> set (flushed_tasks xadds rs)"
  then obtain x r where "(x, r) \<in> set (zip xadds rs)" and "t \<in> set (case x of (t, _) \<Rightarrow> case reply_err r of None \<Rightarrow> [t] | Some _ \<Rightarrow> [])"
    by (auto simp: flushed_tasks_def)
  moreover then obtain p where "x = (t, p)" "reply_err r = None"
    by (cases x; cases "reply_err r") auto
  ultimately show ?thesis by (fastforce simp: in_set_zip)
qed

context redis_env begin

lemma pipe_flush_rel:
  assumes "pipe_exec e cs s = (rs, s')" and "\<And>c. c \<in> set cs \<Longrightarrow> flush_cmd members c"
  shows "flush_rel members (ks s) (ks s')"
  by (rule pipe_inv [OF assms(1), where P = "flush_rel members (ks s)"])
    (simp, metis assms(2) flush_cmd_effs flush_rel_trans)

lemma quarantine_flush_rel:
  assumes "fst ` set corrupt \<subseteq> set members"
  shows "flush_rel members (ks s) (ks (quarantineCorruptMembers e cfg corrupt s))"
proof -
  obtain now s1 where n: "time_now e s = (now, s1)" by fastforce
  then have k1: "ks s1 = ks s" by (rule now_ks)
  define cmds where "cmds = map (\<lambda>(m, entry). RPUSH retryPoisonKey entry) (poison_entries now corrupt) @
       [ZREM retryDelayedKey (map fst (poison_entries now corrupt))] @
       (if 0 <s DLQTTLSeconds (CfgRetry cfg)
        then [EXPIRE retryPoisonKey (DLQTTLSeconds (CfgRetry cfg) * go_second)] else [])"
  obtain rs s2 where p: "pipe_exec e cmds s1 = (rs, s2)" by fastforce
  have "flush_cmd members c" if "c \<in> set cmds" for c
    using that assms poison_entries_fst [of _ _ now corrupt]
    unfolding cmds_def flush_cmd_def by (fastforce split: if_splits)
  then have "flush_rel members (ks s1) (ks s2)" by (rule pipe_flush_rel [OF p])
  moreover have "quarantineCorruptMembers e cfg corrupt s = (if poison_entries now corrupt = [] then s1 else s2)"
    unfolding quarantineCorruptMembers_def Let_def n prod.case cmds_def [symmetric] p by simp
  ultimately show ?thesis using k1 by auto
qed

lemma flush_pipe_queued:
  assumes "pipe_exec e (map (\<lambda>(t, p). xadd_cmd t p) xadds @ [ZREM retryDelayedKey ms]) s = (rs, s')"
    and "\<And>t p. (t, p) \<in> set xadds \<Longrightarrow> json_Marshal_task t = Inr p"
    and "t \<in> set (flushed_tasks xadds rs)"
  shows "queued t (ks s')"
proof -
  let ?cs = "map (\<lambda>(t, p). xadd_cmd t p) xadds @ [ZREM retryDelayedKey ms]"
  obtain i p r where i: "i < length xadds" "i < length rs" "xadds ! i = (t, p)" "rs ! i = Inr r"
    using set_flushed [OF assms(3)] by blast
  then have c: "?cs ! i = xadd_cmd t p" by (simp add: nth_append)
  have m: "json_Marshal_task t = Inr p" using i assms(2) by (metis nth_mem)
  have cmds: "flush_cmd (ms @ [Doc (JObj [])]) c \<or> (\<exists>t p. c = xadd_cmd t p)" if "c \<in> set ?cs" for c
    using that by (auto simp: flush_cmd_def)
  show ?thesis
  proof (rule pipe_est [OF assms(1), of i r "queued t"])
    show "i < length ?cs" "rs ! i = Inr r" using i by simp_all
    show "queued t k'" if ok: "redis_ok (?cs ! i) k x k'" for k k' x
      using ok m unfolding c by (auto simp: xadd_cmd_def queued_def carries_def upd_stream_def)
    show "queued t k'" if "c \<in> set (drop (Suc i) ?cs)" "queued t k" "redis_effs c k k'" for c k k'
    proof -
      from that(1) have "c \<in> set ?cs" by (rule in_set_dropD)
      then consider "c = ZREM retryDelayedKey ms" | t' p' where "c = xadd_cmd t' p'" by auto
      then show ?thesis
      proof cases
        case 1
        with that show ?thesis using zrem_effs [of retryDelayedKey ms k k'] by (auto simp: queued_def upd_zset_def)
      next
        case 2
        with that have "grows k k'" using xadd_effs grows_upd_stream unfolding xadd_cmd_def by metis
        with that(2) show ?thesis by (rule queued_grows)
      qed
    qed
  qed
qed

lemma FlushReady_spec:
  assumes "FlushReady e cfg s = (res, s')"
  shows "\<exists>members.
    (\<forall>ts. res = Inr ts \<longrightarrow>
       zrange_ok (retry_set (ks s)) (score_limit (show_int (time_unix (fst (time_now e s))))) 100 members \<and>
       (\<forall>t \<in> set ts. queued t (ks s'))) \<and>
    (\<forall>err. res = Inl err \<longrightarrow> members = []) \<and> flush_rel members (ks s) (ks s')"
proof -
  obtain now s1 where n: "time_now e s = (now, s1)" by fastforce
  let ?c = "ZRANGEBYSCORE retryDelayedKey (show_int (time_unix now)) 100"
  obtain r s2 where r: "env_client e ?c s1 = (r, s2)" by fastforce
  have k1: "ks s1 = ks s" by (rule now_ks [OF n])
  have k2: "ks s2 = ks s" using client_read_only [OF _ r] k1 by simp
  show ?thesis
  proof (cases "reply_texts r")
    case (Inl er)
    then show ?thesis using assms n r k2
      by (intro exI [of _ "[]"]) (auto simp: FlushReady_def Let_def)
  next
    case (Inr ms)
    then have z: "zrange_ok (retry_set (ks s)) (score_limit (show_int (time_unix now))) 100 ms"
      using client_read [of ?c s1 "RTexts ms" s2] r k1 by simp
    define s3 where "s3 = (if corrupt_members ms \<noteq> [] then quarantineCorruptMembers e cfg (corrupt_members ms) s2 else s2)"
    have "fst ` set (corrupt_members ms) \<subseteq> set ms" by (auto simp: set_corrupt_members)
    then have f3: "flush_rel ms (ks s) (ks s3)"
      using quarantine_flush_rel [of "corrupt_members ms" ms s2 cfg] k2 by (auto simp: s3_def)
    define xadds where "xadds = xadd_tasks (map snd (valid_members ms))"
    let ?cs = "map (\<lambda>(t, p). xadd_cmd t p) xadds @ [ZREM retryDelayedKey (map fst (valid_members ms))]"
    obtain rs s4 where p: "pipe_exec e ?cs s3 = (rs, s4)" by fastforce
    have xm: "(t, p) \<in> set xadds \<Longrightarrow> json_Marshal_task t = Inr p \<and> (\<exists>m \<in> set ms. json_Unmarshal_task m = Inr t)" for t p
      by (auto simp: xadds_def set_xadd_tasks set_valid_members)
    have "flush_cmd ms c" if "c \<in> set ?cs" for c
      using that xm by (fastforce simp: flush_cmd_def set_valid_members)
    then have f4: "flush_rel ms (ks s) (ks s4)" using pipe_flush_rel [OF p] f3 flush_rel_trans by blast
    have q: "\<forall>t \<in> set (flushed_tasks xadds rs). queued t (ks s4)"
      using flush_pipe_queued [OF p] xm by blast
    obtain rd s5 where rd: "env_client e (ZCARD retryDelayedKey) s4 = (rd, s5)" by fastforce
    have k5: "ks s5 = ks s4" by (rule client_read_only [OF _ rd]) simp
    define s6 where "s6 = (case reply_int rd of Inl _ \<Rightarrow> s5 | Inr depth \<Rightarrow> record_metric e
        (RecordQueueDepth ''retry:delayed'' (f64_of_rat (of_int depth))) s5)"
    have k6: "ks s6 = ks s4" using k5 by (simp add: s6_def split: sum.split)
    have "FlushReady e cfg s = (if ms = [] then (Inr [], s2) else if valid_members ms = [] then (Inr [], s3)
        else (Inr (flushed_tasks xadds rs), s6))"
      by (simp only: FlushReady_def Let_def n r Inr prod.case sum.case p rd
          flip: s3_def xadds_def s6_def)
    with assms consider "res = Inr []" "ks s' = ks s" | "res = Inr []" "ks s' = ks s3"
      | "res = Inr (flushed_tasks xadds rs)" "ks s' = ks s4"
      using k2 k6 by (auto split: if_splits)
    then show ?thesis using z f3 f4 q
      by (intro exI [of _ ms]; cases) (auto simp: n)
  qed
qed

end

lemma zrange_ok_due:
  assumes "zrange_ok z hi n ms"
  shows "length ms \<le> n" and "m \<in> set ms \<Longrightarrow> \<exists>sc. (m, sc) \<in> set z \<and> score_le sc hi"
proof -
  obtain z' where z': "mset z' = mset (filter (\<lambda>(_, sc). score_le sc hi) z)" "ms = take n (map fst z')"
    using assms by (auto simp: zrange_ok_def)
  show "length ms \<le> n" using z'(2) by simp
  show "\<exists>sc. (m, sc) \<in> set z \<and> score_le sc hi" if "m \<in> set ms"
    using that z' mset_eq_setD [OF z'(1)] by (fastforce dest: in_set_takeD)
qed

subsection \<open>Properties\<close>

text \<open>C27: \<open>ScheduleRetry\<close> is durable and idempotent: when it returns nil the task is in the retry set, every
  entry that was there keeps its score, and scheduling the same task again, with whatever delay
  and whatever its outcome, changes nothing; when it fails, the set is unchanged or holds the task.\<close>

theorem ScheduleRetry_durable:
  assumes "redis_env e ks" and "ScheduleRetry e t delay s = (err, s1)"
  shows "(err = None \<longrightarrow> retry_stored t (ks s1)) \<and>
    set (retry_set (ks s)) \<subseteq> set (retry_set (ks s1)) \<and>
    (ks s1 = ks s \<or> (\<exists>p sc. json_Marshal_task t = Inr p \<and>
       ks s1 = upd_zset retryDelayedKey (\<lambda>z. z @ [(p, sc)]) (ks s))) \<and>
    (err = None \<and> ScheduleRetry e t delay' s1 = (err', s2) \<longrightarrow> ks s2 = ks s1)"
proof -
  note S = redis_env.ScheduleRetry_spec [OF assms]
  have app: "upd_zset retryDelayedKey (zadd_nx sc p) k = k \<or>
      upd_zset retryDelayedKey (zadd_nx sc p) k = upd_zset retryDelayedKey (\<lambda>z. z @ [(p, sc)]) k" for sc p k
    by (simp add: upd_zset_def zadd_nx_def)
  have "ks s2 = ks s1" if "err = None" "ScheduleRetry e t delay' s1 = (err', s2)"
  proof -
    obtain p sc where p: "json_Marshal_task t = Inr p" "ks s1 = upd_zset retryDelayedKey (zadd_nx sc p) (ks s)"
      using S \<open>err = None\<close> by blast
    then have "upd_zset retryDelayedKey (zadd_nx sc' p) (ks s1) = ks s1" for sc'
      by (simp add: upd_zset_def)
    with redis_env.ScheduleRetry_spec [OF assms(1) that(2)] p show ?thesis by auto
  qed
  moreover have "err = None \<longrightarrow> retry_stored t (ks s1)"
    using redis_env.ScheduleRetry_stored [OF assms(1)] assms(2) by blast
  moreover have "set (retry_set (ks s)) \<subseteq> set (retry_set (ks s1))"
    using S by (auto simp: upd_zset_def zadd_nx_def)
  ultimately show ?thesis using S app by metis
qed

text \<open>C31: What a flush may do, under any faults: it reads at most 100 members, all due by its clock; members
  outside the batch stay with their scores, in particular every task that is not yet due; no
  member is added; the streams only gain messages, each built from a decodable member of the batch and in the stream of its
  priority; every task it reports as flushed is in its stream; and no other sorted set, lock or
  list (the poison list apart) changes.\<close>

theorem FlushReady_safe:
  assumes "redis_env e ks" and "FlushReady e cfg s = (res, s')"
  shows "\<exists>members. length members \<le> 100 \<and> flush_rel members (ks s) (ks s') \<and>
    (\<forall>m. m \<in> set members \<longrightarrow> (\<exists>sc. (m, sc) \<in> set (retry_set (ks s)) \<and>
       score_le sc (score_limit (show_int (time_unix (fst (time_now e s))))))) \<and>
    (\<forall>ts. res = Inr ts \<longrightarrow> (\<forall>t. t \<in> set ts \<longrightarrow> queued t (ks s')))"
proof -
  obtain members where m: "\<forall>ts. res = Inr ts \<longrightarrow>
       zrange_ok (retry_set (ks s)) (score_limit (show_int (time_unix (fst (time_now e s))))) 100 members \<and>
       (\<forall>t \<in> set ts. queued t (ks s'))" "\<forall>err. res = Inl err \<longrightarrow> members = []"
    "flush_rel members (ks s) (ks s')"
    using redis_env.FlushReady_spec [OF assms] by blast
  show ?thesis
  proof (cases res)
    case (Inl er)
    then have "members = []" using m(2) by blast
    then show ?thesis using m(3) Inl by (intro exI [of _ "[]"]) simp
  next
    case (Inr ts)
    then have "zrange_ok (retry_set (ks s)) (score_limit (show_int (time_unix (fst (time_now e s))))) 100 members"
      using m(1) by blast
    from zrange_ok_due [OF this] m Inr show ?thesis by (intro exI [of _ members]) simp
  qed
qed

lemma flush_keeps_delayed:
  assumes "redis_env e ks" shows "zsets (ks (scheduler_ticks n e cfg s)) delayedQueueKey = zsets (ks s) delayedQueueKey"
proof (induction n arbitrary: s)
  case (Suc n)
  obtain res s' where f: "FlushReady e cfg s = (res, s')" by fastforce
  then obtain members where "flush_rel members (ks s) (ks (snd (FlushReady e cfg s)))"
    using redis_env.FlushReady_spec [OF assms f] by auto
  moreover have "delayedQueueKey \<noteq> retryDelayedKey" by (simp add: delayedQueueKey_def retryDelayedKey_def)
  ultimately show ?case using Suc by (simp add: flush_rel_def)
qed simp

text \<open>A task scheduled with \<open>EnqueueDelayed\<close> is never delivered: the entry it writes is still in the delayed
  set after any number of scheduler ticks, at whatever time they happen, because the flush reads
  another key.\<close>

theorem EnqueueDelayed_never_flushed:
  assumes "redis_env e ks" and "EnqueueDelayed e t delay s = ((None, t'), s1)"
    and "DelayedScheduler_Run n e cfg s1 = Some (r, s2)"
  shows "\<exists>p sc. json_Marshal_task t' = Inr p \<and> (p, sc) \<in> set (zsets (ks s2) delayedQueueKey)"
proof -
  obtain p sc where p: "json_Marshal_task t' = Inr p" "ks s1 = upd_zset delayedQueueKey (zadd sc p) (ks s)"
    using redis_env.EnqueueDelayed_spec [OF assms(1,2)] by blast
  have "\<exists>sc'. (p, sc') \<in> set (zadd sc p z)" for z
    by (force simp: zadd_def)
  then have "\<exists>sc'. (p, sc') \<in> set (zsets (ks s1) delayedQueueKey)" by (simp add: p(2) upd_zset_def)
  moreover have "s2 = scheduler_ticks n e cfg s1"
    using assms(3) by (simp add: DelayedScheduler_Run_def split: if_splits)
  ultimately show ?thesis using p(1) flush_keeps_delayed [OF assms(1), of n cfg s1] by auto
qed

subsection \<open>A task lost by a flush\<close>

lemma sample_task_clean0: "task_clean sample_task"
proof -
  have "task_clean (sample_task\<lparr>LastError := []\<rparr>)" by (rule sample_task_clean) (simp add: utf8_ok_ascii)
  then show ?thesis by (simp add: sample_task_def)
qed

abbreviation sample_payload :: jtext where
  "sample_payload \<equiv> Doc (JObj (task_members sample_task None))"

lemma sample_unmarshal: "json_Unmarshal_task sample_payload = Inr sample_task"
proof -
  have "norm_task sample_task = sample_task" by (simp add: norm_task_def norm_map_def sample_task_def)
  with task_members_roundtrip [OF sample_task_clean0, of None] show ?thesis by simp
qed

definition retry_world :: "fault list \<Rightarrow> mem_world" where
  "retry_world fs =
     \<lparr>mem_ks = empty_ks\<lparr>zsets := (\<lambda>_. [])(retryDelayedKey := [(sample_payload, Fin 1700000000)])\<rparr>,
      mem_faults = fs, mem_clock = 1700000100000000000, mem_metrics = [], mem_ctx = None, mem_rand = Fin 0\<rparr>"

lemma due_score: "score_le (Fin 1700000000) (score_limit (show_int 1700000100))"
proof -
  have "f64_of_rat (of_int 1700000100) = Fin 1700000100"
    using f64_of_rat_Fin(1) [of 1700000100] rnd64_of_int [of 1700000100] by simp
  then show ?thesis by (simp add: score_le_def score_limit_def)
qed

text \<open>
  A Redis that is out of memory under the policy ADR-001 prescribes (noeviction): it answers each command of a
  pipeline on its own, refuses the XADDs with an error, and still answers ZREM, which frees memory. Nothing else is said of it.
\<close>

locale redis_full = redis_env e ks
  for e :: "'s env" and ks :: "'s \<Rightarrow> keyspace" +
  assumes refused: "env_client e (XADD key vals) s = (r, s') \<Longrightarrow> (\<exists>er. r = Inl er) \<and> ks s' = ks s"
    and removes: "ms \<noteq> [] \<Longrightarrow> env_client e (ZREM key ms) s = (r, s') \<Longrightarrow> \<exists>x. r = Inr x"
begin

lemma refused_pipe:
  assumes "pipe_exec e (map (\<lambda>(t, p). xadd_cmd t p) xadds @ cs) s = (rs, s')"
  shows "\<exists>rs1 rs2 s1. rs = rs1 @ rs2 \<and> length rs1 = length xadds \<and> (\<forall>r \<in> set rs1. \<exists>er. r = Inl er) \<and>
    ks s1 = ks s \<and> pipe_exec e cs s1 = (rs2, s')"
  using assms
proof (induction xadds arbitrary: s rs)
  case Nil
  then show ?case by (intro exI [of _ "[]"] exI [of _ rs] exI [of _ s]) simp
next
  case (Cons x xadds)
  obtain t p where x: "x = (t, p)" by fastforce
  obtain r s1 where r: "env_client e (xadd_cmd t p) s = (r, s1)" by fastforce
  then have R: "\<exists>er. r = Inl er" "ks s1 = ks s" using refused [of _ _ s r s1] by (simp_all add: xadd_cmd_def)
  obtain rs' where rs: "rs = r # rs'" and p: "pipe_exec e (map (\<lambda>(t, p). xadd_cmd t p) xadds @ cs) s1 = (rs', s')"
    using Cons.prems by (auto simp: x r Let_def split: prod.splits)
  from Cons.IH [OF p] obtain rs1 rs2 s2 where "rs' = rs1 @ rs2" "length rs1 = length xadds" "\<forall>r \<in> set rs1. \<exists>er. r = Inl er"
    "ks s2 = ks s1" "pipe_exec e cs s2 = (rs2, s')" by blast
  then show ?case using R by (intro exI [of _ "r # rs1"] exI [of _ rs2] exI [of _ s2]) (auto simp: rs)
qed

lemma refused_flush_pipe:
  assumes "pipe_exec e (map (\<lambda>(t, p). xadd_cmd t p) xadds @ [ZREM retryDelayedKey ms]) s = (rs, s')" and "ms \<noteq> []"
  shows "ks s' = upd_zset retryDelayedKey (zrem ms) (ks s) \<and> flushed_tasks xadds rs = []"
proof -
  obtain rs1 rs2 s1 where rs: "rs = rs1 @ rs2" "length rs1 = length xadds" "\<forall>r \<in> set rs1. \<exists>er. r = Inl er"
    and z: "ks s1 = ks s" "pipe_exec e [ZREM retryDelayedKey ms] s1 = (rs2, s')" using refused_pipe [OF assms(1)] by blast
  obtain r where r: "env_client e (ZREM retryDelayedKey ms) s1 = (r, s')"
    using z(2) by (auto split: prod.splits)
  obtain x where "r = Inr x" using removes [OF assms(2) r] ..
  then obtain k where "redis_effs (ZREM retryDelayedKey ms) (ks s) k" "redis_ok (ZREM retryDelayedKey ms) k x (ks s')"
    using client_ok r z(1) by metis
  then have "ks s' = upd_zset retryDelayedKey (zrem ms) (ks s)"
    using zrem_effs [of retryDelayedKey ms "ks s" k] by (auto simp: upd_zset_idem)
  moreover have "t \<notin> set (flushed_tasks xadds rs)" for t
  proof
    assume "t \<in> set (flushed_tasks xadds rs)"
    then obtain i p r where i: "i < length xadds" "rs ! i = Inr r" using set_flushed by blast
    then have "Inr r \<in> set rs1" using rs(1,2) nth_mem [of i rs1] by (simp add: nth_append)
    with rs(3) show False by auto
  qed
  ultimately show ?thesis using last_in_set by blast
qed

end

context redis_env begin

lemma quarantine_streams: "streams (ks (quarantineCorruptMembers e cfg corrupt s)) = streams (ks s)"
proof -
  obtain now s1 where n: "time_now e s = (now, s1)" by fastforce
  have step: "streams k' = streams (ks s)" if "streams k = streams (ks s)" "redis_effs c k k'"
    "(\<exists>v. c = RPUSH retryPoisonKey v) \<or> (\<exists>ms. c = ZREM retryDelayedKey ms) \<or> (\<exists>d. c = EXPIRE retryPoisonKey d)" for c k k'
    using that(2,1) by (rule redis_effs_induct [where P = "\<lambda>k. streams k = streams (ks s)"])
      (use that(3) in \<open>auto simp: upd_list_def upd_zset_def split: if_splits\<close>)
  obtain rs s2 where p: "pipe_exec e (map (\<lambda>(m, entry). RPUSH retryPoisonKey entry) (poison_entries now corrupt) @
       [ZREM retryDelayedKey (map fst (poison_entries now corrupt))] @
       (if 0 <s DLQTTLSeconds (CfgRetry cfg)
        then [EXPIRE retryPoisonKey (DLQTTLSeconds (CfgRetry cfg) * go_second)] else [])) s1 = (rs, s2)" by fastforce
  have "streams (ks s2) = streams (ks s)"
    by (rule pipe_inv [OF p, where P = "\<lambda>k. streams k = streams (ks s)"])
      (simp add: now_ks [OF n], rule step, auto split: if_splits)
  then show ?thesis using now_ks [OF n]
    unfolding quarantineCorruptMembers_def Let_def n prod.case p by simp
qed

end

context redis_full begin

lemma full_flush:
  assumes "FlushReady e cfg s = (Inr ts, s')"
  shows "ts = [] \<and> streams (ks s') = streams (ks s) \<and>
    (\<exists>members. zrange_ok (retry_set (ks s)) (score_limit (show_int (time_unix (fst (time_now e s))))) 100 members \<and>
       flush_rel members (ks s) (ks s') \<and>
       (\<forall>m t. m \<in> set members \<longrightarrow> json_Unmarshal_task m = Inr t \<longrightarrow> m \<notin> fst ` set (retry_set (ks s'))))"
proof -
  obtain now s1 where n: "time_now e s = (now, s1)" by fastforce
  let ?c = "ZRANGEBYSCORE retryDelayedKey (show_int (time_unix now)) 100"
  obtain r s2 where r: "env_client e ?c s1 = (r, s2)" by fastforce
  have k: "ks s1 = ks s" "ks s2 = ks s" using now_ks [OF n] client_read_only [OF _ r] by simp_all
  obtain ms where ms: "reply_texts r = Inr ms" using assms n r by (auto simp: FlushReady_def Let_def split: sum.splits)
  have z: "zrange_ok (retry_set (ks s)) (score_limit (show_int (time_unix now))) 100 ms"
    using client_read [of ?c s1 "RTexts ms" s2] r k ms by simp
  define s3 where "s3 = (if corrupt_members ms \<noteq> [] then quarantineCorruptMembers e cfg (corrupt_members ms) s2 else s2)"
  have "fst ` set (corrupt_members ms) \<subseteq> set ms" by (auto simp: set_corrupt_members)
  then have f3: "flush_rel ms (ks s) (ks s3)"
    using quarantine_flush_rel [of "corrupt_members ms" ms s2 cfg] k by (auto simp: s3_def)
  have st3: "streams (ks s3) = streams (ks s)" using quarantine_streams k by (simp add: s3_def)
  define xadds where "xadds = xadd_tasks (map snd (valid_members ms))"
  define gone where "gone = map fst (valid_members ms)"
  obtain rs s4 where p: "pipe_exec e (map (\<lambda>(t, p). xadd_cmd t p) xadds @ [ZREM retryDelayedKey gone]) s3 = (rs, s4)" by fastforce
  obtain rd s5 where rd: "env_client e (ZCARD retryDelayedKey) s4 = (rd, s5)" by fastforce
  have k5: "ks s5 = ks s4" by (rule client_read_only [OF _ rd]) simp
  define s6 where "s6 = (case reply_int rd of Inl _ \<Rightarrow> s5 | Inr depth \<Rightarrow> record_metric e
      (RecordQueueDepth ''retry:delayed'' (f64_of_rat (of_int depth))) s5)"
  have k6: "ks s6 = ks s4" using k5 by (simp add: s6_def split: sum.split)
  have F: "FlushReady e cfg s = (if ms = [] then (Inr [], s2) else if valid_members ms = [] then (Inr [], s3)
      else (Inr (flushed_tasks xadds rs), s6))"
    by (simp only: FlushReady_def Let_def n r ms prod.case sum.case p rd flip: s3_def xadds_def gone_def s6_def)
  have gone: "m \<in> set gone" if "m \<in> set ms" "json_Unmarshal_task m = Inr t" for m t
    using that set_valid_members by (force simp: gone_def)
  show ?thesis
  proof (cases "ms = [] \<or> valid_members ms = []")
    case True
    then have "gone = []" using gone by (auto simp: gone_def valid_members_def)
    then have "json_Unmarshal_task m \<noteq> Inr t" if "m \<in> set ms" for m t using gone that by fastforce
    moreover have "ts = []" "ks s' = ks s \<and> ms = [] \<or> ks s' = ks s3" using assms F True k by (auto split: if_splits)
    ultimately show ?thesis using z f3 st3 by (auto simp: n intro!: exI [of _ ms])
  next
    case False
    then have s': "ts = flushed_tasks xadds rs" "ks s' = ks s4" using assms F k6 by auto
    have "gone \<noteq> []" using False by (simp add: gone_def)
    from refused_flush_pipe [OF p this] have P: "ks s4 = upd_zset retryDelayedKey (zrem gone) (ks s3)" "flushed_tasks xadds rs = []"
      by simp_all
    have "flush_cmd ms (ZREM retryDelayedKey gone)" by (auto simp: flush_cmd_def gone_def set_valid_members)
    then have "flush_rel ms (ks s3) (ks s4)"
      using flush_cmd_ok [of ms _ "ks s3" _ "ks s4"] \<open>gone \<noteq> []\<close> P(1) by fastforce
    then have "flush_rel ms (ks s) (ks s')" using f3 flush_rel_trans s'(2) by metis
    moreover have "m \<notin> fst ` set (retry_set (ks s'))" if "m \<in> set ms" "json_Unmarshal_task m = Inr t" for m t
      using gone [OF that] by (auto simp: s'(2) P(1) upd_zset_def zrem_def)
    ultimately show ?thesis using z st3 s' P by (auto simp: n upd_zset_def intro!: exI [of _ ms])
  qed
qed

end

lemma zrange_ok_all:
  assumes "zrange_ok z hi n ms" and "length (filter (\<lambda>(_, sc). score_le sc hi) z) \<le> n"
    and "(m, sc) \<in> set z" and "score_le sc hi"
  shows "m \<in> set ms"
proof -
  obtain z' where z': "mset z' = mset (filter (\<lambda>(_, sc). score_le sc hi) z)" "ms = take n (map fst z')"
    using assms(1) by (auto simp: zrange_ok_def)
  from mset_eq_length [OF z'(1)] assms(2) have "ms = map fst z'" using z'(2) by simp
  moreover have "(m, sc) \<in> set z'" using mset_eq_setD [OF z'(1)] assms(3,4) by auto
  ultimately show ?thesis by force
qed


text \<open>A full server in memory: the commands that need memory are refused.\<close>

fun needs_memory :: "rcmd \<Rightarrow> bool" where
  "needs_memory (XADD _ _) \<longleftrightarrow> True"
| "needs_memory (ZADD _ _ _) \<longleftrightarrow> True"
| "needs_memory (ZADD_NX _ _ _) \<longleftrightarrow> True"
| "needs_memory (RPUSH _ _) \<longleftrightarrow> True"
| "needs_memory (SET_XX _ _ _) \<longleftrightarrow> True"
| "needs_memory _ \<longleftrightarrow> False"

definition full_client :: "rcmd \<Rightarrow> mem_world \<Rightarrow> (go_error + reply) \<times> mem_world" where
  "full_client c m =
     (if needs_memory c then (Inl (ENew ''OOM command not allowed when used memory > maxmemory''), m)
      else let (res, k) = mem_exec c (mem_ks m) in (res, m\<lparr>mem_ks := k\<rparr>))"

definition full_env :: "mem_world env" where
  "full_env = (mem_env False)\<lparr>env_client := full_client\<rparr>"

lemma full_env_sels [simp]:
  "env_client full_env = full_client" "time_now full_env s = (mem_clock s, s)" "ctx_err full_env s = (mem_ctx s, s)"
  "rand_float full_env s = (mem_rand s, s)" "record_metric full_env m s = s\<lparr>mem_metrics := mem_metrics s @ [m]\<rparr>"
  by (simp_all add: full_env_def)

lemma full_client_cases:
  assumes "full_client c m = (res, m')"
  shows "mem_ks m' = mem_ks m \<and> (\<exists>text. res = Inl (ENew text)) \<or> mem_exec c (mem_ks m) = (res, mem_ks m')"
  using assms by (auto simp: full_client_def split: if_splits prod.splits)

interpretation full_env: redis_full full_env mem_ks
proof unfold_locales
  fix c s r s' assume "env_client full_env c s = (Inr r, s')"
  then have "mem_exec c (mem_ks s) = (Inr r, mem_ks s')" using full_client_cases by fastforce
  then show "\<exists>k. redis_effs c (mem_ks s) k \<and> redis_ok c k r (mem_ks s')" using mem_exec_ok by blast
next
  fix c s er s' assume "env_client full_env c s = (Inl er, s')"
  then have "mem_ks s' = mem_ks s" using full_client_cases mem_exec_err by fastforce
  then show "redis_effs c (mem_ks s) (mem_ks s')" by simp
next
  fix c s er s' assume "env_client full_env c s = (Inl er, s')" "errors_is er ErrRedisNil"
  then show "redis_nil c (mem_ks s')" using full_client_cases [of c s "Inl er" s'] mem_exec_err [of c "mem_ks s"] by fastforce
qed (auto simp: full_client_def split: prod.splits if_splits)


theorem ScheduleRetry_durable_witness:
  "retry_stored sample_task (mem_ks (snd (ScheduleRetry (mem_env True) sample_task 2000000000
     (sample_world Map.empty [Resent]))))"
proof -
  let ?s = "sample_world Map.empty [Resent]"
  obtain err s1 where r: "ScheduleRetry (mem_env True) sample_task 2000000000 ?s = (err, s1)" by fastforce
  have "err = None" using r
    by (simp add: ScheduleRetry_def sample_marshal Let_def mem_eval)
  with ScheduleRetry_durable [OF mem_env.redis_env_axioms r] r show ?thesis by simp
qed

theorem FlushReady_safe_witness:
  "\<exists>members. length members \<le> 100 \<and>
     flush_rel members (mem_ks (retry_world [Resent, Resent, LostReply]))
       (mem_ks (snd (FlushReady (mem_env True) sample_config (retry_world [Resent, Resent, LostReply]))))"
proof -
  let ?s = "retry_world [Resent, Resent, LostReply]"
  obtain res s' where r: "FlushReady (mem_env True) sample_config ?s = (res, s')" by fastforce
  from FlushReady_safe [OF mem_env.redis_env_axioms r] r show ?thesis by auto
qed

theorem EnqueueDelayed_never_flushed_witness:
  "\<exists>t p sc. json_Marshal_task t = Inr p \<and>
     (p, sc) \<in> set (zsets (mem_ks (scheduler_ticks 5 (mem_env True) sample_config
       (snd (EnqueueDelayed (mem_env True) sample_task 60000000000 (sample_world Map.empty []))))) delayedQueueKey)"
proof -
  let ?s = "sample_world Map.empty []"
  obtain err t' s1 where r: "EnqueueDelayed (mem_env True) sample_task 60000000000 ?s = ((err, t'), s1)"
    by (metis prod.exhaust)
  have "Validate sample_task = None"
    by (simp add: Validate_None_iff valid_task_def TaskType_IsValid_iff Priority_IsValid_iff)
  moreover have "json_Marshal_task (sample_task\<lparr>ScheduledFor := Some 1700000160000000000\<rparr>) =
      Inr (Doc (JObj (task_members (sample_task\<lparr>ScheduledFor := Some 1700000160000000000\<rparr>) None)))"
    by (simp add: json_Marshal_task_def task_json_def times_ok_def time_in_range_def time_unix_def)
  moreover have "mem_ctx ?s = None" by (simp add: sample_world_def)
  ultimately have "err = None" using r
    by (simp add: EnqueueDelayed_def Let_def time_add_def mem_eval)
  moreover have "DelayedScheduler_Run 5 (mem_env True) sample_config s1 =
      Some (None, scheduler_ticks 5 (mem_env True) sample_config s1)"
    by (simp add: DelayedScheduler_Run_def sample_config_def go_second_def word_sle_eq)
  ultimately show ?thesis
    using EnqueueDelayed_never_flushed [OF mem_env.redis_env_axioms, of True sample_task 60000000000 ?s t' s1 5
        sample_config None "scheduler_ticks 5 (mem_env True) sample_config s1"] r by auto
qed

end
