(* ===== verification/DLQ.thy ===== *)
theory DLQ
  imports Retry_Scheduler
begin

text \<open>
  internal/adapters/redis/dlq_writer.go and internal/worker/dlq_monitor.go: the dead-letter lists
  and the monitor that measures them.
\<close>

definition dlqKeyPrefix :: string where "dlqKeyPrefix = ''queue:dlq:''"

definition dlqKey :: "string \<Rightarrow> string \<Rightarrow> string" where
  "dlqKey tenantID taskType = dlqKeyPrefix @ tenantID @ '':'' @ taskType"

text \<open>A nil entry pointer is \<open>None\<close>.\<close>

definition SendToDLQ :: "'s env \<Rightarrow> Config \<Rightarrow> DLQEntry option \<Rightarrow> 's \<Rightarrow> go_error option \<times> 's" where
  "SendToDLQ e cfg entry s =
     (case entry of
        None \<Rightarrow> (Some (ENew ''dlq writer: entry or entry.Task is nil''), s)
      | Some entry \<Rightarrow>
        (case Task entry of
           None \<Rightarrow> (Some (ENew ''dlq writer: entry or entry.Task is nil''), s)
         | Some task \<Rightarrow>
           (case json_Marshal_dlq entry of
              Inl err \<Rightarrow> (Some (EWrap (''dlq writer: marshal entry for task '' @ ID task) err), s)
            | Inr payload \<Rightarrow>
                let key = dlqKey (TenantID task) (Type task);
                    ttl = DLQTTLSeconds (CfgRetry cfg) * go_second;
                    (results, s1) = pipe_exec e [RPUSH key payload, EXPIRE key ttl] s in
                case pipe_err results of
                  Some err \<Rightarrow> (Some (EWrap (''dlq writer: SendToDLQ task '' @ ID task) err), s1)
                | None \<Rightarrow>
                    let (r, s2) = env_client e (LLEN key) s1 in
                    (None, case reply_int r of
                       Inl _ \<Rightarrow> s2
                     | Inr depth \<Rightarrow> record_metric e
                         (RecordDLQDepth (TenantID task) (Type task) (f64_of_rat (of_int depth))) s2))))"

text \<open>Decoding the list stops at the first item that does not decode.\<close>

fun decode_dlq :: "string \<Rightarrow> nat \<Rightarrow> jtext list \<Rightarrow> go_error + DLQEntry list" where
  "decode_dlq pre i [] = Inr []"
| "decode_dlq pre i (item # items) =
     (case json_Unmarshal_dlq item of
        Inl err \<Rightarrow> Inl (EWrap (pre @ '': unmarshal index '' @ show_nat i) err)
      | Inr entry \<Rightarrow>
          (case decode_dlq pre (Suc i) items of Inl err \<Rightarrow> Inl err | Inr es \<Rightarrow> Inr (entry # es)))"

definition ListDLQ ::
  "'s env \<Rightarrow> string \<Rightarrow> string \<Rightarrow> i64 \<Rightarrow> 's \<Rightarrow> (go_error + DLQEntry list) \<times> 's" where
  "ListDLQ e tenantID taskType limit s =
     (if limit <=s 0 then (Inr [], s)
      else let (r, s1) = env_client e (LRANGE (dlqKey tenantID taskType) 0 (limit - 1)) s;
               pre = ''dlq writer: ListDLQ '' @ tenantID @ ''/'' @ taskType in
        case reply_texts r of
          Inl err \<Rightarrow> (Inl (EWrap pre err), s1)
        | Inr raw \<Rightarrow> (decode_dlq pre 0 raw, s1))"

definition DLQDepth :: "'s env \<Rightarrow> string \<Rightarrow> string \<Rightarrow> 's \<Rightarrow> (go_error + int) \<times> 's" where
  "DLQDepth e tenantID taskType s =
     (let (r, s1) = env_client e (LLEN (dlqKey tenantID taskType)) s in
      case reply_int r of
        Inl err \<Rightarrow> (Inl (EWrap (''dlq writer: DLQDepth '' @ tenantID @ ''/'' @ taskType) err), s1)
      | Inr depth \<Rightarrow> (Inr depth, s1))"

subsection \<open>The monitor\<close>

definition parseDLQKey :: "string \<Rightarrow> (string \<times> string) option" where
  "parseDLQKey key =
     (if \<not> HasPrefix key ''queue:dlq:'' then None
      else let rest = drop (length ''queue:dlq:'') key in
        case index_byte rest (CHR '':'') of
          None \<Rightarrow> None
        | Some idx \<Rightarrow>
            if idx = 0 \<or> length rest - 1 \<le> idx then None
            else Some (take idx rest, drop (idx + 1) rest))"

text \<open>
  One scrape: the keys whose depth exceeded the threshold are the warnings. The depth of a list
  comes from an operation \<open>depth\<close>, the port's \<open>DLQDepth\<close>.
\<close>

fun scrape ::
  "(string \<Rightarrow> string \<Rightarrow> 's \<Rightarrow> (go_error + int) \<times> 's) \<Rightarrow> (metric \<Rightarrow> 's \<Rightarrow> 's) \<Rightarrow> int \<Rightarrow> string list \<Rightarrow> 's \<Rightarrow>
   string list \<times> 's" where
  "scrape depth metric threshold [] s = ([], s)"
| "scrape depth metric threshold (key # keys) s =
     (case parseDLQKey key of
        None \<Rightarrow> scrape depth metric threshold keys s
      | Some (tenantID, taskType) \<Rightarrow>
          let (r, s1) = depth tenantID taskType s in
          (case r of
             Inl err \<Rightarrow> scrape depth metric threshold keys s1
           | Inr d \<Rightarrow>
               let s2 = metric (RecordDLQDepth tenantID taskType (f64_of_rat (of_int d))) s1;
                   (ws, s3) = scrape depth metric threshold keys s2
               in (if threshold < d then key # ws else ws, s3)))"

definition monitor_interval :: "Config \<Rightarrow> duration" where
  "monitor_interval cfg =
     (let interval = DLQMonitorInterval (CfgRetry cfg)
      in if interval <=s 0 then 30 * go_second else interval)"

definition monitor_threshold :: "Config \<Rightarrow> i64" where
  "monitor_threshold cfg =
     (let threshold = DLQAlertThreshold (CfgRetry cfg) in if threshold <=s 0 then 100 else threshold)"

fun DLQMonitor_Run ::
  "nat \<Rightarrow> (string \<Rightarrow> string \<Rightarrow> 's \<Rightarrow> (go_error + int) \<times> 's) \<Rightarrow> (metric \<Rightarrow> 's \<Rightarrow> 's) \<Rightarrow> Config \<Rightarrow> string list \<Rightarrow> 's \<Rightarrow> 's" where
  "DLQMonitor_Run 0 depth metric cfg keys s = s"
| "DLQMonitor_Run (Suc ticks) depth metric cfg keys s =
     DLQMonitor_Run ticks depth metric cfg keys
       (snd (scrape depth metric (sint (monitor_threshold cfg)) keys s))"

subsection \<open>Keys\<close>

text \<open>Tenant isolation of the dead-letter lists: for the task types the program accepts, two lists have the same
  Redis key only if they belong to the same tenant and type, whatever characters the tenant IDs hold.\<close>

theorem dlqKey_isolates_tenants:
  assumes "TaskType_IsValid ty" and "TaskType_IsValid ty'"
  shows "dlqKey tenant ty = dlqKey tenant' ty' \<longleftrightarrow> tenant = tenant' \<and> ty = ty'"
  using append_sep_inj [of tenant "CHR '':''" ty tenant' ty']
    TaskType_IsValid_no_colon [OF assms(1)] TaskType_IsValid_no_colon [OF assms(2)]
  by (auto simp: dlqKey_def)

theorem dlqKey_isolates_tenants_witness:
  "dlqKey ''acme:eu'' ''billing'' \<noteq> dlqKey ''acme'' ''marketing''"
  using dlqKey_isolates_tenants [of "''billing''" "''marketing''" "''acme:eu''" "''acme''"]
  by (simp add: TaskType_IsValid_iff)

text \<open>The monitor reads back the keys the writer makes: \<open>parseDLQKey\<close> inverts \<open>dlqKey\<close> exactly when the tenant
  is not empty and holds no colon and the type is not empty.\<close>

theorem parseDLQKey_inverts_dlqKey:
  "parseDLQKey (dlqKey tenant ty) = Some (tenant, ty) \<longleftrightarrow>
     tenant \<noteq> [] \<and> CHR '':'' \<notin> set tenant \<and> ty \<noteq> []"
proof -
  have d: "drop (length ''queue:dlq:'') (dlqKey tenant ty) = tenant @ CHR '':'' # ty"
    by (simp add: dlqKey_def dlqKeyPrefix_def)
  have pre: "HasPrefix (dlqKey tenant ty) ''queue:dlq:''" by (simp add: dlqKey_def dlqKeyPrefix_def)
  show ?thesis
  proof (cases "CHR '':'' \<in> set tenant")
    case False
    then have "index_byte (tenant @ CHR '':'' # ty) (CHR '':'') = Some (length tenant)"
      by (rule index_byte_append)
    then show ?thesis using d pre False by (auto simp: parseDLQKey_def Let_def)
  next
    case True
    have "parseDLQKey (dlqKey tenant ty) \<noteq> Some (tenant, ty)"
    proof
      assume "parseDLQKey (dlqKey tenant ty) = Some (tenant, ty)"
      then obtain i where "index_byte (tenant @ CHR '':'' # ty) (CHR '':'') = Some i"
        and "take i (tenant @ CHR '':'' # ty) = tenant"
        using d pre by (auto simp: parseDLQKey_def Let_def split: option.splits if_splits)
      with index_byte_Some True show False by metis
    qed
    with True show ?thesis by blast
  qed
qed

text \<open>A tenant ID with a colon is misread by the monitor: for the list of tenant \<open>acme:eu\<close> and type \<open>billing\<close> it
  measures and reports the list of tenant \<open>acme\<close> and type \<open>eu:billing\<close>.\<close>

theorem parseDLQKey_misreads_colon:
  "parseDLQKey (dlqKey ''acme:eu'' ''billing'') = Some (''acme'', ''eu:billing'')"
  by (simp add: parseDLQKey_def dlqKey_def dlqKeyPrefix_def)

subsection \<open>JSON of an entry\<close>

lemma dec_dlq_simps:
  "dec_dlq_field ''task'' j x = map_option (\<lambda>v. x\<lparr>Task := v\<rparr>) (dec_task_ptr j (Task x))"
  "dec_dlq_field ''dead_at'' (JTime i) x = Some (x\<lparr>DeadAt := i\<rparr>)"
  "dec_dlq_field ''failure_reason'' (JStr r) x = Some (x\<lparr>FailureReason := r\<rparr>)"
  "dec_dlq_field ''final_error'' (JStr r) x = Some (x\<lparr>FinalError := r\<rparr>)"
  "dec_dlq_field ''attempt_history'' JNull x = Some (x\<lparr>AttemptHistory := []\<rparr>)"
  by (simp_all add: dec_dlq_field_def Let_def lower_char_def byte_in_def)

definition dlq_clean :: "DLQEntry \<Rightarrow> bool" where
  "dlq_clean x \<longleftrightarrow>
     (case Task x of None \<Rightarrow> False | Some t \<Rightarrow> task_clean t) \<and> time_in_range (DeadAt x) \<and>
     utf8_ok (FailureReason x) \<and> utf8_ok (FinalError x) \<and> AttemptHistory x = []"

definition norm_dlq :: "DLQEntry \<Rightarrow> DLQEntry" where
  "norm_dlq x = x\<lparr>Task := map_option norm_task (Task x)\<rparr>"

lemma dlq_roundtrip:
  assumes "dlq_clean x"
  shows "\<exists>p. json_Marshal_dlq x = Inr p \<and> json_Unmarshal_dlq p = Inr (norm_dlq x)"
proof -
  obtain t where t: "Task x = Some t" "task_clean t"
    using assms by (auto simp: dlq_clean_def split: option.splits)
  obtain tpl where m: "json_Marshal_task t = Inr (Doc (JObj (task_members t tpl)))"
    and tpl: "tpl = (case TemplateData t of None \<Rightarrow> None | Some m \<Rightarrow> template_json m)"
    using marshal_clean [OF t(2)] .
  then have j: "task_json t = Some (JObj (task_members t tpl))"
    by (auto simp: json_Marshal_task_def split: option.splits)
  let ?kvs = "[(''task'', JObj (task_members t tpl)), (''dead_at'', JTime (DeadAt x)),
    (''failure_reason'', JStr (FailureReason x)), (''final_error'', JStr (FinalError x)),
    (''attempt_history'', JNull)]"
  have "json_Marshal_dlq x = Inr (Doc (JObj ?kvs))"
    using assms t j by (simp add: json_Marshal_dlq_def dlq_json_def dlq_clean_def history_json_def utf8_ok_def)
  moreover have "dec_task_ptr (JObj (task_members t tpl)) None = Some (Some (norm_task t))"
    using task_members_roundtrip [OF t(2) tpl] by simp
  then have "dec_struct dec_dlq_field ?kvs zero_dlq = Some (norm_dlq x)"
    using assms t by (simp add: dec_dlq_simps zero_dlq_def norm_dlq_def dlq_clean_def del: dec_task_ptr.simps)
  ultimately show ?thesis by simp
qed

subsection \<open>Writing an entry\<close>

text \<open>The times to live whose product with \<open>time.Second\<close> does not overflow.\<close>

definition ttl_ok :: "Config \<Rightarrow> bool" where
  "ttl_ok cfg \<longleftrightarrow> 0 < sint (DLQTTLSeconds (CfgRetry cfg)) \<and> sint (DLQTTLSeconds (CfgRetry cfg)) \<le> 9223372036"

lemma ttl_secs_ok: "ttl_ok cfg \<Longrightarrow> ttl_secs (DLQTTLSeconds (CfgRetry cfg) * go_second) = sint (DLQTTLSeconds (CfgRetry cfg))"
proof -
  assume ok: "ttl_ok cfg"
  let ?d = "DLQTTLSeconds (CfgRetry cfg)"
  have "sint (?d * go_second) = signed_take_bit 63 (sint ?d * 1000000000)"
    by (simp add: sint_word_ariths go_second_def)
  also have "\<dots> = sint ?d * 1000000000"
    by (rule signed_take_bit_int_eq_self) (use ok in \<open>auto simp: ttl_ok_def\<close>)
  finally have s: "sint (?d * go_second) = sint ?d * 1000000000" .
  have q: "(of_int (sint ?d * 1000000000) :: rat) / 1000000000 = of_int (sint ?d)" by simp
  have "rat_trunc (of_int (sint ?d * 1000000000) / 1000000000) = sint ?d"
    unfolding rat_trunc_def q using ok by (simp add: ttl_ok_def del: of_int_sint)
  then show ?thesis using ok by (simp add: ttl_secs_def s ttl_ok_def)
qed

text \<open>Key spaces that differ at most in one list and its time to live.\<close>

definition list_frame :: "string \<Rightarrow> keyspace \<Rightarrow> keyspace \<Rightarrow> bool" where
  "list_frame key k k' \<longleftrightarrow>
     (\<exists>l t. k' = k\<lparr>lists := (lists k)(key := l), list_ttl := (list_ttl k)(key := t)\<rparr>)"

lemma list_frame_refl [simp]: "list_frame key k k"
  unfolding list_frame_def by (intro exI [of _ "lists k key"] exI [of _ "list_ttl k key"]) simp

lemma list_frame_trans: "list_frame key k k' \<Longrightarrow> list_frame key k' k'' \<Longrightarrow> list_frame key k k''"
  unfolding list_frame_def by clarsimp (rule exI, rule exI, rule refl)

definition dlq_cmd_rel :: "string \<Rightarrow> jtext \<Rightarrow> keyspace \<Rightarrow> keyspace \<Rightarrow> bool" where
  "dlq_cmd_rel key p k k' \<longleftrightarrow> list_frame key k k' \<and> (\<exists>n. lists k' key = lists k key @ replicate n p)"

lemma dlq_cmd_rel_trans: "dlq_cmd_rel key p k k' \<Longrightarrow> dlq_cmd_rel key p k' k'' \<Longrightarrow> dlq_cmd_rel key p k k''"
  unfolding dlq_cmd_rel_def by (metis append.assoc list_frame_trans replicate_add)

lemma dlq_cmd_rel_refl [simp]: "dlq_cmd_rel key p k k"
  by (auto simp: dlq_cmd_rel_def intro: exI [of _ 0])

lemma rpush_rel: "redis_ok (RPUSH key p) k r k' \<Longrightarrow> dlq_cmd_rel key p k k'"
  by (auto simp: dlq_cmd_rel_def list_frame_def upd_list_def intro!: exI [of _ "Suc 0"] exI [of _ "list_ttl k key"])

lemma expire_rel: "0 < ttl_secs d \<Longrightarrow> redis_ok (EXPIRE key d) k r k' \<Longrightarrow> dlq_cmd_rel key p k k'"
proof (cases "lists k key = []")
  case False
  assume "0 < ttl_secs d" "redis_ok (EXPIRE key d) k r k'"
  with False have "k' = k\<lparr>lists := (lists k)(key := lists k key), list_ttl := (list_ttl k)(key \<mapsto> ttl_secs d)\<rparr>"
    by simp
  moreover from this have "lists k' key = lists k key @ replicate 0 p" by simp
  ultimately show ?thesis unfolding dlq_cmd_rel_def list_frame_def by blast
qed simp

lemma dlq_effs:
  assumes "c = RPUSH key p \<or> (c = EXPIRE key d \<and> 0 < ttl_secs d)" and "redis_effs c k k'"
  shows "dlq_cmd_rel key p k k'"
  using assms(2)
  by (rule redis_effs_induct) (simp, metis assms(1) dlq_cmd_rel_trans rpush_rel expire_rel)

definition dlq_stored :: "DLQEntry \<Rightarrow> keyspace \<Rightarrow> bool" where
  "dlq_stored x k \<longleftrightarrow>
     (\<exists>t p. Task x = Some t \<and> json_Marshal_dlq x = Inr p \<and> p \<in> set (lists k (dlqKey (TenantID t) (Type t))))"

context redis_env begin

lemma SendToDLQ_spec:
  assumes "SendToDLQ e cfg (Some x) s = (err, s')" and "Task x = Some t" and "ttl_ok cfg"
  shows "(ks s' = ks s \<or> (\<exists>p. json_Marshal_dlq x = Inr p \<and> dlq_cmd_rel (dlqKey (TenantID t) (Type t)) p (ks s) (ks s'))) \<and>
    (err = None \<longrightarrow> (\<exists>p. json_Marshal_dlq x = Inr p \<and> dlq_cmd_rel (dlqKey (TenantID t) (Type t)) p (ks s) (ks s') \<and>
       p \<in> set (lists (ks s') (dlqKey (TenantID t) (Type t)))))"
proof (cases "json_Marshal_dlq x")
  case (Inl er)
  show ?thesis using assms by (auto simp: SendToDLQ_def Inl)
next
  case (Inr p)
  let ?key = "dlqKey (TenantID t) (Type t)" and ?d = "DLQTTLSeconds (CfgRetry cfg) * go_second"
  have d: "0 < ttl_secs ?d" using ttl_secs_ok [OF assms(3)] assms(3) by (simp add: ttl_ok_def)
  obtain rs s1 where p: "pipe_exec e [RPUSH ?key p, EXPIRE ?key ?d] s = (rs, s1)" by fastforce
  have rel: "dlq_cmd_rel ?key p (ks s) (ks s1)"
    by (rule pipe_inv [OF p, where P = "dlq_cmd_rel ?key p (ks s)"])
      (use d in \<open>auto intro: dlq_effs dlq_cmd_rel_trans\<close>)
  obtain r s2 where r: "env_client e (LLEN ?key) s1 = (r, s2)" by fastforce
  have k2: "ks s2 = ks s1" by (rule client_read_only [OF _ r]) simp
  have ks': "ks s' = ks s1" using assms Inr p r k2
    by (auto simp: SendToDLQ_def Let_def split: option.splits sum.splits)
  have "p \<in> set (lists (ks s1) ?key)" if "err = None"
  proof -
    have "pipe_err rs = None" using that assms Inr p r
      by (auto simp: SendToDLQ_def Let_def split: option.splits)
    moreover have "length rs = 2" using pipe_exec_length [OF p] by simp
    ultimately have "\<exists>x0. rs ! 0 = Inr x0" using nth_mem [of 0 rs] by (simp add: pipe_err_None)
    then obtain x0 where "rs ! 0 = Inr x0" ..
    show ?thesis
    proof (rule pipe_est [OF p, of 0 x0])
      show "0 < length [RPUSH ?key p, EXPIRE ?key ?d]" "rs ! 0 = Inr x0" using \<open>rs ! 0 = Inr x0\<close> by simp_all
      show "p \<in> set (lists k' ?key)" if "redis_ok ([RPUSH ?key p, EXPIRE ?key ?d] ! 0) k y k'" for k k' y
        using that by (auto simp: upd_list_def)
      show "p \<in> set (lists k' ?key)" if "c \<in> set (drop (Suc 0) [RPUSH ?key p, EXPIRE ?key ?d])"
        "p \<in> set (lists k ?key)" "redis_effs c k k'" for c k k'
        using dlq_effs [of c ?key p ?d k k'] that d by (auto simp: dlq_cmd_rel_def)
    qed
  qed
  then show ?thesis using rel ks' Inr by auto
qed

lemma SendToDLQ_stored:
  assumes "SendToDLQ e cfg (Some x) s = (None, s')" and "ttl_ok cfg"
  shows "dlq_stored x (ks s')"
proof -
  obtain t where "Task x = Some t" using assms by (auto simp: SendToDLQ_def split: option.splits)
  with SendToDLQ_spec [OF assms(1) this assms(2)] show ?thesis by (auto simp: dlq_stored_def)
qed

end

lemma decode_dlq_mem:
  assumes "decode_dlq pre i items = Inr es" and "item \<in> set items" and "json_Unmarshal_dlq item = Inr x"
  shows "x \<in> set es"
  using assms by (induction items arbitrary: i es) (auto split: sum.splits)

subsection \<open>Properties\<close>

text \<open>\<open>SendToDLQ\<close> is durable: when it returns nil the entry is in the list of the task's tenant and type; in
  every case that list is the old one with copies of this entry appended, and nothing else in
  Redis changes, provided the time to live in seconds is positive and does not overflow as a duration.\<close>

theorem SendToDLQ_durable:
  assumes "redis_env e ks" and "ttl_ok cfg" and "Task x = Some t"
    and "SendToDLQ e cfg (Some x) s = (err, s')"
  shows "(err = None \<longrightarrow> dlq_stored x (ks s')) \<and>
    (ks s' = ks s \<or> (\<exists>p n. json_Marshal_dlq x = Inr p \<and>
       lists (ks s') (dlqKey (TenantID t) (Type t)) =
         lists (ks s) (dlqKey (TenantID t) (Type t)) @ replicate n p \<and>
       list_frame (dlqKey (TenantID t) (Type t)) (ks s) (ks s')))"
  using redis_env.SendToDLQ_spec [OF assms(1,4,3,2)] assms(3)
  by (auto simp: dlq_stored_def dlq_cmd_rel_def)


definition sample_entry :: DLQEntry where
  "sample_entry =
     \<lparr>Task = Some sample_task, DeadAt = 1700000100000000000, FailureReason = ''max attempts exceeded'',
      FinalError = ''boom'', AttemptHistory = []\<rparr>"

lemma sample_entry_clean: "dlq_clean sample_entry"
  by (simp add: dlq_clean_def sample_entry_def sample_task_clean0 time_in_range_def time_unix_def utf8_ok_ascii)

lemma sample_entry_marshal: "\<exists>p. json_Marshal_dlq sample_entry = Inr p"
  using dlq_roundtrip [OF sample_entry_clean] by blast

lemma sample_ttl_ok [simp]: "ttl_ok sample_config"
  by (simp add: ttl_ok_def)

theorem SendToDLQ_durable_witness:
  "dlq_stored sample_entry (mem_ks (snd (SendToDLQ (mem_env True) sample_config (Some sample_entry)
     (sample_world Map.empty [Resent, NoFault, LostReply]))))"
proof -
  let ?s = "sample_world Map.empty [Resent, NoFault, LostReply]"
  obtain err s' where r: "SendToDLQ (mem_env True) sample_config (Some sample_entry) ?s = (err, s')" by fastforce
  have t: "Task sample_entry = Some sample_task" by (simp add: sample_entry_def)
  have "err = None" using r sample_entry_marshal
    by (auto simp: SendToDLQ_def t Let_def mem_eval split: sum.splits)
  with SendToDLQ_durable [OF mem_env.redis_env_axioms sample_ttl_ok t r] r show ?thesis by simp
qed


subsection \<open>A time to live that overflows\<close>

text \<open>A time to live that is too long deletes the dead letters: with \<open>DLQ_TTL_SECONDS\<close> = 9223372037, a positive
  number that configuration validation accepts, \<open>time.Duration(n) * time.Second\<close> wraps to a negative duration, EXPIRE with a
  negative time deletes the list, and \<open>SendToDLQ\<close> returns nil with the list empty.\<close>

theorem SendToDLQ_overflow_deletes:
  "0 < sint (9223372037 :: i64) \<and>
   (\<exists>s'. SendToDLQ (mem_env False) (sample_config\<lparr>CfgRetry := (CfgRetry sample_config)\<lparr>DLQTTLSeconds := 9223372037\<rparr>\<rparr>)
      (Some sample_entry) (sample_world Map.empty []) = (None, s') \<and>
    lists (mem_ks s') (dlqKey ''acme'' ''transactional'') = [])"
proof -
  let ?cfg = "sample_config\<lparr>CfgRetry := (CfgRetry sample_config)\<lparr>DLQTTLSeconds := 9223372037\<rparr>\<rparr>"
  obtain p where p: "json_Marshal_dlq sample_entry = Inr p" using sample_entry_marshal by blast
  have t: "Task sample_entry = Some sample_task" by (simp add: sample_entry_def)
  have "sint (9223372037 * go_second) = - 9223372036709551616" by (simp add: go_second_def)
  then have "ttl_secs (9223372037 * go_second) \<le> 0"
    by (simp add: ttl_secs_def rat_trunc_def)
  then show ?thesis
    by (auto simp: SendToDLQ_def t p Let_def mem_eval upd_list_def sample_world_def empty_ks_def)
qed

end
