(* ===== verification/Ports.thy ===== *)
theory Ports
  imports DLQ
begin

text \<open>
  internal/ports: the interfaces between the worker and the adapters, as records of operations on
  the state of the world, the Redis adapters and the stubs of internal/adapters/stubs as values of
  them. A call of \<open>Send\<close> may panic.
\<close>

record 'w TaskProducer =
  port_Enqueue :: "EmailTask \<Rightarrow> 'w \<Rightarrow> (go_error option \<times> EmailTask) \<times> 'w"
  port_EnqueueBatch :: "EmailTask list \<Rightarrow> 'w \<Rightarrow> go_error option \<times> 'w"
  port_EnqueueDelayed :: "EmailTask \<Rightarrow> duration \<Rightarrow> 'w \<Rightarrow> (go_error option \<times> EmailTask) \<times> 'w"

record 'w TaskConsumer =
  port_Consume :: "'w \<Rightarrow> go_error option \<times> 'w"
  port_Acknowledge :: "EmailTask \<Rightarrow> 'w \<Rightarrow> go_error option \<times> 'w"
  port_Nack :: "EmailTask \<Rightarrow> go_error \<Rightarrow> 'w \<Rightarrow> go_error option \<times> 'w"
  port_ClaimStale :: "duration \<Rightarrow> 'w \<Rightarrow> (go_error + EmailTask list) \<times> 'w"

record 'w IdempotencyStore =
  port_SetProcessing :: "string \<Rightarrow> string \<Rightarrow> 'w \<Rightarrow> (bool \<times> go_error option) \<times> 'w"
  port_SetCompleted :: "string \<Rightarrow> 'w \<Rightarrow> go_error option \<times> 'w"
  port_IsCompleted :: "string \<Rightarrow> 'w \<Rightarrow> (bool \<times> go_error option) \<times> 'w"
  port_ClearProcessing :: "string \<Rightarrow> 'w \<Rightarrow> go_error option \<times> 'w"
  port_TryReclaimStale :: "string \<Rightarrow> string \<Rightarrow> duration \<Rightarrow> 'w \<Rightarrow> (bool \<times> go_error option) \<times> 'w"

record 'w RetryScheduler =
  port_ScheduleRetry :: "EmailTask \<Rightarrow> duration \<Rightarrow> 'w \<Rightarrow> go_error option \<times> 'w"
  port_FlushReady :: "'w \<Rightarrow> (go_error + EmailTask list) \<times> 'w"

record 'w DLQWriter =
  port_SendToDLQ :: "DLQEntry option \<Rightarrow> 'w \<Rightarrow> go_error option \<times> 'w"
  port_ListDLQ :: "string \<Rightarrow> string \<Rightarrow> i64 \<Rightarrow> 'w \<Rightarrow> (go_error + DLQEntry list) \<times> 'w"
  port_DLQDepth :: "string \<Rightarrow> string \<Rightarrow> 'w \<Rightarrow> (go_error + int) \<times> 'w"

datatype send_outcome = Returned "go_error option" | Panicked string

record 'w EmailSender =
  port_Send :: "EmailTask \<Rightarrow> 'w \<Rightarrow> send_outcome \<times> 'w"
  port_SendBatch :: "EmailTask list \<Rightarrow> 'w \<Rightarrow> send_outcome \<times> 'w"
  port_HealthCheck :: "'w \<Rightarrow> go_error option \<times> 'w"

subsection \<open>The Redis adapters\<close>

definition RedisProducer :: "'s env \<Rightarrow> (string \<times> string) option \<Rightarrow> 's TaskProducer" where
  "RedisProducer e spanCtx =
     \<lparr>port_Enqueue = Enqueue e spanCtx, port_EnqueueBatch = EnqueueBatch e,
      port_EnqueueDelayed = EnqueueDelayed e\<rparr>"

definition RedisConsumer :: "'s env \<Rightarrow> Config \<Rightarrow> 's TaskConsumer" where
  "RedisConsumer e cfg =
     \<lparr>port_Consume = Consume e cfg, port_Acknowledge = Acknowledge e cfg, port_Nack = Nack,
      port_ClaimStale = ClaimStale e cfg\<rparr>"

definition RedisIdempotencyStore :: "'s env \<Rightarrow> Config \<Rightarrow> ScriptRegistry \<Rightarrow> 's IdempotencyStore" where
  "RedisIdempotencyStore e cfg scr =
     \<lparr>port_SetProcessing = SetProcessing e cfg scr, port_SetCompleted = SetCompleted e cfg,
      port_IsCompleted = IsCompleted e, port_ClearProcessing = ClearProcessing e,
      port_TryReclaimStale = TryReclaimStale e cfg scr\<rparr>"

definition RedisRetryScheduler :: "'s env \<Rightarrow> Config \<Rightarrow> 's RetryScheduler" where
  "RedisRetryScheduler e cfg =
     \<lparr>port_ScheduleRetry = ScheduleRetry e, port_FlushReady = FlushReady e cfg\<rparr>"

definition RedisDLQWriter :: "'s env \<Rightarrow> Config \<Rightarrow> 's DLQWriter" where
  "RedisDLQWriter e cfg =
     \<lparr>port_SendToDLQ = SendToDLQ e cfg, port_ListDLQ = ListDLQ e, port_DLQDepth = DLQDepth e\<rparr>"

declare RedisConsumer_def [port_defs] RedisIdempotencyStore_def [port_defs] RedisRetryScheduler_def [port_defs]
  RedisDLQWriter_def [port_defs]

subsection \<open>The stubs\<close>

definition StubProducer :: "'w TaskProducer" where
  "StubProducer =
     \<lparr>port_Enqueue = (\<lambda>t w. ((None, t), w)), port_EnqueueBatch = (\<lambda>ts w. (None, w)),
      port_EnqueueDelayed = (\<lambda>t d w. ((None, t), w))\<rparr>"

text \<open>Its \<open>Consume\<close> hands out a closed channel: no task ever arrives.\<close>

definition StubConsumer :: "'w TaskConsumer" where
  "StubConsumer =
     \<lparr>port_Consume = (\<lambda>w. (None, w)), port_Acknowledge = (\<lambda>t w. (None, w)),
      port_Nack = (\<lambda>t r w. (None, w)), port_ClaimStale = (\<lambda>d w. (Inr [], w))\<rparr>"

definition StubRetryScheduler :: "'w RetryScheduler" where
  "StubRetryScheduler =
     \<lparr>port_ScheduleRetry = (\<lambda>t d w. (None, w)), port_FlushReady = (\<lambda>w. (Inr [], w))\<rparr>"

definition StubDLQWriter :: "'w DLQWriter" where
  "StubDLQWriter =
     \<lparr>port_SendToDLQ = (\<lambda>x w. (None, w)), port_ListDLQ = (\<lambda>a b n w. (Inr [], w)),
      port_DLQDepth = (\<lambda>a b w. (Inr 0, w))\<rparr>"

definition StubIdempotencyStore :: "'w IdempotencyStore" where
  "StubIdempotencyStore =
     \<lparr>port_SetProcessing = (\<lambda>k i w. ((True, None), w)), port_SetCompleted = (\<lambda>k w. (None, w)),
      port_IsCompleted = (\<lambda>k w. ((False, None), w)), port_ClearProcessing = (\<lambda>k w. (None, w)),
      port_TryReclaimStale = (\<lambda>k i d w. ((False, None), w))\<rparr>"

record 'w QueueDepthChecker =
  port_QueueDepth :: "string \<Rightarrow> 'w \<Rightarrow> (go_error + i64) \<times> 'w"
  port_AllQueueDepths :: "'w \<Rightarrow> (go_error + (string \<rightharpoonup> i64)) \<times> 'w"

definition StubMetricsRecorder :: "metric \<Rightarrow> 'w \<Rightarrow> 'w" where
  "StubMetricsRecorder m w = w"

definition StubQueueDepthChecker :: "'w QueueDepthChecker" where
  "StubQueueDepthChecker =
     \<lparr>port_QueueDepth = (\<lambda>q w. (Inr 0, w)), port_AllQueueDepths = (\<lambda>w. (Inr Map.empty, w))\<rparr>"

definition StubEmailSender :: "'w EmailSender" where
  "StubEmailSender =
     \<lparr>port_Send = (\<lambda>t w. (Returned None, w)), port_SendBatch = (\<lambda>ts w. (Returned None, w)),
      port_HealthCheck = (\<lambda>w. (None, w))\<rparr>"

end
