(* ===== verification/Email.thy ===== *)
theory Email
  imports Circuit_Breaker Ports
begin

text \<open>
  internal/adapters/email: the SendGrid sender behind its circuit breaker and the stub sender for
  local runs. The HTTP client, the URL parser and the random source are operations of the
  surroundings; the breaker is a cell of the world.
\<close>

record http_request =
  ReqMethod :: string
  ReqURL :: string
  ReqHeader :: "(string \<times> string) list"
  ReqBody :: string

record http_response =
  StatusCode :: int
  RespBody :: string

text \<open>
  \<open>http_do\<close> is \<open>(*http.Client).Do\<close>; \<open>url_parse\<close> is what \<open>http.NewRequestWithContext\<close> checks;
  \<open>breaker_of\<close> and \<open>set_breaker\<close> read and write the sender's breaker.
\<close>

record 's http_env =
  http_do :: "http_request \<Rightarrow> 's \<Rightarrow> (go_error + http_response) \<times> 's"
  url_parse :: "string \<Rightarrow> go_error option"
  breaker_of :: "'s \<Rightarrow> circuitBreaker"
  set_breaker :: "circuitBreaker \<Rightarrow> 's \<Rightarrow> 's"

subsection \<open>SendGrid\<close>

record SendGridSender =
  apiKey :: string
  fromEmail :: string
  fromName :: string
  baseURL :: string

definition sendGridDefaultBaseURL :: string where "sendGridDefaultBaseURL = ''https://api.sendgrid.com''"
definition sendGridMailPath :: string where "sendGridMailPath = ''/v3/mail/send''"
definition sendGridProfilePath :: string where "sendGridProfilePath = ''/v3/user/profile''"
definition circuitMaxFailures :: i64 where "circuitMaxFailures = 5"
definition circuitOpenDuration :: duration where "circuitOpenDuration = 30 * go_second"

definition NewSendGridSender :: "string \<Rightarrow> string \<Rightarrow> string \<Rightarrow> SendGridSender \<times> circuitBreaker" where
  "NewSendGridSender key fromE fromN =
     (\<lparr>apiKey = key, fromEmail = fromE, fromName = fromN, baseURL = sendGridDefaultBaseURL\<rparr>,
      newCircuitBreaker circuitMaxFailures circuitOpenDuration)"

definition address_json :: "string \<Rightarrow> string \<Rightarrow> json" where
  "address_json email nm = JObj ((''email'', JStr (coerce_utf8 email)) # omit_string ''name'' nm)"

definition buildRequestBody :: "SendGridSender \<Rightarrow> EmailTask \<Rightarrow> go_error + string" where
  "buildRequestBody s task =
     (let data = (case TemplateData task of None \<Rightarrow> Some [] | Some m \<Rightarrow> template_json m)
      in case data of
           None \<Rightarrow> Inl marshal_error
         | Some kvs \<Rightarrow> Inr (json_text (JObj
             [(''personalizations'', JArr [JObj
                ((''to'', JArr [address_json (Recipient task) []]) # omit_map ''dynamic_template_data'' (Some kvs))]),
              (''from'', address_json (fromEmail s) (fromName s)),
              (''template_id'', JStr (coerce_utf8 (TemplateID task)))])))"

definition mail_request :: "SendGridSender \<Rightarrow> string \<Rightarrow> http_request" where
  "mail_request s body =
     \<lparr>ReqMethod = ''POST'', ReqURL = baseURL s @ sendGridMailPath,
      ReqHeader = [(''Authorization'', ''Bearer '' @ apiKey s), (''Content-Type'', ''application/json'')],
      ReqBody = body\<rparr>"

text \<open>The breaker operations on the cell. The clock is read on every call.\<close>

definition breaker_Allow :: "'s env \<Rightarrow> 's http_env \<Rightarrow> 's \<Rightarrow> go_error option \<times> 's" where
  "breaker_Allow e h w = (let (now, w1) = time_now e w in (Allow now (breaker_of h w1), w1))"

definition breaker_RecordFailure :: "'s env \<Rightarrow> 's http_env \<Rightarrow> 's \<Rightarrow> 's" where
  "breaker_RecordFailure e h w =
     (let (now, w1) = time_now e w in set_breaker h (RecordFailure now (breaker_of h w1)) w1)"

definition breaker_RecordSuccess :: "'s http_env \<Rightarrow> 's \<Rightarrow> 's" where
  "breaker_RecordSuccess h w = set_breaker h (RecordSuccess (breaker_of h w)) w"

definition status_2xx :: "http_response \<Rightarrow> bool" where
  "status_2xx r \<longleftrightarrow> 200 \<le> StatusCode r \<and> StatusCode r < 300"

definition status_4xx :: "http_response \<Rightarrow> bool" where
  "status_4xx r \<longleftrightarrow> 400 \<le> StatusCode r \<and> StatusCode r < 500"

definition Send_response ::
  "'s env \<Rightarrow> 's http_env \<Rightarrow> go_error + http_response \<Rightarrow> 's \<Rightarrow> go_error option \<times> 's" where
  "Send_response e h res w =
     (case res of
        Inl er \<Rightarrow> (Some (EWrap ''sendgrid: request failed'' er), breaker_RecordFailure e h w)
      | Inr resp \<Rightarrow>
          let respBody = take 4096 (RespBody resp) in
          if status_2xx resp then (None, breaker_RecordSuccess h w)
          else if status_4xx resp then
            (Some (EWrap (''sendgrid: client error '' @ show_int (StatusCode resp) @ '': '' @ respBody)
               (ESentinel ErrNonRetryable)), w)
          else
            (Some (ENew (''sendgrid: server error '' @ show_int (StatusCode resp) @ '': '' @ respBody)),
             breaker_RecordFailure e h w))"

definition Send ::
  "'s env \<Rightarrow> 's http_env \<Rightarrow> SendGridSender \<Rightarrow> EmailTask \<Rightarrow> 's \<Rightarrow> go_error option \<times> 's" where
  "Send e h s task w =
     (let (aerr, w1) = breaker_Allow e h w in
      case aerr of
        Some er \<Rightarrow> (Some er, w1)
      | None \<Rightarrow>
          let (cerr, w2) = ctx_err e w1 in
          case cerr of
            Some er \<Rightarrow> (Some er, w2)
          | None \<Rightarrow>
              (case buildRequestBody s task of
                 Inl er \<Rightarrow> (Some (EWrap ''sendgrid: build request'' er), w2)
               | Inr body \<Rightarrow>
                   (case url_parse h (baseURL s @ sendGridMailPath) of
                      Some er \<Rightarrow> (Some (EWrap ''sendgrid: create request'' er), w2)
                    | None \<Rightarrow>
                        let (res, w3) = http_do h (mail_request s body) w2 in Send_response e h res w3)))"

text \<open>The loop of \<open>SendBatch\<close>, which both senders share: it never stops early, except by a panic.\<close>

fun batch_loop ::
  "(EmailTask \<Rightarrow> 's \<Rightarrow> send_outcome \<times> 's) \<Rightarrow> EmailTask list \<Rightarrow> go_error list \<Rightarrow> 's \<Rightarrow> send_outcome \<times> 's" where
  "batch_loop send [] errs w = (Returned (multi_result errs), w)"
| "batch_loop send (t # ts) errs w =
     (case send t w of
        (Panicked m, w1) \<Rightarrow> (Panicked m, w1)
      | (Returned None, w1) \<Rightarrow> batch_loop send ts errs w1
      | (Returned (Some er), w1) \<Rightarrow> batch_loop send ts (errs @ [EWrap (''task '' @ ID t) er]) w1)"

definition SendBatch ::
  "(EmailTask \<Rightarrow> 's \<Rightarrow> send_outcome \<times> 's) \<Rightarrow> EmailTask list \<Rightarrow> 's \<Rightarrow> send_outcome \<times> 's" where
  "SendBatch send tasks w = batch_loop send tasks [] w"

definition profile_request :: "SendGridSender \<Rightarrow> http_request" where
  "profile_request s =
     \<lparr>ReqMethod = ''GET'', ReqURL = baseURL s @ sendGridProfilePath,
      ReqHeader = [(''Authorization'', ''Bearer '' @ apiKey s)], ReqBody = []\<rparr>"

definition HealthCheck :: "'s http_env \<Rightarrow> SendGridSender \<Rightarrow> 's \<Rightarrow> go_error option \<times> 's" where
  "HealthCheck h s w =
     (case url_parse h (baseURL s @ sendGridProfilePath) of
        Some er \<Rightarrow> (Some (EWrap ''sendgrid: health check request'' er), w)
      | None \<Rightarrow>
          let (res, w1) = http_do h (profile_request s) w in
          case res of
            Inl er \<Rightarrow> (Some (EWrap ''sendgrid: health check failed'' er), w1)
          | Inr resp \<Rightarrow>
              if status_2xx resp then (None, w1)
              else (Some (ENew (''sendgrid: health check status '' @ show_int (StatusCode resp) @ '': '' @
                      take 512 (RespBody resp))), w1))"

definition returned :: "go_error option \<times> 's \<Rightarrow> send_outcome \<times> 's" where
  "returned r = (Returned (fst r), snd r)"

definition SendGridEmailSender :: "'s env \<Rightarrow> 's http_env \<Rightarrow> SendGridSender \<Rightarrow> 's EmailSender" where
  "SendGridEmailSender e h s =
     \<lparr>port_Send = (\<lambda>t w. returned (Send e h s t w)),
      port_SendBatch = SendBatch (\<lambda>t w. returned (Send e h s t w)),
      port_HealthCheck = HealthCheck h s\<rparr>"

subsection \<open>The stub sender\<close>

text \<open>
  \<open>rng_Int63n\<close> and \<open>rng_Float64\<close> draw from the sender's source; \<open>timer_or_done\<close> is the \<open>select\<close> between
  the timer and the context.
\<close>

record 's stub_env =
  rng_Int63n :: "i64 \<Rightarrow> 's \<Rightarrow> i64 \<times> 's"
  rng_Float64 :: "'s \<Rightarrow> f64 \<times> 's"
  timer_or_done :: "duration \<Rightarrow> 's \<Rightarrow> go_error option \<times> 's"

record RealisticStubSender =
  failRate :: f64
  latency :: duration

definition sleepWithContext :: "'s stub_env \<Rightarrow> duration \<Rightarrow> 's \<Rightarrow> go_error option \<times> 's" where
  "sleepWithContext r d w = (if d \<le>s 0 then (None, w) else timer_or_done r d w)"

definition go_half :: "i64 \<Rightarrow> i64" where
  "go_half x = word_of_int (if 0 \<le> sint x then sint x div 2 else - (- sint x div 2))"

text \<open>\<open>Int63n\<close> panics unless its argument is positive.\<close>

definition stub_Send ::
  "'s stub_env \<Rightarrow> RealisticStubSender \<Rightarrow> EmailTask \<Rightarrow> 's \<Rightarrow> send_outcome \<times> 's" where
  "stub_Send r s task w =
     (if 0 <s latency s \<and> go_half (latency s) \<le>s 0 then (Panicked ''invalid argument to Int63n'', w)
      else
        let (jitter, w1) = (if 0 <s latency s then rng_Int63n r (go_half (latency s)) w else (0, w));
            (serr, w2) = sleepWithContext r (latency s + jitter) w1
        in case serr of
             Some er \<Rightarrow> (Returned (Some er), w2)
           | None \<Rightarrow>
               if f64_gt (failRate s) (Fin 0) then
                 let (x, w3) = rng_Float64 r w2 in
                 if f64_gt (failRate s) x
                 then (Returned (Some (ENew (''stub: simulated send failure for '' @ ID task))), w3)
                 else (Returned None, w3)
               else (Returned None, w2))"

definition StubSender :: "'s stub_env \<Rightarrow> RealisticStubSender \<Rightarrow> 's EmailSender" where
  "StubSender r s =
     \<lparr>port_Send = stub_Send r s, port_SendBatch = SendBatch (stub_Send r s), port_HealthCheck = (\<lambda>w. (None, w))\<rparr>"

subsection \<open>The provider\<close>

text \<open>
  What the rest of the proofs use of the HTTP client and the cell: \<open>requests\<close> is what went over the
  wire, \<open>confirmed\<close> what was answered with a status 2xx.
\<close>

locale http_provider =
  fixes e :: "'s env" and h :: "'s http_env" and requests :: "'s \<Rightarrow> http_request list"
    and confirmed :: "'s \<Rightarrow> http_request list"
  assumes http_do: "http_do h r w = (x, w') \<Longrightarrow>
      requests w' = requests w @ [r] \<and> breaker_of h w' = breaker_of h w \<and>
      confirmed w' = (if \<exists>resp. x = Inr resp \<and> status_2xx resp then confirmed w @ [r] else confirmed w)"
    and http_err: "http_do h r w = (Inl er, w') \<Longrightarrow>
      \<not> errors_is er ErrNonRetryable \<and> \<not> errors_is er ErrCircuitOpen"
    and url_err: "url_parse h u = Some er \<Longrightarrow> \<not> errors_is er ErrNonRetryable \<and> \<not> errors_is er ErrCircuitOpen"
    and cell: "breaker_of h (set_breaker h b w) = b" "requests (set_breaker h b w) = requests w"
      "confirmed (set_breaker h b w) = confirmed w"
    and now_mail: "time_now e w = (t, w') \<Longrightarrow>
      breaker_of h w' = breaker_of h w \<and> requests w' = requests w \<and> confirmed w' = confirmed w"
    and ctx_mail: "ctx_err e w = (ce, w') \<Longrightarrow>
      breaker_of h w' = breaker_of h w \<and> requests w' = requests w \<and> confirmed w' = confirmed w \<and>
      (\<forall>er. ce = Some er \<longrightarrow> \<not> errors_is er ErrNonRetryable \<and> \<not> errors_is er ErrCircuitOpen)"
begin

text \<open>The ways a call of \<open>Send\<close> can go.\<close>

lemma Send_cases:
  assumes "Send e h s task w = (res, w')"
  obtains (tripped) now w1 where "time_now e w = (now, w1)" "Allow now (breaker_of h w) \<noteq> None"
      "res = Some (ESentinel ErrCircuitOpen)" "breaker_of h w' = breaker_of h w"
      "requests w' = requests w" "confirmed w' = confirmed w"
  | (early) now w1 er where "time_now e w = (now, w1)" "Allow now (breaker_of h w) = None"
      "res = Some er" "\<not> errors_is er ErrNonRetryable" "\<not> errors_is er ErrCircuitOpen"
      "breaker_of h w' = breaker_of h w" "requests w' = requests w" "confirmed w' = confirmed w"
  | (wire) now w1 body w2 x w3 where "time_now e w = (now, w1)" "Allow now (breaker_of h w) = None"
      "buildRequestBody s task = Inr body" "http_do h (mail_request s body) w2 = (x, w3)"
      "breaker_of h w2 = breaker_of h w" "requests w2 = requests w" "confirmed w2 = confirmed w"
      "Send_response e h x w3 = (res, w')"
proof -
  obtain now w1 where n: "time_now e w = (now, w1)" by fastforce
  note N = now_mail [OF n]
  obtain ce w2 where c: "ctx_err e w1 = (ce, w2)" by fastforce
  note C = ctx_mail [OF c]
  show thesis
  proof (cases "Allow now (breaker_of h w)")
    case (Some a)
    then have "a = ESentinel ErrCircuitOpen" by (simp add: Allow_def split: if_splits)
    then have "res = Some (ESentinel ErrCircuitOpen)" "w' = w1"
      using assms n N Some by (auto simp: Send_def breaker_Allow_def)
    then show thesis using N Some by (intro tripped [OF n]) simp_all
  next
    case a: None
    consider er where "ce = Some er" | er where "ce = None" "buildRequestBody s task = Inl er"
      | body er where "ce = None" "buildRequestBody s task = Inr body" "url_parse h (baseURL s @ sendGridMailPath) = Some er"
      | body where "ce = None" "buildRequestBody s task = Inr body" "url_parse h (baseURL s @ sendGridMailPath) = None"
      by (cases ce; cases "buildRequestBody s task"; cases "url_parse h (baseURL s @ sendGridMailPath)") blast+
    then show thesis
    proof cases
      case (1 er)
      then show thesis using assms n N c C a
        by (intro early [OF n a]) (auto simp: Send_def breaker_Allow_def)
    next
      case (2 er)
      then have "er = marshal_error" by (auto simp: buildRequestBody_def Let_def split: option.splits)
      then show thesis using 2 assms n N c C a
        by (intro early [OF n a, of "EWrap ''sendgrid: build request'' er"])
          (auto simp: Send_def breaker_Allow_def marshal_error_def)
    next
      case (3 body er)
      then show thesis using assms n N c C a url_err [OF 3(3)]
        by (intro early [OF n a, of "EWrap ''sendgrid: create request'' er"]) (auto simp: Send_def breaker_Allow_def)
    next
      case (4 body)
      obtain x w3 where d: "http_do h (mail_request s body) w2 = (x, w3)" by fastforce
      then show thesis using 4 assms n N c C a
        by (intro wire [OF n a 4(2) d]) (auto simp: Send_def breaker_Allow_def)
    qed
  qed
qed

lemma RecordFailure_frame:
  "requests (breaker_RecordFailure e h w) = requests w" "confirmed (breaker_RecordFailure e h w) = confirmed w"
  by (auto simp: breaker_RecordFailure_def cell dest: now_mail split: prod.splits)

lemma RecordSuccess_frame:
  "requests (breaker_RecordSuccess h w) = requests w" "confirmed (breaker_RecordSuccess h w) = confirmed w"
  "breaker_of h (breaker_RecordSuccess h w) = RecordSuccess (breaker_of h w)"
  by (simp_all add: breaker_RecordSuccess_def cell)

lemma breaker_RecordFailure_cell:
  "\<exists>now. breaker_of h (breaker_RecordFailure e h w) = RecordFailure now (breaker_of h w)"
proof -
  obtain now w1 where n: "time_now e w = (now, w1)" by fastforce
  then show ?thesis using now_mail [OF n] by (auto simp: breaker_RecordFailure_def cell)
qed

text \<open>What the answer does to the logs and to the breaker.\<close>

lemma Send_response_spec:
  assumes "http_do h r w0 = (x, w)" and "Send_response e h x w = (res, w')"
  shows "requests w' = requests w0 @ [r] \<and>
    confirmed w' = (if res = None then confirmed w0 @ [r] else confirmed w0) \<and>
    (res = None \<longrightarrow> breaker_of h w' = RecordSuccess (breaker_of h w0)) \<and>
    (\<forall>er. res = Some er \<longrightarrow> \<not> errors_is er ErrCircuitOpen \<and>
       (if errors_is er ErrNonRetryable then breaker_of h w' = breaker_of h w0
        else \<exists>now. breaker_of h w' = RecordFailure now (breaker_of h w0)))"
proof (cases x)
  case (Inl er)
  then show ?thesis
    using assms http_do [OF assms(1)] http_err [of r w0 er w] breaker_RecordFailure_cell [of w]
    by (auto simp: Send_response_def RecordFailure_frame)
next
  case (Inr resp)
  then show ?thesis
    using assms http_do [OF assms(1)] breaker_RecordFailure_cell [of w]
    by (auto simp: Send_response_def Let_def RecordFailure_frame RecordSuccess_frame split: if_splits)
qed

lemma Send_spec:
  assumes "Send e h s task w = (res, w')" and "time_now e w = (now, w1)"
  shows "(res = None \<longrightarrow> (\<exists>body. buildRequestBody s task = Inr body \<and>
        requests w' = requests w @ [mail_request s body] \<and> confirmed w' = confirmed w @ [mail_request s body]) \<and>
      breaker_of h w' = RecordSuccess (breaker_of h w)) \<and>
    (\<forall>er. res = Some er \<longrightarrow> confirmed w' = confirmed w \<and>
      (errors_is er ErrCircuitOpen \<longleftrightarrow> Allow now (breaker_of h w) \<noteq> None) \<and>
      (errors_is er ErrCircuitOpen \<longrightarrow> requests w' = requests w) \<and>
      (errors_is er ErrNonRetryable \<or> errors_is er ErrCircuitOpen \<longrightarrow> breaker_of h w' = breaker_of h w))"
  using assms(1)
proof (cases rule: Send_cases)
  case (tripped now2 w2)
  then show ?thesis using assms(2) by simp
next
  case (early now2 w2 er)
  then show ?thesis using assms(2) by simp
next
  case (wire now2 w2 body w3 x w4)
  then show ?thesis using assms(2) Send_response_spec [OF wire(4,8)] by (cases res) (auto split: if_splits)
qed

end

subsection \<open>An in-memory provider\<close>

text \<open>Each scripted answer is a status with a body, or nothing for a connection that fails.\<close>

record mem_http = mem_chan +
  mem_breaker :: circuitBreaker
  mem_answers :: "(int \<times> string) option list"
  mem_requests :: "http_request list"
  mem_confirmed :: "http_request list"

definition mem_do :: "http_request \<Rightarrow> 'a mem_http_scheme \<Rightarrow> (go_error + http_response) \<times> 'a mem_http_scheme" where
  "mem_do r w =
     (let (a, as) = (case mem_answers w of [] \<Rightarrow> (Some (202, []), []) | a # as \<Rightarrow> (a, as));
          x = (case a of None \<Rightarrow> Inl (ENew ''connection reset by peer'')
                | Some (c, b) \<Rightarrow> Inr \<lparr>StatusCode = c, RespBody = b\<rparr>);
          ok = (case a of None \<Rightarrow> False | Some (c, b) \<Rightarrow> 200 \<le> c \<and> c < 300)
      in (x, w\<lparr>mem_answers := as, mem_requests := mem_requests w @ [r],
               mem_confirmed := (if ok then mem_confirmed w @ [r] else mem_confirmed w)\<rparr>))"

definition mem_http_env :: "'a mem_http_scheme http_env" where
  "mem_http_env =
     \<lparr>http_do = mem_do, url_parse = (\<lambda>u. None), breaker_of = mem_breaker,
      set_breaker = (\<lambda>b w. w\<lparr>mem_breaker := b\<rparr>)\<rparr>"

text \<open>The context of a worker is never cancelled (\<open>context.WithoutCancel\<close>).\<close>

definition worker_env :: "bool \<Rightarrow> 'a mem_world_scheme env" where
  "worker_env resend = (mem_env resend)\<lparr>ctx_err := (\<lambda>w. (None, w))\<rparr>"

lemma worker_env_sels [simp]:
  "env_client (worker_env resend) = mem_client resend"
  "record_metric (worker_env resend) = (\<lambda>m s. s\<lparr>mem_metrics := mem_metrics s @ [m]\<rparr>)"
  "time_now (worker_env resend) = (\<lambda>s. (mem_clock s, s))"
  "ctx_err (worker_env resend) = (\<lambda>s. (None, s))"
  "rand_float (worker_env resend) = (\<lambda>s. (mem_rand s, s))"
  by (simp_all add: worker_env_def)

interpretation worker_env: redis_env "worker_env resend" mem_ks for resend
  by unfold_locales
    (simp_all, (drule mem.client_ok mem.client_err mem.client_nil, assumption?)+)

interpretation mem_provider: http_provider "worker_env resend" mem_http_env mem_requests mem_confirmed for resend
  by unfold_locales
    (auto simp: mem_http_env_def mem_do_def status_2xx_def Let_def split: list.splits option.splits prod.splits if_splits)

definition sample_sender :: SendGridSender where
  "sample_sender = fst (NewSendGridSender ''SG.key'' ''noreply@example.com'' ''QTip'')"

definition http_world :: "keyspace \<Rightarrow> (int \<times> string) option list \<Rightarrow> fault list \<Rightarrow> circuitBreaker \<Rightarrow> mem_http" where
  "http_world k as fs b =
     \<lparr>mem_ks = k\<lparr>scripts := [''sha-idem'' \<mapsto> IdempotencyLua, ''sha-reclaim'' \<mapsto> ReclaimStaleLua]\<rparr>,
      mem_faults = fs, mem_clock = 1700000100000000000, mem_metrics = [], mem_ctx = None, mem_rand = Fin 0,
      mem_sent = [], mem_cap = 4, mem_breaker = b, mem_answers = as, mem_requests = [], mem_confirmed = []\<rparr>"

subsection \<open>Properties\<close>

text \<open>The SendGrid sender: nil is returned exactly when the one request with this task's recipient and template
  was answered with a status 2xx, and then the breaker is reset; with an open circuit the error is
  \<open>ErrCircuitOpen\<close> and nothing goes over the wire; a client error and an open circuit, the two the worker
  does not retry, leave the breaker alone.\<close>

theorem SendGrid_Send_outcomes:
  assumes "http_provider e h requests confirmed" and "Send e h s task w = (res, w')" and "time_now e w = (now, w1)"
  shows "(res = None \<longrightarrow> (\<exists>body. buildRequestBody s task = Inr body \<and>
        requests w' = requests w @ [mail_request s body] \<and> confirmed w' = confirmed w @ [mail_request s body]) \<and>
      breaker_of h w' = RecordSuccess (breaker_of h w)) \<and>
    (\<forall>er. res = Some er \<longrightarrow> confirmed w' = confirmed w \<and>
      (errors_is er ErrCircuitOpen \<longleftrightarrow> Allow now (breaker_of h w) \<noteq> None) \<and>
      (errors_is er ErrCircuitOpen \<longrightarrow> requests w' = requests w) \<and>
      (errors_is er ErrNonRetryable \<or> errors_is er ErrCircuitOpen \<longrightarrow> breaker_of h w' = breaker_of h w))"
  using http_provider.Send_spec [OF assms] .

text \<open>The results of a batch, task by task, up to a panic.\<close>

fun send_all ::
  "(EmailTask \<Rightarrow> 's \<Rightarrow> send_outcome \<times> 's) \<Rightarrow> EmailTask list \<Rightarrow> 's \<Rightarrow> send_outcome list \<times> 's" where
  "send_all send [] w = ([], w)"
| "send_all send (t # ts) w =
     (case send t w of
        (Panicked m, w1) \<Rightarrow> ([Panicked m], w1)
      | (r, w1) \<Rightarrow> let (rs, w2) = send_all send ts w1 in (r # rs, w2))"

definition batch_errors :: "EmailTask list \<Rightarrow> send_outcome list \<Rightarrow> go_error list" where
  "batch_errors ts rs =
     concat (map (\<lambda>(t, r). case r of Returned (Some er) \<Rightarrow> [EWrap (''task '' @ ID t) er] | _ \<Rightarrow> []) (zip ts rs))"

lemma batch_loop_spec:
  assumes "send_all send ts w = (rs, w')" and "\<forall>m. Panicked m \<notin> set rs"
  shows "batch_loop send ts errs w = (Returned (multi_result (errs @ batch_errors ts rs)), w') \<and> length rs = length ts"
  using assms
proof (induction ts arbitrary: errs w rs)
  case Nil
  then show ?case by (simp add: batch_errors_def)
next
  case (Cons t ts)
  obtain r w1 where r: "send t w = (r, w1)" by fastforce
  obtain rs1 w2 where a: "send_all send ts w1 = (rs1, w2)" by fastforce
  from Cons.prems r a obtain er where R: "r = Returned er" "rs = r # rs1" "w2 = w'"
    by (cases r) auto
  with Cons.prems have "\<forall>m. Panicked m \<notin> set rs1" by simp
  from Cons.IH [OF a [unfolded R(3)] this] r R show ?case by (cases er) (simp_all add: batch_errors_def)
qed

text \<open>A batch is never cut short by an error: as long as no call panics, \<open>SendBatch\<close> sends every task once, in order,
  and returns nil exactly if all were delivered; otherwise the multi error holds, in order, the error
  of every task that failed, labelled with its ID.\<close>

theorem SendBatch_complete:
  assumes "send_all send tasks w = (rs, w')" and "\<forall>m. Panicked m \<notin> set rs"
  shows "SendBatch send tasks w = (Returned (multi_result (batch_errors tasks rs)), w') \<and>
    length rs = length tasks \<and>
    (fst (SendBatch send tasks w) = Returned None \<longleftrightarrow> (\<forall>r \<in> set rs. r = Returned None))"
proof -
  have b: "SendBatch send tasks w = (Returned (multi_result (batch_errors tasks rs)), w')" and l: "length rs = length tasks"
    using batch_loop_spec [OF assms, of "[]"] by (simp_all add: SendBatch_def)
  have "batch_errors tasks rs = [] \<longleftrightarrow> (\<forall>r \<in> set rs. r = Returned None)"
    using l assms(2)
  proof (induction tasks rs rule: list_induct2')
    case (4 t ts r rs)
    then show ?case
      by (cases r) (auto simp: batch_errors_def split: option.splits)
  qed (simp_all add: batch_errors_def)
  with b l show ?thesis by simp
qed

text \<open>The stub sender panics exactly for a configured latency of one nanosecond, whose half is zero; the worker then
  recovers, marks the task and leaves it pending.\<close>

theorem stub_Send_panics_iff:
  "(\<exists>m w'. stub_Send r s task w = (Panicked m, w')) \<longleftrightarrow> latency s = 1"
proof -
  have h: "go_half x \<le>s 0 \<longleftrightarrow> x = 1" if "0 <s x" for x :: i64
  proof -
    have "0 < sint x" "sint x < 2 ^ 63" using that sint_i64_bounds [of x] by (simp_all add: word_sless_alt)
    moreover from this have "sint (go_half x) = sint x div 2"
      unfolding go_half_def by (simp add: sint_i64_of_int del: of_int_sint)
    ultimately show ?thesis by (auto simp: word_sle_eq word_i64_eq_iff)
  qed
  have one: "0 <s (1 :: i64)" by (simp add: word_sless_alt)
  show ?thesis
  proof (cases "0 <s latency s \<and> go_half (latency s) \<le>s 0")
    case True
    then have "latency s = 1" using h by blast
    then show ?thesis using True by (simp add: stub_Send_def)
  next
    case False
    then have "latency s \<noteq> 1" using h one by auto
    moreover have "\<forall>m w'. stub_Send r s task w \<noteq> (Panicked m, w')"
      using False by (auto simp: stub_Send_def Let_def split: prod.splits option.splits if_splits)
    ultimately show ?thesis by blast
  qed
qed

theorem SendBatch_complete_witness:
  "SendBatch (\<lambda>t w. (Returned (if w = (1::nat) then Some (ENew ''busy'') else None), w + 1)) [sample_task, sample_task] 0 =
     (Returned (Some (EMulti [EWrap ''task task-1'' (ENew ''busy'')])), 2)"
  using SendBatch_complete [of "\<lambda>t w. (Returned (if w = (1::nat) then Some (ENew ''busy'') else None), w + 1)"
      "[sample_task, sample_task]" 0 "[Returned None, Returned (Some (ENew ''busy''))]" 2]
  by (simp add: batch_errors_def multi_result_def)

text \<open>An open breaker and a healthy one.\<close>

theorem SendGrid_Send_outcomes_witness:
  "let b = (newCircuitBreaker 5 30)\<lparr>openUntil := 1800000000000000000\<rparr>;
       (res, w') = Send (worker_env True) mem_http_env sample_sender sample_task (http_world empty_ks [] [] b)
   in mem_requests w' = [] \<and> res \<noteq> None"
proof -
  let ?b = "(newCircuitBreaker 5 30)\<lparr>openUntil := 1800000000000000000\<rparr>"
  let ?w = "http_world empty_ks [] [] ?b"
  obtain res w' where r: "Send (worker_env True) mem_http_env sample_sender sample_task ?w = (res, w')" by fastforce
  have n: "time_now (worker_env True) ?w = (1700000100000000000, ?w)" by (simp add: http_world_def)
  have a: "Allow 1700000100000000000 (breaker_of mem_http_env ?w) \<noteq> None"
    by (simp add: Allow_def mem_http_env_def http_world_def zero_time_def)
  have "res \<noteq> None"
    using r by (auto simp: Send_def breaker_Allow_def http_world_def mem_http_env_def Allow_def zero_time_def)
  with SendGrid_Send_outcomes [OF mem_provider.http_provider_axioms r n] a show ?thesis
    by (auto simp: r Let_def) (simp_all add: http_world_def)
qed

end
