(* ===== verification/Retry_Policy.thy ===== *)
theory Retry_Policy
  imports Domain
begin

text \<open>
  internal/domain/retry_policy.go: the exponential back-off with jitter, computed in
  binary64 as the code does. The random number is an argument of \<open>ComputeDelay\<close>.
\<close>

record RetryPolicy =
  PolicyMaxAttempts :: i64
  BaseDelay :: duration
  MaxDelay :: duration
  JitterFactor :: f64

definition defaultBaseDelay :: duration where "defaultBaseDelay = 1 * go_second"
definition defaultMaxDelay :: duration where "defaultMaxDelay = 15 * (60 * go_second)"
definition defaultJitterFactor :: f64 where "defaultJitterFactor = f64_of_rat (1 / 5)"

definition DefaultRetryPolicy :: RetryPolicy where
  "DefaultRetryPolicy =
     \<lparr>PolicyMaxAttempts = 5, BaseDelay = defaultBaseDelay, MaxDelay = defaultMaxDelay,
      JitterFactor = defaultJitterFactor\<rparr>"

definition RetryPolicyForType :: "TaskType \<Rightarrow> RetryPolicy" where
  "RetryPolicyForType tt = DefaultRetryPolicy\<lparr>PolicyMaxAttempts := DefaultMaxAttempts tt\<rparr>"

definition ComputeDelay :: "RetryPolicy \<Rightarrow> i64 \<Rightarrow> f64 \<Rightarrow> duration" where
  "ComputeDelay p attempt0 rand =
     (let attempt = (if attempt0 <s 0 then 0 else attempt0);
          base0 = f64_mul (f64_of_i64 (BaseDelay p)) (f64_pow2 attempt);
          maxF = f64_of_i64 (MaxDelay p);
          base = (if f64_gt base0 maxF then maxF else base0);
          jitter = f64_mul (f64_mul rand base) (JitterFactor p);
          delay = f64_to_i64 (f64_add base jitter)
      in if MaxDelay p <s delay then MaxDelay p else delay)"

text \<open>\<open>(*EmailTask).NextRetryDelay\<close> of email_task.go.\<close>

definition NextRetryDelay :: "EmailTask \<Rightarrow> f64 \<Rightarrow> duration" where
  "NextRetryDelay t rand = ComputeDelay (RetryPolicyForType (Type t)) (Attempt t) rand"

subsection \<open>The back-off before jitter\<close>

text \<open>The delay before jitter on exact integers: \<open>min (B * 2 ^ a) M\<close>.\<close>

definition backoff :: "int \<Rightarrow> int \<Rightarrow> int \<Rightarrow> int" where
  "backoff B M a = min (B * 2 ^ nat a) M"

lemma of_int_less_pow: "k < 2 ^ n \<Longrightarrow> (of_int k :: rat) < 2 ^ n"
proof -
  assume "k < 2 ^ n"
  then have "(of_int k :: rat) < of_int (2 ^ n)" by (simp only: of_int_less_iff)
  then show ?thesis by simp
qed

lemma capped_product:
  assumes B: "0 < B" and M: "0 < M" "M < 2 ^ 52"
    and x: "x = (of_int (B * 2 ^ n) :: rat)"
  shows "(if f64_gt (f64_of_rat x) (Fin (of_int M)) then Fin (of_int M) else f64_of_rat x)
     = Fin (of_int (min (B * 2 ^ n) M))"
proof (cases "B * 2 ^ n \<le> M")
  case True
  then have "B * 2 ^ n < 2 ^ 53" using M by simp
  then have "f64_of_rat x = Fin x"
    using f64_of_rat_Fin(1) [of x] of_int_less_pow [of "B * 2 ^ n" 53] rnd64_of_int [of "B * 2 ^ n"] B
    by (simp add: x del: of_int_mult of_int_power)
  with True show ?thesis by (simp add: x del: of_int_mult of_int_power)
next
  case False
  then have "(of_int M :: rat) \<le> x" unfolding x by (simp only: of_int_le_iff)
  then have ge: "of_int M \<le> rnd64 x"
    using rnd64_mono [of "of_int M" x] rnd64_of_int [of M] M by simp
  moreover have "(0 :: rat) < of_int M" using M(1) by (simp only: of_int_0_less_iff)
  ultimately have "\<not> rnd64 x \<le> - f64_limit" using f64_limit_pos by linarith
  then have "f64_of_rat x = PInf \<or> f64_of_rat x = Fin (rnd64 x)"
    by (simp add: f64_of_rat_def Let_def)
  then show ?thesis using False ge by auto
qed

lemma base_value:
  assumes B: "0 < sint B" "sint B < 2 ^ 52" and M: "0 < sint M" "sint M < 2 ^ 52"
    and a: "0 \<le> sint a"
  shows "(if f64_gt (f64_mul (f64_of_i64 B) (f64_pow2 a)) (f64_of_i64 M) then f64_of_i64 M
      else f64_mul (f64_of_i64 B) (f64_pow2 a)) = Fin (of_int (backoff (sint B) (sint M) (sint a)))"
proof -
  have fB: "f64_of_i64 B = Fin (of_int (sint B))" and fM: "f64_of_i64 M = Fin (of_int (sint M))"
    using B M by (simp_all add: f64_of_i64_small)
  show ?thesis
  proof (cases "1024 \<le> sint a")
    case True
    have "(2::int) ^ 52 \<le> 2 ^ nat (sint a)"
      using True by (intro power_increasing) auto
    with M have "sint M \<le> 2 ^ nat (sint a)" by linarith
    also have "\<dots> \<le> sint B * 2 ^ nat (sint a)" using B by simp
    finally have "sint M \<le> sint B * 2 ^ nat (sint a)" .
    moreover have "(0 :: rat) < signed B" using B(1) by (metis of_int_0_less_iff of_int_sint)
    ultimately show ?thesis using True fB fM by (simp add: f64_pow2_def backoff_def)
  next
    case False
    then show ?thesis
      using capped_product [OF B(1) M refl, of "nat (sint a)"] fB fM
      by (simp add: f64_pow2_def backoff_def del: of_int_sint split: if_splits)
  qed
qed

lemma jitter_value:
  assumes b: "0 \<le> b" "b < 2 ^ 52" and r: "0 \<le> r" "r \<le> 1" and j: "0 \<le> j" "j \<le> 1"
  obtains s where "f64_add (Fin (of_int b)) (f64_mul (f64_mul (Fin r) (Fin (of_int b))) (Fin j)) = Fin s"
    and "of_int b \<le> s" and "s \<le> of_int (2 * b)" and "j = 0 \<Longrightarrow> s = of_int b"
proof -
  let ?b = "of_int b :: rat"
  have b53: "?b < 2 ^ 53" "of_int (2 * b) < (2 ^ 53 :: rat)"
    by (rule of_int_less_pow, use b in simp)+
  have rb: "rnd64 ?b = ?b" "rnd64 (of_int (2 * b)) = of_int (2 * b)"
    by (rule rnd64_of_int; use b in simp)+
  have b0: "0 \<le> ?b" using b by simp
  define t1 where "t1 = rnd64 (r * ?b)"
  have x1: "0 \<le> r * ?b" "r * ?b \<le> ?b" using r b0 by (simp_all add: mult_left_le_one_le)
  then have t1: "0 \<le> t1" "t1 \<le> ?b"
    using rnd64_nonneg rnd64_mono [OF x1] rb by (simp_all add: t1_def)
  have m1: "f64_mul (Fin r) (Fin ?b) = Fin t1"
    using x1 b53 by (simp add: t1_def f64_of_rat_Fin)
  define t2 where "t2 = rnd64 (t1 * j)"
  have x2: "0 \<le> t1 * j" "t1 * j \<le> ?b"
    using t1 j by (auto intro: mult_left_le order_trans)
  then have t2: "0 \<le> t2" "t2 \<le> ?b"
    using rnd64_nonneg rnd64_mono [OF x2] rb by (simp_all add: t2_def)
  have m2: "f64_mul (Fin t1) (Fin j) = Fin t2"
    using x2 b53 by (simp add: t2_def f64_of_rat_Fin)
  define s where "s = rnd64 (?b + t2)"
  have x3: "?b \<le> ?b + t2" "?b + t2 \<le> of_int (2 * b)" using t2 by simp_all
  have s: "?b \<le> s" "s \<le> of_int (2 * b)"
    using rnd64_mono [OF b0 x3(1)] rnd64_mono [OF _ x3(2)] b0 t2 rb by (simp_all add: s_def)
  have "f64_add (Fin ?b) (Fin t2) = Fin s"
    using x3 b0 t2 b53 by (simp add: s_def f64_of_rat_Fin)
  moreover have "s = ?b" if "j = 0" using that rb by (simp add: s_def t2_def)
  ultimately show thesis using that s m1 m2 by simp
qed

lemma f64_to_i64_range:
  assumes "of_int b \<le> s" and "s \<le> of_int (2 * b)" and "0 \<le> b" and "b < 2 ^ 52"
  shows "sint (f64_to_i64 (Fin s)) = \<lfloor>s\<rfloor>" and "b \<le> \<lfloor>s\<rfloor>"
proof -
  show lo: "b \<le> \<lfloor>s\<rfloor>" using assms(1) by (simp add: le_floor_iff)
  have hi: "\<lfloor>s\<rfloor> \<le> 2 * b" using floor_mono [OF assms(2)] by (simp only: floor_of_int)
  have "(0 :: rat) \<le> of_int b" using assms(3) by simp
  with assms(1) have "0 \<le> s" by linarith
  then have t: "rat_trunc s = \<lfloor>s\<rfloor>" by (simp add: rat_trunc_def)
  have "- (2 ^ 63) \<le> k \<and> k < 2 ^ 63" if "b \<le> k" "k \<le> 2 * b" for k
    using that assms(3,4) by simp
  from this [OF lo hi] show "sint (f64_to_i64 (Fin s)) = \<lfloor>s\<rfloor>" by (simp add: t sint_i64_of_int)
qed

lemma ComputeDelay_value:
  assumes B: "0 < sint (BaseDelay p)" "sint (BaseDelay p) < 2 ^ 52"
    and M: "0 < sint (MaxDelay p)" "sint (MaxDelay p) < 2 ^ 52"
    and J: "JitterFactor p = Fin j" "0 \<le> j" "j \<le> 1"
    and r: "0 \<le> r" "r \<le> 1"
    and b_def: "b = backoff (sint (BaseDelay p)) (sint (MaxDelay p)) (max 0 (sint a))"
  shows "b \<le> sint (ComputeDelay p a (Fin r))"
    and "sint (ComputeDelay p a (Fin r)) \<le> sint (MaxDelay p)"
    and "j = 0 \<Longrightarrow> sint (ComputeDelay p a (Fin r)) = b"
proof -
  define a' where "a' = (if a <s 0 then 0 else a)"
  have a': "0 \<le> sint a'" "sint a' = max 0 (sint a)" by (auto simp: a'_def word_sless_alt)
  have b: "0 \<le> b" "b < 2 ^ 52" "b \<le> sint (MaxDelay p)"
    using B M by (auto simp: b_def backoff_def)
  obtain s where s: "f64_add (Fin (of_int b)) (f64_mul (f64_mul (Fin r) (Fin (of_int b))) (Fin j)) = Fin s"
    "of_int b \<le> s" "s \<le> of_int (2 * b)" "j = 0 \<Longrightarrow> s = of_int b"
    using jitter_value [OF b(1,2) r J(2,3)] by blast
  have d: "sint (f64_to_i64 (Fin s)) = \<lfloor>s\<rfloor>" "b \<le> \<lfloor>s\<rfloor>"
    using f64_to_i64_range [OF s(2,3) b(1,2)] by blast+
  have "ComputeDelay p a (Fin r) =
      (if MaxDelay p <s f64_to_i64 (Fin s) then MaxDelay p else f64_to_i64 (Fin s))"
    using base_value [OF B M a'(1)] s(1)
    by (simp only: ComputeDelay_def Let_def J(1) a'(2) flip: a'_def b_def)
  with b d s(4) show "b \<le> sint (ComputeDelay p a (Fin r))"
    and "sint (ComputeDelay p a (Fin r)) \<le> sint (MaxDelay p)"
    and "j = 0 \<Longrightarrow> sint (ComputeDelay p a (Fin r)) = b"
    by (auto simp: word_sless_alt simp del: f64_to_i64.simps)
qed


text \<open>C36: For every policy whose base and maximum delay are positive and below \<open>2 ^ 52\<close> ns (52 days) and
  whose jitter factor lies in [0, 1], for every attempt number (negative ones count as 0, huge
  ones overflow the float) and every random draw, the delay is at least the capped exponential
  \<open>min (BaseDelay * 2 ^ attempt) MaxDelay\<close> and at most \<open>MaxDelay\<close>, and with no jitter it is
  exactly the capped exponential, in spite of the rounding of the float arithmetic. (The second cap, after the jitter, is in the code and in
  its comment; \<open>ComputeDelay\<close> in ADR-005 has none and lets the jitter exceed \<open>MaxDelay\<close>.)\<close>

theorem ComputeDelay_bounds:
  assumes "0 < sint (BaseDelay p)" "sint (BaseDelay p) < 2 ^ 52"
    and "0 < sint (MaxDelay p)" "sint (MaxDelay p) < 2 ^ 52"
    and "JitterFactor p = Fin j" "0 \<le> j" "j \<le> 1" and "0 \<le> r" "r \<le> 1"
  shows "backoff (sint (BaseDelay p)) (sint (MaxDelay p)) (max 0 (sint a)) \<le> sint (ComputeDelay p a (Fin r)) \<and>
    sint (ComputeDelay p a (Fin r)) \<le> sint (MaxDelay p) \<and>
    (j = 0 \<longrightarrow> sint (ComputeDelay p a (Fin r)) =
       backoff (sint (BaseDelay p)) (sint (MaxDelay p)) (max 0 (sint a)))"
  using ComputeDelay_value [OF assms refl, of a] by blast

lemma defaultJitterFactor_eq: "defaultJitterFactor = Fin (3602879701896397 / 18014398509481984)"
proof -
  have "rat_ilog2 (1 / 5) = - 3"
    by (rule rat_ilog2_eqI) (simp_all add: power_int_def eval_nat_numeral)
  then have u: "ulp_exp (1 / 5) = - 55" by (simp add: ulp_exp_def)
  have "round_half_even (36028797018963968 / 5) = 7205759403792794" by code_simp
  moreover have w: "(2::rat) powi - 55 = 1 / 36028797018963968"
    by (simp add: power_int_minus)
  ultimately have r: "rnd64 (1 / 5) = 3602879701896397 / 18014398509481984"
    by (simp add: rnd64_def u w)
  have "(1 :: rat) \<le> f64_limit" unfolding f64_limit_def by (rule one_le_power) simp
  then have "\<not> f64_limit \<le> rnd64 (1 / 5)" "\<not> rnd64 (1 / 5) \<le> - f64_limit"
    by (simp_all add: r)
  then show ?thesis by (simp add: defaultJitterFactor_def f64_of_rat_def Let_def r)
qed

lemma DefaultRetryPolicy_sels [simp]:
  "sint (BaseDelay DefaultRetryPolicy) = 1000000000"
  "sint (MaxDelay DefaultRetryPolicy) = 900000000000"
  "JitterFactor DefaultRetryPolicy = Fin (3602879701896397 / 18014398509481984)"
  by (simp_all add: DefaultRetryPolicy_def defaultBaseDelay_def defaultMaxDelay_def go_second_def
      defaultJitterFactor_eq)

lemma RetryPolicyForType_sels [simp]:
  "BaseDelay (RetryPolicyForType tt) = BaseDelay DefaultRetryPolicy"
  "MaxDelay (RetryPolicyForType tt) = MaxDelay DefaultRetryPolicy"
  "JitterFactor (RetryPolicyForType tt) = JitterFactor DefaultRetryPolicy"
  "PolicyMaxAttempts (RetryPolicyForType tt) = DefaultMaxAttempts tt"
  by (simp_all add: RetryPolicyForType_def)

theorem ComputeDelay_bounds_witness:
  "16000000000 \<le> sint (ComputeDelay DefaultRetryPolicy 4 (Fin (1 / 2))) \<and>
   sint (ComputeDelay DefaultRetryPolicy 4 (Fin (1 / 2))) \<le> 900000000000"
  using ComputeDelay_bounds [of DefaultRetryPolicy "3602879701896397 / 18014398509481984" "1 / 2" 4]
  by (simp add: backoff_def)

lemma NextRetryDelay_range:
  assumes "0 \<le> r" and "r \<le> 1"
  shows "backoff 1000000000 900000000000 (max 0 (sint (Attempt t))) \<le> sint (NextRetryDelay t (Fin r))"
    and "sint (NextRetryDelay t (Fin r)) \<le> 900000000000"
  using ComputeDelay_value(1,2) [of "RetryPolicyForType (Type t)"
      "3602879701896397 / 18014398509481984" r _ "Attempt t"] assms
  by (simp_all add: NextRetryDelay_def)

lemma NextRetryDelay_pos: "0 \<le> r \<Longrightarrow> r \<le> 1 \<Longrightarrow> 0 < sint (NextRetryDelay t (Fin r))"
proof -
  assume "0 \<le> r" "r \<le> 1"
  moreover have "0 < (2 :: int) ^ nat (max 0 (sint (Attempt t)))" by simp
  ultimately show ?thesis
    using NextRetryDelay_range(1) [of r t] unfolding backoff_def by linarith
qed

text \<open>C37: The delay of a task, whatever its type and random draw: it never exceeds 15 minutes, at
  attempt \<open>a\<close> it is at least \<open>2 ^ a\<close> seconds as long as that is below the cap, and from
  attempt 10 on it is exactly 15 minutes. (The schedule of ADR-005 reaches the cap at attempt 7, which the code delays
  by 128 seconds and jitter, and goes up to 18 minutes.)\<close>

theorem NextRetryDelay_schedule:
  assumes "0 \<le> r" and "r < 1" and "0 \<le> sint (Attempt t)"
  shows "sint (NextRetryDelay t (Fin r)) \<le> 15 * 60 * 1000000000 \<and>
    (sint (Attempt t) < 10 \<longrightarrow> 2 ^ nat (sint (Attempt t)) * 1000000000 \<le> sint (NextRetryDelay t (Fin r))) \<and>
    (10 \<le> sint (Attempt t) \<longrightarrow> sint (NextRetryDelay t (Fin r)) = 15 * 60 * 1000000000)"
proof -
  let ?a = "sint (Attempt t)"
  have lo: "backoff 1000000000 900000000000 ?a \<le> sint (NextRetryDelay t (Fin r))"
    and hi: "sint (NextRetryDelay t (Fin r)) \<le> 900000000000"
    using NextRetryDelay_range [of r t] assms by simp_all
  have "2 ^ nat ?a * 1000000000 \<le> sint (NextRetryDelay t (Fin r))" if "?a < 10"
  proof -
    have "(2::int) ^ nat ?a \<le> 2 ^ 9" using that by (intro power_increasing) auto
    with lo show ?thesis by (simp add: backoff_def)
  qed
  moreover have "sint (NextRetryDelay t (Fin r)) = 900000000000" if "10 \<le> ?a"
  proof -
    have "(2::int) ^ 10 \<le> 2 ^ nat ?a" using that by (intro power_increasing) auto
    with lo hi show ?thesis by (simp add: backoff_def)
  qed
  ultimately show ?thesis using hi by simp
qed

theorem NextRetryDelay_schedule_witness:
  "sint (NextRetryDelay (sample_task\<lparr>Attempt := 12\<rparr>) (Fin (1 / 4))) = 15 * 60 * 1000000000"
  using NextRetryDelay_schedule [of "1 / 4" "sample_task\<lparr>Attempt := 12\<rparr>"] by simp

end
