(* ===== verification/Supervisor.thy ===== *)
theory Supervisor
  imports Ports Retry_Policy
begin

text \<open>
  internal/worker/supervisor.go: what a worker goroutine does with one task. The state is the
  supervisor's counters and semaphore next to the state of the world; the operations of the
  ports act on the world.
\<close>

record 'w deps =
  consumer :: "'w TaskConsumer"
  sender :: "'w EmailSender"
  idempotency :: "'w IdempotencyStore"
  retryScheduler :: "'w RetryScheduler"
  dlqWriter :: "'w DLQWriter"
  metrics :: "metric \<Rightarrow> 'w \<Rightarrow> 'w"
  clock :: "'w \<Rightarrow> go_time \<times> 'w"
  random :: "'w \<Rightarrow> f64 \<times> 'w"

text \<open>\<open>sem\<close> is the number of tokens in the semaphore channel.\<close>

record 'w Supervisor =
  sem :: nat
  activeWorkers :: i64
  totalProcessed :: i64
  totalFailed :: i64
  totalRetried :: i64
  world :: 'w

definition Stats :: "Config \<Rightarrow> 'w Supervisor \<Rightarrow> WorkerStats" where
  "Stats cfg st =
     \<lparr>ActiveWorkers = activeWorkers st, StatPoolSize = PoolSize (CfgWorker cfg),
      TotalProcessed = totalProcessed st, TotalFailed = totalFailed st, TotalRetried = totalRetried st,
      QueueDepth = 0, StatDLQDepth = 0\<rparr>"

text \<open>An operation on the world, lifted to the supervisor's state.\<close>

definition on_world :: "('w \<Rightarrow> 'a \<times> 'w) \<Rightarrow> 'w Supervisor \<Rightarrow> 'a \<times> 'w Supervisor" where
  "on_world f st = (let (r, w) = f (world st) in (r, st\<lparr>world := w\<rparr>))"

definition metric_st :: "'w deps \<Rightarrow> metric \<Rightarrow> 'w Supervisor \<Rightarrow> 'w Supervisor" where
  "metric_st d m st = st\<lparr>world := metrics d m (world st)\<rparr>"

definition attemptKey :: "string \<Rightarrow> i64 \<Rightarrow> string" where
  "attemptKey taskID attempt = taskID @ ''#'' @ show_int (sint attempt)"

definition processed_metric :: "EmailTask \<Rightarrow> string \<Rightarrow> f64 \<Rightarrow> metric" where
  "processed_metric task status dur = RecordProcessed (TenantID task) (Type task) status dur"

definition clearLockAndNack ::
  "'w deps \<Rightarrow> EmailTask \<Rightarrow> string \<Rightarrow> go_error \<Rightarrow> 'w Supervisor \<Rightarrow> 'w Supervisor" where
  "clearLockAndNack d task idKey cause st =
     (let (clearErr, st1) = on_world (port_ClearProcessing (idempotency d) idKey) st;
          (_, st2) = on_world (port_Nack (consumer d) task cause) st1
      in st2)"

text \<open>
  How \<open>processTask\<close> ended: an acknowledged duplicate, a lock held by another worker, a delivery, a
  dead-lettered task, a failed dead-letter write, a scheduled retry, a failed scheduling, a panic.
\<close>

datatype outcome = Deduped | LockHeld | Sent | Dead | DLQFailed | Retried | RetryFailed | Panic string

text \<open>The idempotency gate: \<open>None\<close> lets the task through to the sender.\<close>

definition idempotency_gate ::
  "'w deps \<Rightarrow> Config \<Rightarrow> EmailTask \<Rightarrow> string \<Rightarrow> 'w Supervisor \<Rightarrow> outcome option \<times> 'w Supervisor" where
  "idempotency_gate d cfg task idKey st =
     (let ((acquired, idErr), st1) =
            on_world (port_SetProcessing (idempotency d) idKey (ConsumerName (CfgWorker cfg))) st in
      if acquired then (None, st1)
      else let ((completed, _), st2) = on_world (port_IsCompleted (idempotency d) idKey) st1 in
        if completed then
          let (_, st3) = on_world (port_Acknowledge (consumer d) task) st2
          in (Some Deduped, metric_st d (processed_metric task ''deduped'' (Fin 0)) st3)
        else
          let ((reclaimed, reclaimErr), st3) =
                on_world (port_TryReclaimStale (idempotency d) idKey (ConsumerName (CfgWorker cfg))
                  (ClaimIdleThreshold (CfgWorker cfg))) st2 in
          if \<not> reclaimed then
            let (_, st4) = on_world (port_Nack (consumer d) task (ENew ''idempotency lock actively held'')) st3
            in (Some LockHeld, st4)
          else (None, st3))"

definition delivered ::
  "'w deps \<Rightarrow> EmailTask \<Rightarrow> string \<Rightarrow> f64 \<Rightarrow> 'w Supervisor \<Rightarrow> 'w Supervisor" where
  "delivered d task idKey dur st =
     (let (_, st1) = on_world (port_Acknowledge (consumer d) task) st;
          (_, st2) = on_world (port_SetCompleted (idempotency d) idKey) st1;
          st3 = st2\<lparr>totalProcessed := totalProcessed st2 + 1\<rparr>
      in metric_st d (processed_metric task ''success'' dur) st3)"

definition dead_letter ::
  "'w deps \<Rightarrow> EmailTask \<Rightarrow> string \<Rightarrow> go_error \<Rightarrow> bool \<Rightarrow> f64 \<Rightarrow> 'w Supervisor \<Rightarrow> outcome \<times> 'w Supervisor" where
  "dead_letter d task idKey sendErr nonRetryable dur st =
     (let reason = (if nonRetryable then ''non-retryable error'' else ''max attempts exceeded'');
          (now, st1) = on_world (clock d) st;
          entry = \<lparr>Task = Some task, DeadAt = now, FailureReason = reason, FinalError = Error sendErr,
                   AttemptHistory = []\<rparr>;
          (dlqErr, st2) = on_world (port_SendToDLQ (dlqWriter d) (Some entry)) st1
      in case dlqErr of
           Some err \<Rightarrow> (DLQFailed, clearLockAndNack d task idKey err st2)
         | None \<Rightarrow>
             let (_, st3) = on_world (port_Acknowledge (consumer d) task) st2
             in (Dead, metric_st d (processed_metric task ''dead'' dur) st3))"

definition schedule_retry ::
  "'w deps \<Rightarrow> EmailTask \<Rightarrow> string \<Rightarrow> f64 \<Rightarrow> 'w Supervisor \<Rightarrow> (outcome \<times> EmailTask) \<times> 'w Supervisor" where
  "schedule_retry d task idKey dur st =
     (let task = task\<lparr>Attempt := Attempt task + 1\<rparr>;
          (rnd, st1) = on_world (random d) st;
          delay = NextRetryDelay task rnd;
          (schedErr, st2) = on_world (port_ScheduleRetry (retryScheduler d) task delay) st1
      in case schedErr of
           Some err \<Rightarrow> ((RetryFailed, task), clearLockAndNack d task idKey err st2)
         | None \<Rightarrow>
             let (_, st3) = on_world (port_Acknowledge (consumer d) task) st2;
                 st4 = st3\<lparr>totalRetried := totalRetried st3 + 1\<rparr>
             in ((Retried, task), metric_st d (processed_metric task ''failed'' dur) st4))"

definition is_nonretryable :: "go_error \<Rightarrow> bool" where
  "is_nonretryable err \<longleftrightarrow> errors_is err ErrNonRetryable \<or> errors_is err ErrCircuitOpen"

definition failed_delivery ::
  "'w deps \<Rightarrow> EmailTask \<Rightarrow> string \<Rightarrow> go_error \<Rightarrow> f64 \<Rightarrow> 'w Supervisor \<Rightarrow> (outcome \<times> EmailTask) \<times> 'w Supervisor" where
  "failed_delivery d task idKey sendErr dur st =
     (let st1 = st\<lparr>totalFailed := totalFailed st + 1\<rparr>;
          task = task\<lparr>LastError := Error sendErr, Status := StatusFailed\<rparr>;
          nonRetryable = is_nonretryable sendErr
      in if nonRetryable \<or> \<not> IsRetryable task
         then let (oc, st2) = dead_letter d task idKey sendErr nonRetryable dur st1 in ((oc, task), st2)
         else schedule_retry d task idKey dur st1)"

definition process_body ::
  "'w deps \<Rightarrow> Config \<Rightarrow> EmailTask \<Rightarrow> 'w Supervisor \<Rightarrow> (outcome \<times> EmailTask) \<times> 'w Supervisor" where
  "process_body d cfg task st =
     (let idKey = attemptKey (ID task) (Attempt task);
          (gate, st1) = idempotency_gate d cfg task idKey st
      in case gate of
           Some oc \<Rightarrow> ((oc, task), st1)
         | None \<Rightarrow>
             let (start, st2) = on_world (clock d) st1;
                 (res, st3) = on_world (port_Send (sender d) task) st2
             in case res of
                  Panicked msg \<Rightarrow> ((Panic msg, task), st3)
                | Returned sendErr \<Rightarrow>
                    let (stop, st4) = on_world (clock d) st3;
                        dur = duration_seconds (word_of_int (stop - start))
                    in case sendErr of
                         None \<Rightarrow> ((Sent, task), delivered d task idKey dur st4)
                       | Some err \<Rightarrow> failed_delivery d task idKey err dur st4)"

text \<open>The two deferred functions: the panic handler runs first, then the release of the slot.\<close>

definition recover_panic ::
  "'w deps \<Rightarrow> outcome \<times> EmailTask \<Rightarrow> 'w Supervisor \<Rightarrow> (outcome \<times> EmailTask) \<times> 'w Supervisor" where
  "recover_panic d res st =
     (case res of
        (Panic msg, task) \<Rightarrow>
          let task = metadata_set ''poison'' ''true'' task;
              st1 = st\<lparr>totalFailed := totalFailed st + 1\<rparr>;
              (_, st2) = on_world (port_Nack (consumer d) task (ENew (''panic: '' @ msg))) st1
          in ((Panic msg, task), st2)
      | _ \<Rightarrow> (res, st))"

definition release_slot :: "'w deps \<Rightarrow> Config \<Rightarrow> 'w Supervisor \<Rightarrow> 'w Supervisor" where
  "release_slot d cfg st =
     (let st1 = st\<lparr>sem := sem st - 1\<rparr>; st2 = st1\<lparr>activeWorkers := activeWorkers st1 - 1\<rparr>
      in metric_st d (RecordWorkerStats (Stats cfg st2)) st2)"

definition processTask ::
  "'w deps \<Rightarrow> Config \<Rightarrow> EmailTask \<Rightarrow> 'w Supervisor \<Rightarrow> (outcome \<times> EmailTask) \<times> 'w Supervisor" where
  "processTask d cfg task st =
     (let st1 = st\<lparr>activeWorkers := activeWorkers st + 1\<rparr>;
          (res, st2) = process_body d cfg task st1;
          (res', st3) = recover_panic d res st2
      in (res', release_slot d cfg st3))"

text \<open>The remote span the task carries; the hex parsers of the tracing library are arguments.\<close>

definition buildTraceCtx ::
  "(string \<Rightarrow> go_error + string) \<Rightarrow> (string \<Rightarrow> go_error + string) \<Rightarrow> EmailTask \<Rightarrow> (string \<times> string) option" where
  "buildTraceCtx TraceIDFromHex SpanIDFromHex task =
     (if TraceID task = [] then None
      else case TraceIDFromHex (TraceID task) of
          Inl _ \<Rightarrow> None
        | Inr tid \<Rightarrow> (case SpanIDFromHex (SpanID task) of Inl _ \<Rightarrow> None | Inr sid \<Rightarrow> Some (tid, sid)))"

lemma metadata_get_upd [simp]:
  "metadata_get (t\<lparr>LastError := er\<rparr>) k = metadata_get t k"
  "metadata_get (t\<lparr>Status := x\<rparr>) k = metadata_get t k"
  "metadata_get (t\<lparr>Attempt := n\<rparr>) k = metadata_get t k"
  by (simp_all add: metadata_get_def)

lemma IsRetryable_upd [simp]:
  "IsRetryable (t\<lparr>LastError := er, Status := x\<rparr>) = IsRetryable t"
  by (simp add: IsRetryable_iff IsPoisonMessage_iff)

subsection \<open>Counters\<close>

definition counters :: "'w Supervisor \<Rightarrow> nat \<times> i64 \<times> i64 \<times> i64 \<times> i64" where
  "counters st = (sem st, activeWorkers st, totalProcessed st, totalFailed st, totalRetried st)"

lemma counters_on_world: "on_world f st = (r, st') \<Longrightarrow> counters st' = counters st"
  by (auto simp: on_world_def counters_def split: prod.splits)

lemma counters_metric [simp]: "counters (metric_st d m st) = counters st"
  by (simp add: metric_st_def counters_def)

lemma counters_clear [simp]: "counters (clearLockAndNack d task k er st) = counters st"
  by (auto simp: clearLockAndNack_def Let_def split: prod.splits dest!: counters_on_world)

lemma counters_gate:
  "idempotency_gate d cfg task k st = (g, st') \<Longrightarrow>
   counters st' = counters st \<and> g \<in> {None, Some Deduped, Some LockHeld}"
  by (auto simp: idempotency_gate_def Let_def split: prod.splits if_splits dest!: counters_on_world)

text \<open>What an outcome adds to the totals of processed, failed and retried tasks.\<close>

definition outcome_counts :: "outcome \<Rightarrow> i64 \<times> i64 \<times> i64" where
  "outcome_counts oc =
     (case oc of
        Deduped \<Rightarrow> (0, 0, 0) | LockHeld \<Rightarrow> (0, 0, 0) | Sent \<Rightarrow> (1, 0, 0) | Dead \<Rightarrow> (0, 1, 0)
      | DLQFailed \<Rightarrow> (0, 1, 0) | Retried \<Rightarrow> (0, 1, 1) | RetryFailed \<Rightarrow> (0, 1, 0) | Panic _ \<Rightarrow> (0, 1, 0))"

lemma counters_delivered:
  "counters (delivered d task k dur st) = (sem st, activeWorkers st, totalProcessed st + 1, totalFailed st, totalRetried st)"
  by (auto simp: delivered_def Let_def split: prod.splits dest!: counters_on_world)
    (simp add: counters_def)

lemma counters_dead:
  "dead_letter d task k er nr dur st = (oc, st') \<Longrightarrow> counters st' = counters st \<and> oc \<in> {Dead, DLQFailed}"
  by (auto simp: dead_letter_def Let_def split: prod.splits option.splits dest!: counters_on_world)

lemma counters_retry:
  "schedule_retry d task k dur st = ((oc, task'), st') \<Longrightarrow>
   counters st' = (sem st, activeWorkers st, totalProcessed st, totalFailed st,
     totalRetried st + (if oc = Retried then 1 else 0)) \<and> oc \<in> {Retried, RetryFailed} \<and>
   task' = task\<lparr>Attempt := Attempt task + 1\<rparr>"
  by (auto simp: schedule_retry_def Let_def split: prod.splits option.splits dest!: counters_on_world)
    (simp_all add: counters_def)

lemma failed_delivery_cases:
  assumes "failed_delivery d task k er dur st = ((oc, task'), st')"
  defines "t \<equiv> task\<lparr>LastError := Error er, Status := StatusFailed\<rparr>"
  shows "(if is_nonretryable er \<or> \<not> IsRetryable task then oc \<in> {Dead, DLQFailed} \<and> task' = t
     else oc \<in> {Retried, RetryFailed} \<and> task' = t\<lparr>Attempt := Attempt task + 1\<rparr>) \<and>
    counters st' = (sem st, activeWorkers st, totalProcessed st, totalFailed st + 1,
      totalRetried st + (if oc = Retried then 1 else 0))"
proof (cases "is_nonretryable er \<or> \<not> IsRetryable task")
  case True
  then show ?thesis using assms
    by (auto simp: failed_delivery_def Let_def split: prod.splits dest!: counters_dead)
      (simp_all add: counters_def)
next
  case False
  then show ?thesis using assms
    by (auto simp: failed_delivery_def Let_def split: prod.splits dest!: counters_retry)
qed

text \<open>What \<open>process_body\<close> may end with, and the totals then.\<close>

lemma process_body_cases:
  assumes "process_body d cfg task st = ((oc, task'), st')"
  shows "(oc \<in> {Deduped, LockHeld} \<and> counters st' = counters st \<and> task' = task) \<or>
    (\<exists>msg. oc = Panic msg \<and> counters st' = counters st \<and> task' = task) \<or>
    (oc = Sent \<and> task' = task \<and>
      counters st' = (sem st, activeWorkers st, totalProcessed st + 1, totalFailed st, totalRetried st)) \<or>
    (\<exists>er. (if is_nonretryable er \<or> \<not> IsRetryable task
        then oc \<in> {Dead, DLQFailed} \<and> task' = task\<lparr>LastError := Error er, Status := StatusFailed\<rparr>
        else oc \<in> {Retried, RetryFailed} \<and>
          task' = task\<lparr>LastError := Error er, Status := StatusFailed, Attempt := Attempt task + 1\<rparr>) \<and>
      counters st' = (sem st, activeWorkers st, totalProcessed st, totalFailed st + 1,
        totalRetried st + (if oc = Retried then 1 else 0)))"
proof -
  let ?k = "attemptKey (ID task) (Attempt task)"
  obtain g st1 where g: "idempotency_gate d cfg task ?k st = (g, st1)" by fastforce
  note G = counters_gate [OF g]
  obtain b st2 where s2: "on_world (clock d) st1 = (b, st2)" by fastforce
  obtain o3 st3 where s3: "on_world (port_Send (sender d) task) st2 = (o3, st3)" by fastforce
  obtain fin st4 where s4: "on_world (clock d) st3 = (fin, st4)" by fastforce
  have c: "counters st3 = counters st" "counters st4 = counters st"
    using counters_on_world [OF s2] counters_on_world [OF s3] counters_on_world [OF s4] G by simp_all
  then have c4: "sem st4 = sem st" "activeWorkers st4 = activeWorkers st" "totalProcessed st4 = totalProcessed st"
    "totalFailed st4 = totalFailed st" "totalRetried st4 = totalRetried st" by (auto simp: counters_def)
  consider oc2 where "g = Some oc2" | msg where "g = None" "o3 = Panicked msg"
    | "g = None" "o3 = Returned None" | er where "g = None" "o3 = Returned (Some er)"
    by (metis not_None_eq send_outcome.exhaust)
  then show ?thesis
  proof cases
    case 1
    then show ?thesis using assms g G by (auto simp: process_body_def)
  next
    case 2
    then show ?thesis using assms g s2 s3 c by (auto simp: process_body_def)
  next
    case 3
    then show ?thesis using assms g s2 s3 s4 c4 by (auto simp: process_body_def counters_delivered)
  next
    case (4 er)
    then have "failed_delivery d task ?k er (duration_seconds (word_of_int (fin - b))) st4 = ((oc, task'), st')"
      using assms g s2 s3 s4 by (simp add: process_body_def)
    from failed_delivery_cases [OF this] show ?thesis unfolding c4 by blast
  qed
qed

lemma process_body_counters:
  assumes "process_body d cfg task st = ((oc, task'), st')"
  shows "counters st' = (if \<exists>msg. oc = Panic msg then counters st
    else (sem st, activeWorkers st, totalProcessed st + fst (outcome_counts oc),
      totalFailed st + fst (snd (outcome_counts oc)), totalRetried st + snd (snd (outcome_counts oc))))"
  using process_body_cases [OF assms]
  by (elim disjE exE conjE; cases oc) (simp_all add: outcome_counts_def counters_def split: if_splits)

lemma recover_panic_cases:
  assumes "recover_panic d (oc, task) st = ((oc', task'), st')"
  shows "oc' = oc \<and> (if \<exists>msg. oc = Panic msg
      then counters st' = (sem st, activeWorkers st, totalProcessed st, totalFailed st + 1, totalRetried st) \<and>
        task' = metadata_set ''poison'' ''true'' task
      else st' = st \<and> task' = task)"
  using assms
  by (cases oc) (auto simp: recover_panic_def Let_def split: prod.splits dest!: counters_on_world,
      auto simp: counters_def)

lemma counters_release: "counters (release_slot d cfg st) =
    (sem st - 1, activeWorkers st - 1, totalProcessed st, totalFailed st, totalRetried st)"
  by (simp add: release_slot_def Let_def) (simp add: counters_def)

lemma processTask_unfold:
  assumes "processTask d cfg task st = ((oc, task'), st')"
  obtains oc2 task2 st2 st3 where
    "process_body d cfg task (st\<lparr>activeWorkers := activeWorkers st + 1\<rparr>) = ((oc2, task2), st2)"
    "recover_panic d (oc2, task2) st2 = ((oc, task'), st3)" "st' = release_slot d cfg st3"
  using assms unfolding processTask_def Let_def
  by (auto split: prod.splits)

lemma processTask_cases:
  assumes "processTask d cfg task st = ((oc, task'), st')"
  shows "(oc \<in> {Deduped, LockHeld, Sent} \<and> task' = task) \<or>
    (\<exists>msg. oc = Panic msg \<and> task' = metadata_set ''poison'' ''true'' task) \<or>
    (\<exists>er. if is_nonretryable er \<or> \<not> IsRetryable task
        then oc \<in> {Dead, DLQFailed} \<and> task' = task\<lparr>LastError := Error er, Status := StatusFailed\<rparr>
        else oc \<in> {Retried, RetryFailed} \<and>
          task' = task\<lparr>LastError := Error er, Status := StatusFailed, Attempt := Attempt task + 1\<rparr>)"
proof -
  obtain oc2 task2 st2 st3 where b: "process_body d cfg task (st\<lparr>activeWorkers := activeWorkers st + 1\<rparr>) = ((oc2, task2), st2)"
    and r: "recover_panic d (oc2, task2) st2 = ((oc, task'), st3)"
    using processTask_unfold [OF assms] by metis
  note R = recover_panic_cases [OF r]
  from process_body_cases [OF b] show ?thesis
  proof (elim disjE exE conjE)
    assume "oc2 \<in> {Deduped, LockHeld}" "task2 = task"
    with R show ?thesis by auto
  next
    fix msg assume "oc2 = Panic msg" "task2 = task"
    with R show ?thesis by simp
  next
    assume "oc2 = Sent" "task2 = task"
    with R show ?thesis by simp
  next
    fix er
    assume f: "if is_nonretryable er \<or> \<not> IsRetryable task
        then oc2 \<in> {Dead, DLQFailed} \<and> task2 = task\<lparr>LastError := Error er, Status := StatusFailed\<rparr>
        else oc2 \<in> {Retried, RetryFailed} \<and>
          task2 = task\<lparr>LastError := Error er, Status := StatusFailed, Attempt := Attempt task + 1\<rparr>"
    then have "\<nexists>msg. oc2 = Panic msg" by (auto split: if_splits)
    with R have "oc = oc2" "task' = task2" by simp_all
    with f show ?thesis by blast
  qed
qed

subsection \<open>Routing\<close>

lemma on_world_call: "on_world f st = (r, st') \<Longrightarrow> \<exists>w'. f (world st) = (r, w')"
  by (auto simp: on_world_def split: prod.splits)

text \<open>
  What happens to a task whose delivery failed with \<open>er\<close>: the dead-letter writer is given an entry with the task, its error
  and the reason, or the retry scheduler is given the task with its own delay; the outcome says whether they took it.
\<close>

definition buried :: "'w deps \<Rightarrow> EmailTask \<Rightarrow> go_error \<Rightarrow> outcome \<Rightarrow> bool" where
  "buried d task er oc \<longleftrightarrow>
     (\<exists>now w r w'. port_SendToDLQ (dlqWriter d)
        (Some \<lparr>Task = Some task, DeadAt = now,
           FailureReason = (if is_nonretryable er then ''non-retryable error'' else ''max attempts exceeded''),
           FinalError = Error er, AttemptHistory = []\<rparr>) w = (r, w') \<and>
        oc = (if r = None then Dead else DLQFailed))"

definition rescheduled :: "'w deps \<Rightarrow> EmailTask \<Rightarrow> outcome \<Rightarrow> bool" where
  "rescheduled d task oc \<longleftrightarrow>
     (\<exists>rnd w r w'. port_ScheduleRetry (retryScheduler d) task (NextRetryDelay task rnd) w = (r, w') \<and>
        oc = (if r = None then Retried else RetryFailed))"

lemma dead_letter_call:
  assumes "dead_letter d task k er (is_nonretryable er) dur st = (oc, st')"
  shows "buried d task er oc"
proof -
  let ?entry = "\<lambda>now. \<lparr>Task = Some task, DeadAt = now,
    FailureReason = (if is_nonretryable er then ''non-retryable error'' else ''max attempts exceeded''),
    FinalError = Error er, AttemptHistory = []\<rparr>"
  obtain now st1 where c: "on_world (clock d) st = (now, st1)" by fastforce
  obtain r st2 where r: "on_world (port_SendToDLQ (dlqWriter d) (Some (?entry now))) st1 = (r, st2)" by fastforce
  have "oc = (if r = None then Dead else DLQFailed)"
    using assms c r by (cases r) (simp_all add: dead_letter_def Let_def split: prod.splits)
  with on_world_call [OF r] show ?thesis unfolding buried_def by blast
qed

lemma schedule_retry_call:
  assumes "schedule_retry d task k dur st = ((oc, task'), st')"
  shows "task' = task\<lparr>Attempt := Attempt task + 1\<rparr> \<and> rescheduled d task' oc"
proof -
  let ?t = "task\<lparr>Attempt := Attempt task + 1\<rparr>"
  obtain rnd st1 where c: "on_world (random d) st = (rnd, st1)" by fastforce
  obtain r st2 where r: "on_world (port_ScheduleRetry (retryScheduler d) ?t (NextRetryDelay ?t rnd)) st1 = (r, st2)" by fastforce
  have "oc = (if r = None then Retried else RetryFailed) \<and> task' = ?t"
    using assms c r by (cases r) (simp_all add: schedule_retry_def Let_def split: prod.splits)
  with on_world_call [OF r] show ?thesis unfolding rescheduled_def by blast
qed

lemma failed_delivery_calls:
  assumes "failed_delivery d task k er dur st = ((oc, task'), st')"
  defines "t \<equiv> task\<lparr>LastError := Error er, Status := StatusFailed\<rparr>"
  shows "if is_nonretryable er \<or> \<not> IsRetryable task then task' = t \<and> buried d task' er oc
     else task' = t\<lparr>Attempt := Attempt task + 1\<rparr> \<and> rescheduled d task' oc"
proof (cases "is_nonretryable er \<or> \<not> IsRetryable task")
  case True
  then show ?thesis using assms dead_letter_call [of d t k er]
    by (auto simp: failed_delivery_def Let_def split: prod.splits)
next
  case False
  then show ?thesis using assms schedule_retry_call [of d t k]
    by (auto simp: failed_delivery_def Let_def)
qed

text \<open>What the provider answered decides the outcome.\<close>

definition routed :: "'w deps \<Rightarrow> EmailTask \<Rightarrow> send_outcome \<Rightarrow> outcome \<Rightarrow> EmailTask \<Rightarrow> bool" where
  "routed d task answer oc task' \<longleftrightarrow>
     (case answer of
        Panicked msg \<Rightarrow> oc = Panic msg \<and> task' = metadata_set ''poison'' ''true'' task
      | Returned None \<Rightarrow> oc = Sent \<and> task' = task
      | Returned (Some er) \<Rightarrow>
          if errors_is er ErrNonRetryable \<or> errors_is er ErrCircuitOpen \<or> IsPoisonMessage task \<or>
             sint (MaxAttempts task) \<le> sint (Attempt task)
          then task' = task\<lparr>LastError := Error er, Status := StatusFailed\<rparr> \<and> buried d task' er oc
          else task' = task\<lparr>LastError := Error er, Status := StatusFailed, Attempt := Attempt task + 1\<rparr> \<and>
            sint (Attempt task') = sint (Attempt task) + 1 \<and> rescheduled d task' oc)"

lemma process_body_answer:
  assumes "process_body d cfg task st = ((oc, task'), st')"
  shows "oc \<in> {Deduped, LockHeld} \<and> task' = task \<or>
    (\<exists>w. case fst (port_Send (sender d) task w) of
       Panicked msg \<Rightarrow> oc = Panic msg \<and> task' = task
     | Returned None \<Rightarrow> oc = Sent \<and> task' = task
     | Returned (Some er) \<Rightarrow> \<exists>k dur st0. failed_delivery d task k er dur st0 = ((oc, task'), st'))"
proof -
  let ?k = "attemptKey (ID task) (Attempt task)"
  obtain g st1 where g: "idempotency_gate d cfg task ?k st = (g, st1)" by fastforce
  note G = counters_gate [OF g]
  obtain b st2 where s2: "on_world (clock d) st1 = (b, st2)" by fastforce
  obtain r st3 where s3: "on_world (port_Send (sender d) task) st2 = (r, st3)" by fastforce
  obtain fin st4 where s4: "on_world (clock d) st3 = (fin, st4)" by fastforce
  have r: "r = fst (port_Send (sender d) task (world st2))"
    using s3 by (auto simp: on_world_def split: prod.splits)
  show ?thesis
  proof (cases g)
    case (Some oc2)
    then show ?thesis using assms g G by (auto simp: process_body_def)
  next
    case None
    have "case r of Panicked msg \<Rightarrow> oc = Panic msg \<and> task' = task
       | Returned None \<Rightarrow> oc = Sent \<and> task' = task
       | Returned (Some er) \<Rightarrow> \<exists>k dur st0. failed_delivery d task k er dur st0 = ((oc, task'), st')"
      using assms g s2 s3 s4 None
      by (cases r) (auto simp: process_body_def Let_def split: option.splits)
    then show ?thesis unfolding r by blast
  qed
qed

lemma failed_delivery_routed:
  assumes "failed_delivery d task k er dur st = ((oc, task'), st')"
  shows "routed d task (Returned (Some er)) oc task'"
proof (cases "is_nonretryable er \<or> \<not> IsRetryable task")
  case True
  then show ?thesis using failed_delivery_calls [OF assms]
    by (auto simp: routed_def is_nonretryable_def IsRetryable_iff)
next
  case False
  then show ?thesis using failed_delivery_calls [OF assms] retryable_increment [of task]
    by (auto simp: routed_def is_nonretryable_def IsRetryable_iff)
qed

lemma processTask_routed:
  assumes "processTask d cfg task st = ((oc, task'), st')"
  shows "oc \<in> {Deduped, LockHeld} \<and> task' = task \<or>
    (\<exists>w. routed d task (fst (port_Send (sender d) task w)) oc task')"
proof -
  obtain oc2 task2 st2 st3 where b: "process_body d cfg task (st\<lparr>activeWorkers := activeWorkers st + 1\<rparr>) = ((oc2, task2), st2)"
    and r: "recover_panic d (oc2, task2) st2 = ((oc, task'), st3)"
    using processTask_unfold [OF assms] by metis
  note R = recover_panic_cases [OF r]
  from process_body_answer [OF b] consider (gate) "oc2 \<in> {Deduped, LockHeld}" "task2 = task"
    | (sent) w where "case fst (port_Send (sender d) task w) of
       Panicked msg \<Rightarrow> oc2 = Panic msg \<and> task2 = task
     | Returned None \<Rightarrow> oc2 = Sent \<and> task2 = task
     | Returned (Some er) \<Rightarrow> \<exists>k dur st0. failed_delivery d task k er dur st0 = ((oc2, task2), st2)" by blast
  then show ?thesis
  proof cases
    case gate
    then show ?thesis using R by auto
  next
    case (sent w)
    show ?thesis
    proof (cases "fst (port_Send (sender d) task w)")
      case (Panicked msg)
      then show ?thesis using sent R by (auto simp: routed_def intro!: exI [of _ w])
    next
      case (Returned a)
      show ?thesis
      proof (cases a)
        case None
        then show ?thesis using sent R Returned by (auto simp: routed_def intro!: exI [of _ w])
      next
        case (Some er)
        then obtain k dur st0 where f: "failed_delivery d task k er dur st0 = ((oc2, task2), st2)"
          using sent Returned by auto
        from failed_delivery_cases [OF this] have "\<nexists>msg. oc2 = Panic msg" by (auto split: if_splits)
        then have "oc = oc2" "task' = task2" using R by simp_all
        then show ?thesis using failed_delivery_routed [OF f] Returned Some by (intro disjI2 exI [of _ w]) simp
      qed
    qed
  qed
qed

subsection \<open>Properties\<close>

text \<open>Slots and counters, for arbitrary adapters and whatever happens in between, a panic of the sender
  included: \<open>processTask\<close> gives back exactly one semaphore token, leaves the number of active
  workers as it found it, and adds to the totals what its outcome says: one processed for a
  delivery, one failed for every other end after the gate, one retried for a scheduled retry.\<close>

theorem processTask_counters:
  "case processTask d cfg task st of ((oc, task'), st') \<Rightarrow>
     sem st' = sem st - 1 \<and> activeWorkers st' = activeWorkers st \<and>
     (totalProcessed st' - totalProcessed st, totalFailed st' - totalFailed st, totalRetried st' - totalRetried st) =
       outcome_counts oc"
proof -
  obtain oc task' st' where p: "processTask d cfg task st = ((oc, task'), st')" by (metis prod.exhaust)
  obtain oc2 task2 st2 st3 where b: "process_body d cfg task (st\<lparr>activeWorkers := activeWorkers st + 1\<rparr>) = ((oc2, task2), st2)"
    and r: "recover_panic d (oc2, task2) st2 = ((oc, task'), st3)" and st': "st' = release_slot d cfg st3"
    using processTask_unfold [OF p] .
  have "counters st3 = (sem st, activeWorkers st + 1, totalProcessed st + fst (outcome_counts oc),
      totalFailed st + fst (snd (outcome_counts oc)), totalRetried st + snd (snd (outcome_counts oc)))"
    using process_body_counters [OF b] recover_panic_cases [OF r]
    by (cases oc2) (auto simp: outcome_counts_def counters_def)
  then show ?thesis
    using counters_release [of d cfg st3] by (simp add: p st' counters_def prod_eq_iff)
qed

text \<open>Attempt-scoped lock keys never collide: two tasks or two attempts share a key only if both the task
  ID and the attempt number are the same, whatever characters the IDs hold.\<close>

theorem attemptKey_injective: "attemptKey i a = attemptKey j b \<longleftrightarrow> i = j \<and> a = b"
proof -
  have "CHR ''#'' \<notin> set (show_int n)" for n
    using show_int_chars [of "CHR ''#''" n] by (auto simp: is_digit_def)
  then show ?thesis
    using append_sep_inj [of i "CHR ''#''" "show_int (sint a)" j "show_int (sint b)"]
    by (auto simp: attemptKey_def word_i64_eq_iff)
qed

text \<open>C33: Routing, for arbitrary adapters and providers: unless the gate turns the task away, the answer of the provider to this task
  decides. A panic poisons the task; no error means sent. An error that is (or wraps) the non-retryable or the circuit-open
  sentinel, a poisoned task or a used-up budget mean dead-lettered: the dead-letter writer is given this task with the text of this error,
  the same as final error, and the reason that fits; the attempt counter stays. Any other error means retry: the scheduler is given the
  task with the text of this error and the counter increased by one (which does not wrap), and the back-off delay of that attempt.
  Whether the writer or the scheduler took it tells \<open>Dead\<close> from \<open>DLQFailed\<close>, and \<open>Retried\<close> from \<open>RetryFailed\<close>. For a provider with one
  answer to the task, that is the answer. (ADR-005 also counts a cancelled context as non-retryable; the code does not.)\<close>

theorem processTask_routing:
  assumes "processTask d cfg task st = ((oc, task'), st')"
  shows "oc \<in> {Deduped, LockHeld} \<and> task' = task \<or>
    (\<exists>w. routed d task (fst (port_Send (sender d) task w)) oc task')"
  using processTask_routed [OF assms] .

text \<open>Stub adapters around a sender that fails with a given error.\<close>

definition stub_deps :: "go_error \<Rightarrow> unit deps" where
  "stub_deps er =
     \<lparr>consumer = StubConsumer,
      sender = StubEmailSender\<lparr>port_Send := (\<lambda>t w. (Returned (Some er), w))\<rparr>,
      idempotency = StubIdempotencyStore, retryScheduler = StubRetryScheduler, dlqWriter = StubDLQWriter,
      metrics = (\<lambda>m w. w), clock = (\<lambda>w. (0, w)), random = (\<lambda>w. (Fin 0, w))\<rparr>"

definition idle_supervisor :: "'w \<Rightarrow> 'w Supervisor" where
  "idle_supervisor w = \<lparr>sem = 1, activeWorkers = 0, totalProcessed = 0, totalFailed = 0, totalRetried = 0, world = w\<rparr>"

lemma stub_deps_sels [simp]:
  "consumer (stub_deps er) = StubConsumer" "idempotency (stub_deps er) = StubIdempotencyStore"
  "port_Send (sender (stub_deps er)) t w = (Returned (Some er), w)"
  "retryScheduler (stub_deps er) = StubRetryScheduler" "dlqWriter (stub_deps er) = StubDLQWriter" "clock (stub_deps er) w = (0, w)"
  "random (stub_deps er) w = (Fin 0, w)"
  by (simp_all add: stub_deps_def)

lemma stub_gate: "idempotency_gate (stub_deps er) cfg task k st = (None, st)"
  by (simp add: idempotency_gate_def on_world_def StubIdempotencyStore_def)

lemma stub_retry: "fst (fst (schedule_retry (stub_deps er) task k dur st)) = Retried"
  by (simp add: schedule_retry_def on_world_def StubRetryScheduler_def Let_def split: prod.splits)

lemma stub_retried:
  assumes "\<not> is_nonretryable er" "IsRetryable task"
  shows "fst (fst (processTask (stub_deps er) cfg task st)) = Retried"
  using assms stub_retry
  by (auto simp: processTask_def process_body_def stub_gate on_world_def failed_delivery_def recover_panic_def
      Let_def split: prod.splits outcome.splits) (metis fst_conv outcome.distinct)+

lemma busy_retryable: "\<not> is_nonretryable (ENew msg)" by (simp add: is_nonretryable_def)

lemma sample_retryable: "IsRetryable sample_task"
  by (simp add: IsRetryable_iff IsPoisonMessage_iff metadata_get_def)

lemma stub_dead:
  assumes "is_nonretryable er \<or> \<not> IsRetryable task"
  shows "fst (fst (processTask (stub_deps er) cfg task st)) = Dead"
  using assms
  by (auto simp: processTask_def process_body_def stub_gate on_world_def failed_delivery_def recover_panic_def
      dead_letter_def StubDLQWriter_def StubConsumer_def Let_def)

text \<open>A task with its whole budget left and a provider that refuses it for good.\<close>

theorem processTask_routing_witness:
  "case processTask (stub_deps (EWrap ''sendgrid'' (ESentinel ErrNonRetryable))) sample_config sample_task (idle_supervisor ()) of
     ((oc, task'), st') \<Rightarrow> oc = Dead \<and> LastError task' = ''sendgrid: non-retryable delivery failure'' \<and> Attempt task' = Attempt sample_task"
proof -
  let ?er = "EWrap ''sendgrid'' (ESentinel ErrNonRetryable)"
  obtain oc task' st' where p: "processTask (stub_deps ?er) sample_config sample_task (idle_supervisor ()) = ((oc, task'), st')"
    by (metis prod.exhaust)
  moreover have "is_nonretryable ?er" by (simp add: is_nonretryable_def)
  ultimately have oc: "oc = Dead" using stub_dead [of ?er sample_task sample_config "idle_supervisor ()"] by simp
  show ?thesis using processTask_routing [OF p] by (simp add: p oc routed_def sentinel_text_def)
qed

text \<open>
  One round of a task: it was processed, scheduled for another attempt and came back. The consumer
  may stamp its metadata on the way; the identity and the attempt counters are those of the payload.
\<close>

definition retry_step :: "'w deps \<Rightarrow> Config \<Rightarrow> EmailTask \<Rightarrow> EmailTask \<Rightarrow> bool" where
  "retry_step d cfg t t' \<longleftrightarrow>
     (\<exists>st t1 st'. processTask d cfg t st = ((Retried, t1), st') \<and>
        ID t' = ID t1 \<and> Attempt t' = Attempt t1 \<and> MaxAttempts t' = MaxAttempts t1)"

lemma retry_step_budget:
  assumes "retry_step d cfg t t'"
  shows "ID t' = ID t \<and> MaxAttempts t' = MaxAttempts t \<and> sint (Attempt t') = sint (Attempt t) + 1 \<and>
    sint (Attempt t) < sint (MaxAttempts t)"
proof -
  obtain st t1 st' where p: "processTask d cfg t st = ((Retried, t1), st')"
    and t': "ID t' = ID t1" "Attempt t' = Attempt t1" "MaxAttempts t' = MaxAttempts t1"
    using assms by (auto simp: retry_step_def)
  from processTask_cases [OF p] obtain er where r: "IsRetryable t"
    "t1 = t\<lparr>LastError := Error er, Status := StatusFailed, Attempt := Attempt t + 1\<rparr>"
    by (auto split: if_splits)
  with retryable_increment [of t] t' show ?thesis by (simp add: IsRetryable_iff)
qed

text \<open>C34: The retry budget holds for arbitrary adapters and senders: a task that has been through n retry
  rounds had at least n attempts left, keeps its identity, and its counter has grown by exactly n.
  Hence the number of rounds is finite.\<close>

theorem retry_budget:
  assumes "(retry_step d cfg ^^ n) t t'"
  shows "int n \<le> max 0 (sint (MaxAttempts t) - sint (Attempt t)) \<and> ID t' = ID t \<and>
    MaxAttempts t' = MaxAttempts t \<and> sint (Attempt t') = sint (Attempt t) + int n"
  using assms
proof (induction n arbitrary: t')
  case 0
  then show ?case by simp
next
  case (Suc n)
  then obtain u where u: "(retry_step d cfg ^^ n) t u" "retry_step d cfg u t'" by auto
  from Suc.IH [OF u(1)] retry_step_budget [OF u(2)] show ?case by auto
qed

lemma stub_retry_step:
  assumes "IsRetryable t" "\<not> is_nonretryable er"
  shows "retry_step (stub_deps er) cfg t (t\<lparr>Attempt := Attempt t + 1\<rparr>)"
proof -
  obtain oc t1 st' where p: "processTask (stub_deps er) cfg t (idle_supervisor ()) = ((oc, t1), st')"
    by (metis prod.exhaust)
  then have "oc = Retried" using stub_retried [OF assms(2,1)] by (metis fst_conv)
  moreover from this processTask_cases [OF p] have
    "Attempt t1 = Attempt t + 1" "ID t1 = ID t" "MaxAttempts t1 = MaxAttempts t" by (auto split: if_splits)
  ultimately show ?thesis
    using p unfolding retry_step_def by (intro exI [of _ "idle_supervisor ()"] exI [of _ t1] exI [of _ st']) simp
qed

theorem retry_budget_witness:
  "\<exists>t'. (retry_step (stub_deps (ENew ''busy'')) sample_config ^^ 1) sample_task t' \<and> sint (Attempt t') = 1"
proof -
  have "(retry_step (stub_deps (ENew ''busy'')) sample_config ^^ 1) sample_task
      (sample_task\<lparr>Attempt := Attempt sample_task + 1\<rparr>)"
    using stub_retry_step [OF sample_retryable busy_retryable] by (simp add: eq_OO)
  from this retry_budget [OF this] show ?thesis by (auto intro!: exI)
qed

text \<open>\<open>MaxAttempts\<close> counts retries, not sends: with a budget of one attempt and a provider that is always
  busy, the first send is followed by a retry and the second send by the dead-letter list, so
  the provider is called \<open>MaxAttempts + 1\<close> times.\<close>

theorem MaxAttempts_counts_retries:
  "\<exists>t'. retry_step (stub_deps (ENew ''busy'')) cfg (sample_task\<lparr>MaxAttempts := 1\<rparr>) t' \<and>
     fst (fst (processTask (stub_deps (ENew ''busy'')) cfg t' st)) = Dead"
proof -
  let ?t = "sample_task\<lparr>MaxAttempts := 1\<rparr>" and ?d = "stub_deps (ENew ''busy'')"
  let ?t' = "?t\<lparr>Attempt := Attempt ?t + 1\<rparr>"
  have "IsRetryable ?t" by (simp add: IsRetryable_iff IsPoisonMessage_iff metadata_get_def)
  from stub_retry_step [OF this busy_retryable] have "retry_step ?d cfg ?t ?t'" .
  moreover have "\<not> IsRetryable ?t'" by (simp add: IsRetryable_iff)
  then have "fst (fst (processTask ?d cfg ?t' st)) = Dead" by (simp add: stub_dead)
  ultimately show ?thesis by blast
qed

end
