(* ===== verification/Quiet.thy ===== *)
theory Quiet
  imports Supervisor
begin

text \<open>
  What the ports of the worker do not touch. \<open>obs\<close> is any view of the world (the mail a provider
  has accepted, a time series of the metrics) that the store, the queue, the clock and the random
  source leave alone; then the parts of a worker that only call those leave it alone too. The
  Redis adapters keep the laws when the client does.
\<close>

locale quiet_ports =
  fixes d :: "'w deps" and obs :: "'w \<Rightarrow> 'o"
  assumes q_ack: "port_Acknowledge (consumer d) t w = (r, w') \<Longrightarrow> obs w' = obs w"
    and q_nack: "port_Nack (consumer d) t er w = (r, w') \<Longrightarrow> obs w' = obs w"
    and q_set_processing: "port_SetProcessing (idempotency d) k i w = (lk, w') \<Longrightarrow> obs w' = obs w"
    and q_is_completed: "port_IsCompleted (idempotency d) k w = (b, w') \<Longrightarrow> obs w' = obs w"
    and q_set_completed: "port_SetCompleted (idempotency d) k w = (r, w') \<Longrightarrow> obs w' = obs w"
    and q_reclaim: "port_TryReclaimStale (idempotency d) k i age w = (lk, w') \<Longrightarrow> obs w' = obs w"
    and q_clear: "port_ClearProcessing (idempotency d) k w = (r, w') \<Longrightarrow> obs w' = obs w"
    and q_schedule: "port_ScheduleRetry (retryScheduler d) t delay w = (r, w') \<Longrightarrow> obs w' = obs w"
    and q_dead: "port_SendToDLQ (dlqWriter d) (Some x) w = (r, w') \<Longrightarrow> obs w' = obs w"
    and q_clock: "clock d w = (now, w') \<Longrightarrow> obs w' = obs w"
    and q_random: "random d w = (rn, w') \<Longrightarrow> obs w' = obs w"
begin

lemma quiet_on_world:
  assumes "on_world f st = (r, st')" and "\<And>r w'. f (world st) = (r, w') \<Longrightarrow> obs w' = obs (world st)"
  shows "obs (world st') = obs (world st)"
  using assms by (auto simp: on_world_def split: prod.splits)

lemma quiet_ack: "on_world (port_Acknowledge (consumer d) t) st = (r, st') \<Longrightarrow> obs (world st') = obs (world st)"
  by (erule quiet_on_world) (drule q_ack)

lemma quiet_nack: "on_world (port_Nack (consumer d) t er) st = (r, st') \<Longrightarrow> obs (world st') = obs (world st)"
  by (erule quiet_on_world) (drule q_nack)

lemma quiet_set_processing:
  "on_world (port_SetProcessing (idempotency d) k i) st = (r, st') \<Longrightarrow> obs (world st') = obs (world st)"
  by (erule quiet_on_world) (drule q_set_processing)

lemma quiet_is_completed:
  "on_world (port_IsCompleted (idempotency d) k) st = (r, st') \<Longrightarrow> obs (world st') = obs (world st)"
  by (erule quiet_on_world) (drule q_is_completed)

lemma quiet_set_completed:
  "on_world (port_SetCompleted (idempotency d) k) st = (r, st') \<Longrightarrow> obs (world st') = obs (world st)"
  by (erule quiet_on_world) (drule q_set_completed)

lemma quiet_reclaim:
  "on_world (port_TryReclaimStale (idempotency d) k i age) st = (r, st') \<Longrightarrow> obs (world st') = obs (world st)"
  by (erule quiet_on_world) (drule q_reclaim)

lemma quiet_clear:
  "on_world (port_ClearProcessing (idempotency d) k) st = (r, st') \<Longrightarrow> obs (world st') = obs (world st)"
  by (erule quiet_on_world) (drule q_clear)

lemma quiet_schedule:
  "on_world (port_ScheduleRetry (retryScheduler d) t delay) st = (r, st') \<Longrightarrow> obs (world st') = obs (world st)"
  by (erule quiet_on_world) (drule q_schedule)

lemma quiet_dead:
  "on_world (port_SendToDLQ (dlqWriter d) (Some x)) st = (r, st') \<Longrightarrow> obs (world st') = obs (world st)"
  by (erule quiet_on_world) (drule q_dead)

lemma quiet_clock: "on_world (clock d) st = (r, st') \<Longrightarrow> obs (world st') = obs (world st)"
  by (erule quiet_on_world) (drule q_clock)

lemma quiet_random: "on_world (random d) st = (r, st') \<Longrightarrow> obs (world st') = obs (world st)"
  by (erule quiet_on_world) (drule q_random)

lemmas quiet_world =
  quiet_ack quiet_nack quiet_set_processing quiet_is_completed quiet_set_completed quiet_reclaim quiet_clear
  quiet_schedule quiet_dead quiet_clock quiet_random

lemma clearLockAndNack_quiet [simp]: "obs (world (clearLockAndNack d task k er st)) = obs (world st)"
  unfolding clearLockAndNack_def Let_def by (auto split: prod.splits dest!: quiet_world)

lemma recover_panic_quiet:
  "recover_panic d res st = (res', st') \<Longrightarrow> obs (world st') = obs (world st) \<and> fst res' = fst res"
  unfolding recover_panic_def Let_def by (auto split: prod.splits outcome.splits dest!: quiet_world)

end

subsection \<open>The Redis adapters\<close>

definition redis_deps :: "'s env \<Rightarrow> Config \<Rightarrow> ScriptRegistry \<Rightarrow> 's EmailSender \<Rightarrow> 's deps" where
  "redis_deps e cfg scr snd' =
     \<lparr>consumer = RedisConsumer e cfg, sender = snd', idempotency = RedisIdempotencyStore e cfg scr,
      retryScheduler = RedisRetryScheduler e cfg, dlqWriter = RedisDLQWriter e cfg,
      metrics = record_metric e, clock = time_now e, random = rand_float e\<rparr>"

declare redis_deps_def [port_defs]

locale quiet_env =
  fixes e :: "'s env" and obs :: "'s \<Rightarrow> 'o"
  assumes acc_client: "env_client e c w = (r, w') \<Longrightarrow> obs w' = obs w"
    and acc_depth: "obs (record_metric e (RecordDLQDepth a b x) w) = obs w"
    and acc_now: "time_now e w = (now, w') \<Longrightarrow> obs w' = obs w"
    and acc_rand: "rand_float e w = (rn, w') \<Longrightarrow> obs w' = obs w"
begin

lemma acc_pipe: "pipe_exec e cs w = (rs, w') \<Longrightarrow> obs w' = obs w"
  by (induction cs arbitrary: w rs) (auto simp: Let_def split: prod.splits dest!: acc_client)

lemma acc_Acknowledge: "Acknowledge e cfg t w = (r, w') \<Longrightarrow> obs w' = obs w"
  by (auto simp: Acknowledge_def Let_def split: prod.splits option.splits dest!: acc_client)

lemma acc_SetProcessing: "SetProcessing e cfg scr k i w = (r, w') \<Longrightarrow> obs w' = obs w"
  by (auto simp: SetProcessing_def Let_def split: prod.splits sum.splits if_splits dest!: acc_client acc_now)

lemma acc_TryReclaimStale: "TryReclaimStale e cfg scr k i a w = (r, w') \<Longrightarrow> obs w' = obs w"
  by (auto simp: TryReclaimStale_def Let_def split: prod.splits sum.splits if_splits dest!: acc_client acc_now)

lemma acc_SetCompleted: "SetCompleted e cfg k w = (r, w') \<Longrightarrow> obs w' = obs w"
  by (auto simp: SetCompleted_def Let_def split: prod.splits option.splits if_splits dest!: acc_client acc_now)

lemma acc_IsCompleted: "IsCompleted e k w = (r, w') \<Longrightarrow> obs w' = obs w"
  by (auto simp: IsCompleted_def Let_def split: prod.splits sum.splits if_splits dest!: acc_client)

lemma acc_ClearProcessing: "ClearProcessing e k w = (r, w') \<Longrightarrow> obs w' = obs w"
  by (auto simp: ClearProcessing_def Let_def split: prod.splits option.splits dest!: acc_client)

lemma acc_ScheduleRetry: "ScheduleRetry e t delay w = (r, w') \<Longrightarrow> obs w' = obs w"
  by (auto simp: ScheduleRetry_def Let_def split: prod.splits option.splits sum.splits dest!: acc_client acc_now)

lemma acc_SendToDLQ: "SendToDLQ e cfg x w = (r, w') \<Longrightarrow> obs w' = obs w"
  by (auto simp: SendToDLQ_def Let_def acc_depth split: prod.splits option.splits sum.splits
      dest!: acc_client acc_pipe)

lemmas acc_adapters =
  acc_Acknowledge acc_SetProcessing acc_TryReclaimStale acc_SetCompleted acc_IsCompleted acc_ClearProcessing
  acc_ScheduleRetry acc_SendToDLQ acc_now acc_rand

end

sublocale quiet_env \<subseteq> adapters: quiet_ports "redis_deps e cfg scr snd'" obs for cfg scr snd'
  by unfold_locales
    (auto simp: port_defs
      Nack_def dest: acc_adapters)

end
