(* ===== verification/Handoff.thy ===== *)
theory Handoff
  imports Quiet
begin

text \<open>
  The promise of the worker: a message leaves the pending entries list only when the email was
  sent, was already completed, or the task is safe in the retry set or in a dead-letter list.
  The proof is done once against the laws of the ports (locale \<open>handoff_ports\<close>) and then holds
  for the Redis adapters under every pattern of lost and repeated commands.
\<close>

subsection \<open>The laws of the ports\<close>

text \<open>
  \<open>pend\<close>: the task's message is pending; \<open>retry_st\<close>: the task is in the retry set; \<open>dlq_st\<close>: the
  entry is in a dead-letter list; \<open>compl\<close>: the attempt is marked completed; \<open>accepted\<close>: what the provider
  has confirmed, in order; \<open>mail t\<close>: what it is handed for the task \<open>t\<close>.
\<close>

definition keeps_stored ::
  "('w \<Rightarrow> 'l) \<Rightarrow> ('t \<Rightarrow> 'w \<Rightarrow> bool) \<Rightarrow> ('x \<Rightarrow> 'w \<Rightarrow> bool) \<Rightarrow> ('k \<Rightarrow> 'w \<Rightarrow> bool) \<Rightarrow> 'w \<Rightarrow> 'w \<Rightarrow> bool" where
  "keeps_stored accepted retry_st dlq_st compl w w' \<longleftrightarrow>
     accepted w' = accepted w \<and>
     (\<forall>t. retry_st t w \<longrightarrow> retry_st t w') \<and> (\<forall>x. dlq_st x w \<longrightarrow> dlq_st x w') \<and>
     (\<forall>k. compl k w \<longrightarrow> compl k w')"

definition keeps_pend :: "('w \<Rightarrow> 'l) \<Rightarrow> ('t \<Rightarrow> 'w \<Rightarrow> bool) \<Rightarrow> 'w \<Rightarrow> 'w \<Rightarrow> bool" where
  "keeps_pend accepted pend w w' \<longleftrightarrow> accepted w' = accepted w \<and> (\<forall>t. pend t w \<longrightarrow> pend t w')"

locale handoff_ports =
  fixes d :: "'w deps"
    and mail :: "EmailTask \<Rightarrow> 'm"
    and accepted :: "'w \<Rightarrow> 'm list"
    and pend :: "EmailTask \<Rightarrow> 'w \<Rightarrow> bool"
    and retry_st :: "EmailTask \<Rightarrow> 'w \<Rightarrow> bool"
    and dlq_st :: "DLQEntry \<Rightarrow> 'w \<Rightarrow> bool"
    and compl :: "string \<Rightarrow> 'w \<Rightarrow> bool"
  assumes ack: "port_Acknowledge (consumer d) t w = (r, w') \<Longrightarrow> keeps_stored accepted retry_st dlq_st compl w w'"
    and nack: "port_Nack (consumer d) t er w = (r, w') \<Longrightarrow> keeps_pend accepted pend w w'"
    and set_processing: "port_SetProcessing (idempotency d) k i w = (lk, w') \<Longrightarrow> keeps_pend accepted pend w w'"
    and is_completed: "port_IsCompleted (idempotency d) k w = ((b, ce), w') \<Longrightarrow>
      keeps_pend accepted pend w w' \<and> (b \<longrightarrow> compl k w')"
    and set_completed: "port_SetCompleted (idempotency d) k w = (r, w') \<Longrightarrow> accepted w' = accepted w"
    and reclaim: "port_TryReclaimStale (idempotency d) k i age w = (lk, w') \<Longrightarrow> keeps_pend accepted pend w w'"
    and clear: "port_ClearProcessing (idempotency d) k w = (r, w') \<Longrightarrow> keeps_pend accepted pend w w'"
    and schedule: "port_ScheduleRetry (retryScheduler d) t delay w = (r, w') \<Longrightarrow>
      keeps_pend accepted pend w w' \<and> (r = None \<longrightarrow> retry_st t w')"
    and dead: "port_SendToDLQ (dlqWriter d) (Some x) w = (r, w') \<Longrightarrow>
      keeps_pend accepted pend w w' \<and> (r = None \<longrightarrow> dlq_st x w')"
    and send: "port_Send (sender d) t w = (so, w') \<Longrightarrow> (\<forall>t. pend t w \<longrightarrow> pend t w') \<and>
      accepted w' = (if so = Returned None then accepted w @ [mail t] else accepted w)"
    and metric: "keeps_pend accepted pend w (metrics d m w) \<and> keeps_stored accepted retry_st dlq_st compl w (metrics d m w)"
    and clocks: "clock d w = (now, w') \<Longrightarrow> keeps_pend accepted pend w w'"
    and randoms: "random d w = (rn, w') \<Longrightarrow> keeps_pend accepted pend w w'"
begin

lemma pend_on_world:
  assumes "on_world f st = (r, st')" and "\<And>r w'. f (world st) = (r, w') \<Longrightarrow> keeps_pend accepted pend (world st) w'"
    and "pend t (world st)"
  shows "pend t (world st')"
  using assms by (auto simp: on_world_def keeps_pend_def split: prod.splits)

lemma pend_metric: "pend t (world st) \<Longrightarrow> pend t (world (metric_st d m st))"
  using metric by (simp add: metric_st_def keeps_pend_def)

end

sublocale handoff_ports \<subseteq> quiet: quiet_ports d accepted
  by unfold_locales
    (auto simp: keeps_pend_def keeps_stored_def
      dest!: ack nack set_processing is_completed set_completed reclaim clear schedule dead clocks randoms)

context handoff_ports begin

lemmas log_world = quiet.quiet_world

lemma log_metric [simp]: "accepted (world (metric_st d m st)) = accepted (world st)"
  using metric by (simp add: metric_st_def keeps_pend_def)

lemma gate_log: "idempotency_gate d cfg task k st = (g, st') \<Longrightarrow> accepted (world st') = accepted (world st)"
  unfolding idempotency_gate_def Let_def by (auto split: prod.splits if_splits dest!: log_world)

lemma delivered_log: "accepted (world (delivered d task k dur st)) = accepted (world st)"
  unfolding delivered_def Let_def by (auto split: prod.splits dest!: log_world)

lemma dead_letter_log: "dead_letter d task k er nr dur st = (oc, st') \<Longrightarrow> accepted (world st') = accepted (world st)"
  unfolding dead_letter_def Let_def by (auto split: prod.splits option.splits dest!: log_world)

lemma schedule_retry_log: "schedule_retry d task k dur st = (res, st') \<Longrightarrow> accepted (world st') = accepted (world st)"
  unfolding schedule_retry_def Let_def by (auto split: prod.splits option.splits dest!: log_world)

lemma failed_delivery_log: "failed_delivery d task k er dur st = (res, st') \<Longrightarrow> accepted (world st') = accepted (world st)"
  unfolding failed_delivery_def Let_def
  by (auto split: prod.splits if_splits dest!: dead_letter_log schedule_retry_log)

lemma clearLockAndNack_pend:
  "pend t (world st) \<Longrightarrow> pend t (world (clearLockAndNack d task k er st))"
  unfolding clearLockAndNack_def Let_def
  by (auto split: prod.splits intro: pend_on_world clear nack)

lemma gate_spec:
  assumes "idempotency_gate d cfg task k st = (g, st')" and "pend t (world st)"
  shows "pend t (world st') \<or> (g = Some Deduped \<and> compl k (world st'))"
proof -
  obtain a er st1 where s1: "on_world (port_SetProcessing (idempotency d) k (ConsumerName (CfgWorker cfg))) st = ((a, er), st1)"
    by (metis prod.exhaust)
  have p1: "pend t (world st1)" by (rule pend_on_world [OF s1 set_processing assms(2)])
  show ?thesis
  proof (cases a)
    case True
    then show ?thesis using assms s1 p1 by (simp add: idempotency_gate_def)
  next
    case False
    obtain c er2 st2 where s2: "on_world (port_IsCompleted (idempotency d) k) st1 = ((c, er2), st2)"
      by (metis prod.exhaust)
    have p2: "pend t (world st2)"
      by (rule pend_on_world [OF s2 _ p1]) (use is_completed in \<open>metis prod.exhaust\<close>)
    show ?thesis
    proof (cases c)
      case True
      then have c2: "compl k (world st2)"
        using s2 is_completed by (auto simp: on_world_def split: prod.splits)
      obtain r st3 where s3: "on_world (port_Acknowledge (consumer d) task) st2 = (r, st3)" by fastforce
      then have "compl k (world st3)"
        using c2 ack by (auto simp: on_world_def keeps_stored_def split: prod.splits)
      then have "compl k (world (metric_st d m st3))" for m
        using metric by (simp add: metric_st_def keeps_stored_def)
      moreover have "(g, st') = (Some Deduped, metric_st d (processed_metric task ''deduped'' (Fin 0)) st3)"
        using assms s1 s2 s3 False True by (simp add: idempotency_gate_def)
      ultimately show ?thesis by simp
    next
      case c: False
      obtain rc er3 st3 where s3: "on_world (port_TryReclaimStale (idempotency d) k (ConsumerName (CfgWorker cfg))
          (ClaimIdleThreshold (CfgWorker cfg))) st2 = ((rc, er3), st3)"
        by (metis prod.exhaust)
      have p3: "pend t (world st3)" by (rule pend_on_world [OF s3 reclaim p2])
      obtain r st4 where s4: "on_world (port_Nack (consumer d) task (ENew ''idempotency lock actively held'')) st3 = (r, st4)"
        by fastforce
      have p4: "pend t (world st4)" by (rule pend_on_world [OF s4 nack p3])
      have "st' \<in> {st3, st4}"
        using assms s1 s2 s3 s4 False c by (auto simp: idempotency_gate_def split: if_splits)
      then show ?thesis using p3 p4 by auto
    qed
  qed
qed

lemma dead_letter_spec:
  assumes "dead_letter d task k er nr dur st = (oc, st')" and "pend t (world st)"
  shows "pend t (world st') \<or> (oc = Dead \<and> (\<exists>x. dlq_st x (world st') \<and> Task x = Some task \<and> FinalError x = Error er))"
proof -
  obtain now st1 where s1: "on_world (clock d) st = (now, st1)" by fastforce
  have p1: "pend t (world st1)" by (rule pend_on_world [OF s1 clocks assms(2)])
  define x where "x = \<lparr>Task = Some task, DeadAt = now,
    FailureReason = (if nr then ''non-retryable error'' else ''max attempts exceeded''),
    FinalError = Error er, AttemptHistory = []\<rparr>"
  obtain dr st2 where s2: "on_world (port_SendToDLQ (dlqWriter d) (Some x)) st1 = (dr, st2)" by fastforce
  have p2: "pend t (world st2)" by (rule pend_on_world [OF s2 _ p1]) (use dead in blast)
  show ?thesis
  proof (cases dr)
    case (Some e2)
    then have "st' = clearLockAndNack d task k e2 st2"
      using assms s1 s2 by (simp add: dead_letter_def x_def Let_def)
    then show ?thesis using p2 clearLockAndNack_pend by simp
  next
    case None
    then have d2: "dlq_st x (world st2)" using s2 dead by (auto simp: on_world_def split: prod.splits)
    obtain r st3 where s3: "on_world (port_Acknowledge (consumer d) task) st2 = (r, st3)" by fastforce
    then have "dlq_st x (world st3)"
      using d2 ack by (auto simp: on_world_def keeps_stored_def split: prod.splits)
    then have "dlq_st x (world (metric_st d m st3))" for m
      using metric by (simp add: metric_st_def keeps_stored_def)
    moreover have "oc = Dead" "st' = metric_st d (processed_metric task ''dead'' dur) st3"
      using assms s1 s2 s3 None by (auto simp: dead_letter_def x_def Let_def)
    ultimately show ?thesis by (auto simp: x_def intro!: exI [of _ x])
  qed
qed

lemma schedule_retry_spec:
  assumes "schedule_retry d task k dur st = ((oc, task'), st')" and "pend t (world st)"
  shows "task' = task\<lparr>Attempt := Attempt task + 1\<rparr> \<and>
    (pend t (world st') \<or> (oc = Retried \<and> retry_st task' (world st')))"
proof -
  let ?t = "task\<lparr>Attempt := Attempt task + 1\<rparr>"
  obtain x st1 where s1: "on_world (random d) st = (x, st1)" by fastforce
  have p1: "pend t (world st1)" by (rule pend_on_world [OF s1 randoms assms(2)])
  obtain sr st2 where s2: "on_world (port_ScheduleRetry (retryScheduler d) ?t (NextRetryDelay ?t x)) st1 = (sr, st2)"
    by fastforce
  have p2: "pend t (world st2)" by (rule pend_on_world [OF s2 _ p1]) (use schedule in blast)
  show ?thesis
  proof (cases sr)
    case (Some e2)
    then have "task' = ?t" "st' = clearLockAndNack d ?t k e2 st2"
      using assms s1 s2 by (auto simp: schedule_retry_def Let_def)
    then show ?thesis using p2 clearLockAndNack_pend by simp
  next
    case None
    then have d2: "retry_st ?t (world st2)" using s2 schedule by (auto simp: on_world_def split: prod.splits)
    obtain r st3 where s3: "on_world (port_Acknowledge (consumer d) ?t) st2 = (r, st3)" by fastforce
    then have "retry_st ?t (world st3)"
      using d2 ack by (auto simp: on_world_def keeps_stored_def split: prod.splits)
    then have "retry_st ?t (world (metric_st d m (st3\<lparr>totalRetried := n\<rparr>)))" for m n
      using metric by (simp add: metric_st_def keeps_stored_def)
    moreover have "oc = Retried" "task' = ?t"
      "st' = metric_st d (processed_metric ?t ''failed'' dur) (st3\<lparr>totalRetried := totalRetried st3 + 1\<rparr>)"
      using assms s1 s2 s3 None by (auto simp: schedule_retry_def Let_def)
    ultimately show ?thesis by simp
  qed
qed

text \<open>Where the task is safe once its message is no longer pending.\<close>

definition safe :: "'m list \<Rightarrow> EmailTask \<Rightarrow> 'w \<Rightarrow> bool" where
  "safe sent_before task w \<longleftrightarrow>
     accepted w = sent_before @ [mail task] \<or>
     compl (attemptKey (ID task) (Attempt task)) w \<or>
     (\<exists>er. IsRetryable task \<and> retry_st (task\<lparr>LastError := Error er, Status := StatusFailed,
        Attempt := Attempt task + 1\<rparr>) w) \<or>
     (\<exists>x er. dlq_st x w \<and> Task x = Some (task\<lparr>LastError := Error er, Status := StatusFailed\<rparr>) \<and>
        FinalError x = Error er)"

lemma safe_metric: "safe l task (world st) \<Longrightarrow> safe l task (world (metric_st d m st))"
  using metric unfolding safe_def metric_st_def keeps_stored_def by fastforce

lemma failed_delivery_spec:
  assumes "failed_delivery d task (attemptKey (ID task) (Attempt task)) er dur st = ((oc, task'), st')"
    and "pend t (world st)"
  shows "(pend t (world st') \<or> safe l task (world st')) \<and> (\<forall>msg. oc \<noteq> Panic msg)"
proof -
  let ?k = "attemptKey (ID task) (Attempt task)" and ?st = "st\<lparr>totalFailed := totalFailed st + 1\<rparr>"
  let ?t = "task\<lparr>LastError := Error er, Status := StatusFailed\<rparr>"
  have p: "pend t (world ?st)" using assms(2) by simp
  show ?thesis
  proof (cases "is_nonretryable er \<or> \<not> IsRetryable ?t")
    case True
    then obtain oc2 where r: "dead_letter d ?t ?k er (is_nonretryable er) dur ?st = (oc2, st')" "oc = oc2"
      using assms(1) by (auto simp: failed_delivery_def Let_def split: prod.splits)
    from r have "\<forall>msg. oc \<noteq> Panic msg"
      by (auto simp: dead_letter_def Let_def split: prod.splits option.splits)
    with dead_letter_spec [OF r(1) p] show ?thesis by (fastforce simp: safe_def)
  next
    case False
    then have r: "schedule_retry d ?t ?k dur ?st = ((oc, task'), st')"
      using assms(1) by (simp add: failed_delivery_def Let_def)
    then have "\<forall>msg. oc \<noteq> Panic msg"
      by (auto simp: schedule_retry_def Let_def split: prod.splits option.splits)
    moreover have "safe l task w" if "retry_st (?t\<lparr>Attempt := Attempt ?t + 1\<rparr>) w" for w
      unfolding safe_def using that False by (intro disjI2 disjI1 exI [of _ er]) simp
    ultimately show ?thesis using schedule_retry_spec [OF r p] by auto
  qed
qed

lemma process_body_spec:
  assumes "process_body d cfg task st = ((oc, task'), st')" and "pend t (world st)"
  shows "pend t (world st') \<or> (safe (accepted (world st)) task (world st') \<and> (\<forall>msg. oc \<noteq> Panic msg))"
proof -
  let ?k = "attemptKey (ID task) (Attempt task)"
  obtain g st1 where g: "idempotency_gate d cfg task ?k st = (g, st1)" by fastforce
  note G = gate_spec [OF g assms(2)]
  show ?thesis
  proof (cases g)
    case (Some oc2)
    then show ?thesis using assms g G by (auto simp: process_body_def safe_def)
  next
    case None
    with G have p1: "pend t (world st1)" by simp
    obtain b st2 where s2: "on_world (clock d) st1 = (b, st2)" by fastforce
    have p2: "pend t (world st2)" by (rule pend_on_world [OF s2 clocks p1])
    obtain res st3 where s3: "on_world (port_Send (sender d) task) st2 = (res, st3)" by fastforce
    have p3: "pend t (world st3)" using s3 send p2 by (auto simp: on_world_def split: prod.splits)
    show ?thesis
    proof (cases res)
      case (Panicked msg)
      then show ?thesis using assms g None s2 s3 p3 by (simp add: process_body_def)
    next
      case (Returned er)
      obtain fin st4 where s4: "on_world (clock d) st3 = (fin, st4)" by fastforce
      have p4: "pend t (world st4)" by (rule pend_on_world [OF s4 clocks p3])
      show ?thesis
      proof (cases er)
        case e: None
        then have "accepted (world st3) = accepted (world st2) @ [mail task]"
          using s3 Returned send by (auto simp: on_world_def split: prod.splits)
        then have l4: "accepted (world st4) = accepted (world st) @ [mail task]"
          using s2 s4 gate_log [OF g] by (auto dest!: log_world)
        have "oc = Sent \<and> st' = delivered d task ?k (duration_seconds (word_of_int (fin - b))) st4"
          using assms g None s2 s3 s4 Returned e by (auto simp: process_body_def)
        then show ?thesis using l4 by (simp add: safe_def delivered_log)
      next
        case (Some er2)
        then have "failed_delivery d task ?k er2 (duration_seconds (word_of_int (fin - b))) st4 = ((oc, task'), st')"
          using assms g None s2 s3 s4 Returned by (simp add: process_body_def)
        from failed_delivery_spec [OF this p4] show ?thesis by blast
      qed
    qed
  qed
qed

lemma recover_panic_spec:
  assumes "recover_panic d res st = (res', st')"
  shows "(pend t (world st) \<longrightarrow> pend t (world st')) \<and> ((\<forall>msg. fst res \<noteq> Panic msg) \<longrightarrow> st' = st)"
  using assms unfolding recover_panic_def
  by (auto split: prod.splits outcome.splits simp: Let_def intro: pend_on_world nack)

text \<open>The provider accepts at most one email per call, and exactly one when the outcome is \<open>Sent\<close>.\<close>

lemma process_body_log:
  assumes "process_body d cfg task st = ((oc, task'), st')"
  shows "accepted (world st') = (if oc = Sent then accepted (world st) @ [mail task] else accepted (world st))"
proof -
  let ?k = "attemptKey (ID task) (Attempt task)"
  obtain g st1 where g: "idempotency_gate d cfg task ?k st = (g, st1)" by fastforce
  note l1 = gate_log [OF g]
  have gs: "g \<noteq> Some Sent" using g
    by (auto simp: idempotency_gate_def Let_def split: prod.splits if_splits)
  show ?thesis
  proof (cases g)
    case (Some oc2)
    then show ?thesis using assms g l1 gs by (auto simp: process_body_def)
  next
    case None
    obtain b st2 where s2: "on_world (clock d) st1 = (b, st2)" by fastforce
    obtain o3 st3 where s3: "on_world (port_Send (sender d) task) st2 = (o3, st3)" by fastforce
    obtain fin st4 where s4: "on_world (clock d) st3 = (fin, st4)" by fastforce
    have l2: "accepted (world st2) = accepted (world st)" using quiet.quiet_clock [OF s2] l1 by simp
    have l3: "accepted (world st3) = (if o3 = Returned None then accepted (world st) @ [mail task] else accepted (world st))"
      using s3 send l2 by (auto simp: on_world_def split: prod.splits)
    have l4: "accepted (world st4) = accepted (world st3)" using s4 by (auto dest!: log_world)
    show ?thesis
    proof (cases "o3 = Returned None")
      case True
      then show ?thesis using assms g None s2 s3 s4 l3 l4 by (auto simp: process_body_def delivered_log)
    next
      case False
      have "oc \<noteq> Sent" "accepted (world st') = accepted (world st3)"
        using assms g None s2 s3 s4 False l4
        by (auto simp: process_body_def failed_delivery_def dead_letter_def schedule_retry_def Let_def
            split: send_outcome.splits option.splits prod.splits if_splits
            dest!: failed_delivery_log log_world)
      then show ?thesis using l3 False by simp
    qed
  qed
qed

lemma processTask_log:
  assumes "processTask d cfg task st = ((oc, task'), st')"
  shows "accepted (world st') = (if oc = Sent then accepted (world st) @ [mail task] else accepted (world st))"
proof -
  obtain oc2 task2 st2 st3 where b: "process_body d cfg task (st\<lparr>activeWorkers := activeWorkers st + 1\<rparr>) = ((oc2, task2), st2)"
    and r: "recover_panic d (oc2, task2) st2 = ((oc, task'), st3)" and st': "st' = release_slot d cfg st3"
    using processTask_unfold [OF assms] .
  have "accepted (world st') = accepted (world st3)" by (simp add: st' release_slot_def Let_def)
  with process_body_log [OF b] quiet.recover_panic_quiet [OF r] show ?thesis by simp
qed

end

subsection \<open>Other messages\<close>

text \<open>
  \<open>msg t\<close> is the message a task came from. A worker touches no message but that of its task.
\<close>

locale message_ports = handoff_ports d mail accepted pend retry_st dlq_st compl
  for d :: "'w deps" and mail :: "EmailTask \<Rightarrow> 'm" and accepted pend retry_st dlq_st compl +
  fixes msg :: "EmailTask \<Rightarrow> 'i"
  assumes msg_failed: "msg (t\<lparr>LastError := a, Status := b\<rparr>) = msg t"
    and msg_attempt: "msg (t\<lparr>Attempt := n\<rparr>) = msg t"
    and ack_other: "port_Acknowledge (consumer d) t w = (r, w') \<Longrightarrow> msg t' \<noteq> msg t \<Longrightarrow> pend t' w \<Longrightarrow> pend t' w'"
    and completed_pend: "port_SetCompleted (idempotency d) k w = (r, w') \<Longrightarrow> pend t' w \<Longrightarrow> pend t' w'"
begin

lemma other_on_world:
  assumes "on_world f st = (r, st')" and "\<And>r w'. f (world st) = (r, w') \<Longrightarrow> pend t (world st) \<Longrightarrow> pend t w'"
    and "pend t (world st)"
  shows "pend t (world st')"
  using assms by (auto simp: on_world_def split: prod.splits)

lemma other_ack:
  "on_world (port_Acknowledge (consumer d) task) st = (r, st') \<Longrightarrow> msg t \<noteq> msg task \<Longrightarrow> pend t (world st) \<Longrightarrow> pend t (world st')"
  by (erule other_on_world) (auto intro: ack_other)

lemma other_completed:
  "on_world (port_SetCompleted (idempotency d) k) st = (r, st') \<Longrightarrow> pend t (world st) \<Longrightarrow> pend t (world st')"
  by (erule other_on_world) (auto intro: completed_pend)

lemma gate_other:
  assumes "idempotency_gate d cfg task k st = (g, st')" and "msg t \<noteq> msg task" and "pend t (world st)"
  shows "pend t (world st')"
proof -
  obtain a er st1 where s1: "on_world (port_SetProcessing (idempotency d) k (ConsumerName (CfgWorker cfg))) st = ((a, er), st1)"
    by (metis prod.exhaust)
  obtain c er2 st2 where s2: "on_world (port_IsCompleted (idempotency d) k) st1 = ((c, er2), st2)" by (metis prod.exhaust)
  obtain r st3 where s3: "on_world (port_Acknowledge (consumer d) task) st2 = (r, st3)" by fastforce
  have p1: "pend t (world st1)" by (rule pend_on_world [OF s1 set_processing assms(3)])
  have p2: "pend t (world st2)" by (rule pend_on_world [OF s2 _ p1]) (use is_completed in \<open>metis prod.exhaust\<close>)
  have "pend t (world st3)" by (rule other_ack [OF s3 assms(2) p2])
  then have "pend t (world (metric_st d m st3))" for m by (rule pend_metric)
  moreover have "g = Some Deduped \<Longrightarrow> st' = metric_st d (processed_metric task ''deduped'' (Fin 0)) st3"
    using assms(1) s1 s2 s3 by (auto simp: idempotency_gate_def Let_def split: if_splits prod.splits)
  ultimately show ?thesis using gate_spec [OF assms(1,3)] by auto
qed

lemma delivered_other:
  assumes "msg t \<noteq> msg task" and "pend t (world st)"
  shows "pend t (world (delivered d task k dur st))"
proof -
  obtain r st1 where s1: "on_world (port_Acknowledge (consumer d) task) st = (r, st1)" by fastforce
  obtain r2 st2 where s2: "on_world (port_SetCompleted (idempotency d) k) st1 = (r2, st2)" by fastforce
  have "pend t (world st2)" by (rule other_completed [OF s2 other_ack [OF s1 assms]])
  then have "pend t (world (metric_st d m (st2\<lparr>totalProcessed := n\<rparr>)))" for m n by (intro pend_metric) simp
  then show ?thesis by (simp add: delivered_def s1 s2)
qed

lemma dead_letter_other:
  assumes "dead_letter d task k er nr dur st = (oc, st')" and "msg t \<noteq> msg task" and "pend t (world st)"
  shows "pend t (world st')"
proof -
  obtain now st1 where s1: "on_world (clock d) st = (now, st1)" by fastforce
  define x where "x = \<lparr>Task = Some task, DeadAt = now,
    FailureReason = (if nr then ''non-retryable error'' else ''max attempts exceeded''),
    FinalError = Error er, AttemptHistory = []\<rparr>"
  obtain dr st2 where s2: "on_world (port_SendToDLQ (dlqWriter d) (Some x)) st1 = (dr, st2)" by fastforce
  obtain r st3 where s3: "on_world (port_Acknowledge (consumer d) task) st2 = (r, st3)" by fastforce
  have p1: "pend t (world st1)" by (rule pend_on_world [OF s1 clocks assms(3)])
  have p2: "pend t (world st2)" by (rule pend_on_world [OF s2 _ p1]) (use dead in blast)
  have "pend t (world (metric_st d m st3))" for m by (rule pend_metric [OF other_ack [OF s3 assms(2) p2]])
  moreover have "pend t (world (clearLockAndNack d task k e2 st2))" for e2 by (rule clearLockAndNack_pend [OF p2])
  ultimately show ?thesis using assms(1) s1 s2 s3
    by (cases dr) (auto simp: dead_letter_def x_def [symmetric] Let_def)
qed

lemma schedule_retry_other:
  assumes "schedule_retry d task k dur st = ((oc, task'), st')" and "msg t \<noteq> msg task" and "pend t (world st)"
  shows "pend t (world st')"
proof -
  let ?t = "task\<lparr>Attempt := Attempt task + 1\<rparr>"
  obtain x st1 where s1: "on_world (random d) st = (x, st1)" by fastforce
  obtain sr st2 where s2: "on_world (port_ScheduleRetry (retryScheduler d) ?t (NextRetryDelay ?t x)) st1 = (sr, st2)" by fastforce
  obtain r st3 where s3: "on_world (port_Acknowledge (consumer d) ?t) st2 = (r, st3)" by fastforce
  have p1: "pend t (world st1)" by (rule pend_on_world [OF s1 randoms assms(3)])
  have p2: "pend t (world st2)" by (rule pend_on_world [OF s2 _ p1]) (use schedule in blast)
  have "pend t (world st3)" by (rule other_ack [OF s3 _ p2]) (use assms(2) in \<open>simp add: msg_attempt\<close>)
  then have "pend t (world (metric_st d m (st3\<lparr>totalRetried := n\<rparr>)))" for m n by (intro pend_metric) simp
  moreover have "pend t (world (clearLockAndNack d ?t k e2 st2))" for e2 by (rule clearLockAndNack_pend [OF p2])
  ultimately show ?thesis using assms(1) s1 s2 s3 by (cases sr) (auto simp: schedule_retry_def Let_def)
qed

lemma failed_delivery_other:
  assumes "failed_delivery d task k er dur st = ((oc, task'), st')" and "msg t \<noteq> msg task" and "pend t (world st)"
  shows "pend t (world st')"
  using assms unfolding failed_delivery_def Let_def
  by (auto simp: msg_failed split: prod.splits if_splits elim!: dead_letter_other schedule_retry_other)

lemma process_body_other:
  assumes "process_body d cfg task st = ((oc, task'), st')" and "msg t \<noteq> msg task" and "pend t (world st)"
  shows "pend t (world st')"
proof -
  let ?k = "attemptKey (ID task) (Attempt task)"
  obtain g st1 where g: "idempotency_gate d cfg task ?k st = (g, st1)" by fastforce
  obtain b st2 where s2: "on_world (clock d) st1 = (b, st2)" by fastforce
  obtain res st3 where s3: "on_world (port_Send (sender d) task) st2 = (res, st3)" by fastforce
  obtain fin st4 where s4: "on_world (clock d) st3 = (fin, st4)" by fastforce
  have p1: "pend t (world st1)" by (rule gate_other [OF g assms(2,3)])
  have p2: "pend t (world st2)" by (rule pend_on_world [OF s2 clocks p1])
  have p3: "pend t (world st3)" using s3 send p2 by (auto simp: on_world_def split: prod.splits)
  have p4: "pend t (world st4)" by (rule pend_on_world [OF s4 clocks p3])
  show ?thesis
  proof (cases g)
    case (Some oc2)
    then show ?thesis using assms(1) g p1 by (simp add: process_body_def)
  next
    case None
    show ?thesis
    proof (cases res)
      case (Panicked m)
      then show ?thesis using assms(1) g None s2 s3 p3 by (simp add: process_body_def)
    next
      case (Returned er)
      then show ?thesis using assms g None s2 s3 s4 p4
        by (cases er) (auto simp: process_body_def Let_def delivered_other elim!: failed_delivery_other)
    qed
  qed
qed

text \<open>The body of a worker with its recovery, and the whole of \<open>processTask\<close>.\<close>

lemma worker_body_handoff:
  assumes "process_body d cfg task st = (res, st1)" and "recover_panic d res st1 = (res2, st2)" and "pend t (world st)"
  shows "pend t (world st2) \<or> (msg t = msg task \<and> safe (accepted (world st)) task (world st2))"
proof -
  obtain oc task' where res: "res = (oc, task')" by fastforce
  note R = recover_panic_spec [OF assms(2), of t]
  have "pend t (world st1) \<or> (safe (accepted (world st)) task (world st1) \<and> (\<forall>m. oc \<noteq> Panic m))"
    using process_body_spec [OF assms(1) [unfolded res] assms(3)] .
  moreover have "msg t \<noteq> msg task \<Longrightarrow> pend t (world st1)" using process_body_other [OF assms(1) [unfolded res] _ assms(3)] .
  ultimately show ?thesis using R res by auto
qed

lemma processTask_message:
  assumes "processTask d cfg task st = (res, st')" and "pend t (world st)"
  shows "pend t (world st') \<or> (msg t = msg task \<and> safe (accepted (world st)) task (world st'))"
proof -
  obtain oc task' where res: "res = (oc, task')" by fastforce
  obtain oc2 task2 st2 st3 where b: "process_body d cfg task (st\<lparr>activeWorkers := activeWorkers st + 1\<rparr>) = ((oc2, task2), st2)"
    and r: "recover_panic d (oc2, task2) st2 = ((oc, task'), st3)" and st': "st' = release_slot d cfg st3"
    using processTask_unfold [OF assms(1) [unfolded res]] .
  have w: "world st' = world (metric_st d (RecordWorkerStats (Stats cfg
      (st3\<lparr>sem := sem st3 - 1, activeWorkers := activeWorkers st3 - 1\<rparr>))) st3)"
    by (simp add: st' release_slot_def Let_def metric_st_def)
  have "pend t (world st3) \<or> (msg t = msg task \<and> safe (accepted (world st)) task (world st3))"
    using worker_body_handoff [OF b r, of t] assms(2) by simp
  then show ?thesis unfolding w using pend_metric safe_metric by blast
qed

end

subsection \<open>The Redis adapters keep the laws\<close>

text \<open>The stream and the message ID a task was stamped with.\<close>

definition message_of :: "EmailTask \<Rightarrow> string \<times> string" where
  "message_of t = (metadata_get t metaStreamKey, metadata_get t metaStreamID)"

lemma message_of_upd [simp]:
  "message_of (t\<lparr>LastError := a, Status := b\<rparr>) = message_of t" "message_of (t\<lparr>Attempt := n\<rparr>) = message_of t"
  by (simp_all add: message_of_def metadata_get_def)

definition completed_in :: "string \<Rightarrow> keyspace \<Rightarrow> bool" where
  "completed_in k ksp \<longleftrightarrow>
     (\<exists>v ttl rec. strs ksp (idempotencyKey k) = Some (v, ttl) \<and> json_Unmarshal_idem v = Inr rec \<and>
        RecStatus rec = ''completed'')"

locale redis_system = redis_env e ks
  for e :: "'s env" and ks :: "'s \<Rightarrow> keyspace" +
  fixes cfg :: Config and scr :: ScriptRegistry and snd' :: "'s EmailSender"
    and mail :: "EmailTask \<Rightarrow> 'm" and accepted :: "'s \<Rightarrow> 'm list"
  assumes ttl: "ttl_ok cfg"
    and send_law: "port_Send snd' t w = (so, w') \<Longrightarrow> ks w' = ks w \<and>
      accepted w' = (if so = Returned None then accepted w @ [mail t] else accepted w)"
    and acc_client: "env_client e c w = (r, w') \<Longrightarrow> accepted w' = accepted w"
    and acc_metric: "accepted (record_metric e m w) = accepted w"
    and acc_now: "time_now e w = (now, w') \<Longrightarrow> accepted w' = accepted w"
    and acc_rand: "rand_float e w = (x, w') \<Longrightarrow> accepted w' = accepted w"


sublocale redis_system \<subseteq> silent: quiet_env e accepted
  by unfold_locales (auto dest: acc_client acc_now acc_rand simp: acc_metric)

context redis_system begin

lemma pending_strs: "same_but_str key k k' \<Longrightarrow> pending cfg t k' = pending cfg t k"
  by (auto simp: same_but_str_def pending_def pel_of_def)

lemma pend_SetProcessing: "SetProcessing e cfg scr k i w = (r, w') \<Longrightarrow> pel_keeps (ks w) (ks w')"
proof -
  assume r: "SetProcessing e cfg scr k i w = (r, w')"
  obtain now w1 where n: "time_now e w = (now, w1)" by fastforce
  obtain x w2 where c: "env_client e (acquire_cmd scr cfg k i now) w1 = (x, w2)" by fastforce
  have "pel_keeps (ks w1) (ks w2)" by (rule client_pel_keeps [OF c]) (simp add: acquire_cmd_def)
  moreover have "w' = w2" using r n c
    by (auto simp: SetProcessing_def acquire_cmd_def Let_def split: sum.splits if_splits)
  ultimately show ?thesis using now_ks [OF n] by simp
qed

lemma pend_TryReclaimStale: "TryReclaimStale e cfg scr k i a w = (r, w') \<Longrightarrow> pel_keeps (ks w) (ks w')"
proof -
  assume r: "TryReclaimStale e cfg scr k i a w = (r, w')"
  obtain now w1 where n: "time_now e w = (now, w1)" by fastforce
  obtain x w2 where c: "env_client e (reclaim_cmd scr cfg k i a now) w1 = (x, w2)" by fastforce
  have "pel_keeps (ks w1) (ks w2)" by (rule client_pel_keeps [OF c]) (simp add: reclaim_cmd_def)
  moreover have "w' = w2" using r n c
    by (auto simp: TryReclaimStale_def reclaim_cmd_def max_age_secs_def Let_def split: sum.splits if_splits)
  ultimately show ?thesis using now_ks [OF n] by simp
qed

lemma pend_ScheduleRetry: "ScheduleRetry e t delay w = (r, w') \<Longrightarrow> pel_of (ks w') = pel_of (ks w)"
  using ScheduleRetry_spec [of t delay w r w'] by (auto simp: upd_zset_def intro: pel_of_streams)

lemma pend_SendToDLQ: "SendToDLQ e cfg (Some x) w = (r, w') \<Longrightarrow> pel_of (ks w') = pel_of (ks w)"
proof (cases "Task x")
  case None
  assume "SendToDLQ e cfg (Some x) w = (r, w')"
  with None show ?thesis by (simp add: SendToDLQ_def)
next
  case (Some t)
  assume "SendToDLQ e cfg (Some x) w = (r, w')"
  from SendToDLQ_spec [OF this Some ttl] show ?thesis
    by (auto simp: dlq_cmd_rel_def list_frame_def intro: pel_of_streams)
qed

lemma Acknowledge_other:
  assumes "Acknowledge e cfg t w = (r, w')" and "message_of t' \<noteq> message_of t" and "pending cfg t' (ks w)"
  shows "pending cfg t' (ks w')"
  using Acknowledge_spec [OF assms(1)] assms(2,3) by (auto simp: pending_def message_of_def pel_of_upd_pel)

lemma SetCompleted_pending:
  "SetCompleted e cfg k w = (r, w') \<Longrightarrow> pending cfg t' (ks w) \<Longrightarrow> pending cfg t' (ks w')"
  using SetCompleted_spec [of cfg k w r w'] pending_strs by blast

lemma Acknowledge_stored:
  assumes "Acknowledge e cfg t w = (r, w')"
  shows "zsets (ks w') = zsets (ks w)" "lists (ks w') = lists (ks w)" "strs (ks w') = strs (ks w)"
  using Acknowledge_spec [OF assms] by (auto simp: upd_stream_def)

end

sublocale redis_system \<subseteq> ports: message_ports "redis_deps e cfg scr snd'" mail accepted
  "\<lambda>t w. pending cfg t (ks w)" "\<lambda>t w. retry_stored t (ks w)" "\<lambda>x w. dlq_stored x (ks w)"
  "\<lambda>k w. completed_in k (ks w)" message_of
proof unfold_locales
  fix t w r w' assume "port_Acknowledge (consumer (redis_deps e cfg scr snd')) t w = (r, w')"
  then have "Acknowledge e cfg t w = (r, w')" by (simp add: port_defs)
  then show "keeps_stored accepted (\<lambda>t w. retry_stored t (ks w)) (\<lambda>x w. dlq_stored x (ks w))
      (\<lambda>k w. completed_in k (ks w)) w w'"
    using Acknowledge_stored silent.acc_Acknowledge
    by (auto simp: keeps_stored_def retry_stored_def dlq_stored_def completed_in_def)
next
  fix t w r w' t' assume "port_Acknowledge (consumer (redis_deps e cfg scr snd')) t w = (r, w')" "message_of t' \<noteq> message_of t"
    "pending cfg t' (ks w)"
  then show "pending cfg t' (ks w')" using Acknowledge_other [of t w r w' t'] by (simp add: port_defs)
next
  fix k w r w' t' assume "port_SetCompleted (idempotency (redis_deps e cfg scr snd')) k w = (r, w')" "pending cfg t' (ks w)"
  then show "pending cfg t' (ks w')" using SetCompleted_pending [of k w r w' t'] by (simp add: port_defs)
next
  fix k w b ce w' assume "port_IsCompleted (idempotency (redis_deps e cfg scr snd')) k w = ((b, ce), w')"
  then have i: "IsCompleted e k w = ((b, ce), w')" by (simp add: port_defs)
  then show "keeps_pend accepted (\<lambda>t w. pending cfg t (ks w)) w w' \<and> (b \<longrightarrow> completed_in k (ks w'))"
    using IsCompleted_spec [OF i] silent.acc_IsCompleted [OF i]
    by (auto simp: keeps_pend_def completed_in_def split: option.splits)
next
  fix t delay w r w'
  assume "port_ScheduleRetry (retryScheduler (redis_deps e cfg scr snd')) t delay w = (r, w')"
  then have i: "ScheduleRetry e t delay w = (r, w')" by (simp add: port_defs)
  then show "keeps_pend accepted (\<lambda>t w. pending cfg t (ks w)) w w' \<and> (r = None \<longrightarrow> retry_stored t (ks w'))"
    using pend_ScheduleRetry ScheduleRetry_stored silent.acc_ScheduleRetry by (auto simp: keeps_pend_def pending_def)
next
  fix x w r w'
  assume "port_SendToDLQ (dlqWriter (redis_deps e cfg scr snd')) (Some x) w = (r, w')"
  then have i: "SendToDLQ e cfg (Some x) w = (r, w')" by (simp add: port_defs)
  then show "keeps_pend accepted (\<lambda>t w. pending cfg t (ks w)) w w' \<and> (r = None \<longrightarrow> dlq_stored x (ks w'))"
    using pend_SendToDLQ SendToDLQ_stored ttl silent.acc_SendToDLQ by (auto simp: keeps_pend_def pending_def)
next
  fix k w r w' assume "port_ClearProcessing (idempotency (redis_deps e cfg scr snd')) k w = (r, w')"
  then have i: "ClearProcessing e k w = (r, w')" by (simp add: port_defs)
  then show "keeps_pend accepted (\<lambda>t w. pending cfg t (ks w)) w w'"
    using ClearProcessing_spec [OF i] pending_strs silent.acc_ClearProcessing by (auto simp: keeps_pend_def)
qed (auto simp: port_defs keeps_pend_def keeps_stored_def Nack_def acc_metric
    dest: send_law silent.acc_SetProcessing silent.acc_TryReclaimStale silent.acc_SetCompleted acc_now acc_rand now_ks rand_ks
    intro: pending_keeps [OF _ pend_SetProcessing] pending_keeps [OF _ pend_TryReclaimStale])

context redis_system begin

lemmas worker_never_loses = ports.processTask_message [unfolded ports.safe_def]
lemmas body_never_loses = ports.worker_body_handoff [unfolded ports.safe_def]
lemmas worker_sends_once = ports.processTask_log

end

subsection \<open>An in-memory system with a scripted provider\<close>

record mem_sys = mem_chan +
  mem_accepted :: "EmailTask list"
  mem_results :: "send_outcome list"

definition mem_sender :: "'a mem_sys_scheme EmailSender" where
  "mem_sender =
     \<lparr>port_Send = (\<lambda>t s.
        let (r, rs) = (case mem_results s of [] \<Rightarrow> (Returned None, []) | r # rs \<Rightarrow> (r, rs))
        in (r, s\<lparr>mem_accepted := (if r = Returned None then mem_accepted s @ [t] else mem_accepted s), mem_results := rs\<rparr>)),
      port_SendBatch = (\<lambda>ts s. (Returned None, s)), port_HealthCheck = (\<lambda>s. (None, s))\<rparr>"

interpretation mem_system: redis_system "mem_env resend" mem_ks sample_config scr mem_sender id mem_accepted for resend scr
  by unfold_locales
    (auto simp: sample_ttl_ok mem_sender_def mem_client_def Let_def split: list.splits prod.splits if_splits)

definition sys_world :: "keyspace \<Rightarrow> send_outcome list \<Rightarrow> fault list \<Rightarrow> mem_sys" where
  "sys_world k rs fs =
     \<lparr>mem_ks = k\<lparr>scripts := [''sha-idem'' \<mapsto> IdempotencyLua, ''sha-reclaim'' \<mapsto> ReclaimStaleLua]\<rparr>,
      mem_faults = fs, mem_clock = 1700000100000000000, mem_metrics = [], mem_ctx = None, mem_rand = Fin 0,
      mem_sent = [], mem_cap = 4, mem_accepted = [], mem_results = rs\<rparr>"

lemma sys_world_sels [simp]:
  "mem_accepted (sys_world k rs fs) = []"
  "mem_ks (sys_world k rs fs) = k\<lparr>scripts := [''sha-idem'' \<mapsto> IdempotencyLua, ''sha-reclaim'' \<mapsto> ReclaimStaleLua]\<rparr>"
  by (simp_all add: sys_world_def)

lemma pending_scripts [simp]: "pending cfg t (k\<lparr>scripts := x\<rparr>) = pending cfg t k"
  by (simp add: pending_def pel_of_def)

subsection \<open>Properties\<close>

text \<open>C1: No task is lost by a worker: when \<open>processTask\<close> returns, whatever requests or replies got lost, were
  repeated or failed, and whatever the provider did, a panic included, every message that was
  pending still is, but for the message of this task, and that only if the provider has accepted the email, or the attempt is marked
  completed, or the task is in the retry set with its counter increased, or it is
  in a dead-letter list with the final error.\<close>

theorem processTask_never_loses:
  assumes "redis_system e ks cfg snd' mail accepted"
    and "processTask (redis_deps e cfg scr snd') cfg task st = (res, st')"
    and "pending cfg t (ks (world st))"
  shows "pending cfg t (ks (world st')) \<or> (message_of t = message_of task \<and>
   (accepted (world st') = accepted (world st) @ [mail task] \<or>
    completed_in (attemptKey (ID task) (Attempt task)) (ks (world st')) \<or>
    (\<exists>er. IsRetryable task \<and> retry_stored (task\<lparr>LastError := Error er, Status := StatusFailed,
        Attempt := Attempt task + 1\<rparr>) (ks (world st'))) \<or>
    (\<exists>x er. dlq_stored x (ks (world st')) \<and>
        Task x = Some (task\<lparr>LastError := Error er, Status := StatusFailed\<rparr>) \<and> FinalError x = Error er)))"
  using redis_system.worker_never_loses [OF assms] .

text \<open>One delivery per call: under the same faults, \<open>processTask\<close> makes the provider accept the email at most
  once, and it does so exactly when the outcome is a delivery.\<close>

theorem processTask_sends_once:
  assumes "redis_system e ks cfg snd' mail accepted"
    and "processTask (redis_deps e cfg scr snd') cfg task st = ((oc, task'), st')"
  shows "accepted (world st') = (if oc = Sent then accepted (world st) @ [mail task] else accepted (world st))"
  using redis_system.worker_sends_once [OF assms] .

subsection \<open>Witnesses\<close>

definition sample_run :: "send_outcome list \<Rightarrow> fault list \<Rightarrow> (outcome \<times> EmailTask) \<times> mem_sys Supervisor" where
  "sample_run rs fs =
     processTask (redis_deps (mem_env True) sample_config sample_scripts mem_sender) sample_config stamped_task
       (idle_supervisor (sys_world pending_ks rs fs))"

lemma sample_run_pending: "pending sample_config stamped_task (mem_ks (world (idle_supervisor (sys_world pending_ks rs fs))))"
  using stamped_task_pending by (simp add: idle_supervisor_def)

text \<open>The provider is busy and the reply to the retry write is lost.\<close>

theorem processTask_never_loses_witness:
  "let w = world (snd (sample_run [Returned (Some (ENew ''busy''))] [NoFault, LostReply])) in
    pending sample_config stamped_task (mem_ks w) \<or> mem_accepted w = [stamped_task] \<or>
    completed_in (attemptKey (ID stamped_task) (Attempt stamped_task)) (mem_ks w) \<or>
    (\<exists>er. retry_stored (stamped_task\<lparr>LastError := Error er, Status := StatusFailed,
        Attempt := Attempt stamped_task + 1\<rparr>) (mem_ks w)) \<or>
    (\<exists>x. dlq_stored x (mem_ks w))"
proof -
  let ?rs = "[Returned (Some (ENew ''busy''))]" and ?fs = "[NoFault, LostReply]"
  obtain res st' where r: "sample_run ?rs ?fs = (res, st')" by fastforce
  show ?thesis
    using processTask_never_loses [OF mem_system.redis_system_axioms r [unfolded sample_run_def] sample_run_pending]
    by (auto simp: r Let_def idle_supervisor_def)
qed

theorem processTask_sends_once_witness:
  "length (mem_accepted (world (snd (sample_run [Panicked ''boom''] [LostReply])))) \<le> 1"
proof -
  obtain oc task' st' where r: "sample_run [Panicked ''boom''] [LostReply] = ((oc, task'), st')"
    by (metis prod.exhaust)
  show ?thesis
    using processTask_sends_once [OF mem_system.redis_system_axioms r [unfolded sample_run_def]]
    by (simp add: r idle_supervisor_def)
qed

end
