(* ===== verification/Dedup.thy ===== *)
theory Dedup
  imports Handoff
begin

text \<open>
  What the idempotency gate of \<open>processTask\<close> guarantees with the Redis store behind it: a worker
  reaches the provider only while it holds the lock of the attempt, a completed attempt is never
  sent again, and a lock that is not stale keeps every other worker out.
\<close>

abbreviation lock_at :: "string \<Rightarrow> keyspace \<Rightarrow> lock" where
  "lock_at k ksp \<equiv> lock_of (strs ksp) (idempotencyKey k)"

context redis_env begin

lemma IsCompleted_frame: "IsCompleted e k s = (r, s') \<Longrightarrow> ks s' = ks s"
  using IsCompleted_spec [of k s "fst r" "snd r" s'] by simp

lemma Acknowledge_frame: "Acknowledge e cfg t s = (r, s') \<Longrightarrow> strs (ks s') = strs (ks s)"
  using Acknowledge_spec [of cfg t s r s'] by (auto simp: upd_stream_def)

text \<open>The gate on the abstract lock.\<close>

lemma gate_lock:
  assumes "scripts_loaded scr (ks (world st))" and "lock_at k (ks (world st)) \<noteq> Foreign"
    and "0 < sint (DLQTTLSeconds (CfgRetry cfg))"
    and "idempotency_gate (redis_deps e cfg scr snd') cfg task k st = (g, st')"
  shows "(g = None \<longrightarrow> (\<exists>now. lock_at k (ks (world st')) = Held (ConsumerName (CfgWorker cfg)) now \<and>
      (lock_at k (ks (world st)) = Free \<or>
       (\<exists>w0 t0. lock_at k (ks (world st)) = Held w0 t0 \<and>
          max_age_secs (ClaimIdleThreshold (CfgWorker cfg)) \<le> now - t0)))) \<and>
    (g \<noteq> None \<and> lock_at k (ks (world st)) = Done \<longrightarrow> lock_at k (ks (world st')) = Done)"
proof -
  let ?me = "ConsumerName (CfgWorker cfg)" and ?age = "ClaimIdleThreshold (CfgWorker cfg)"
  obtain a er w1 where p: "SetProcessing e cfg scr k ?me (world st) = ((a, er), w1)" by (metis prod.exhaust)
  from SetProcessing_spec [OF assms(1-3) p] obtain n1 where
    sb1: "same_but_str (idempotencyKey k) (ks (world st)) (ks w1)" and
    l1: "lock_at k (ks w1) \<in> {lock_at k (ks (world st)), snd (lock_acquire ?me n1 (lock_at k (ks (world st))))}" and
    a1: "a \<longrightarrow> lock_at k (ks (world st)) = Free \<and> lock_at k (ks w1) = Held ?me n1"
    by blast
  show ?thesis
  proof (cases a)
    case True
    then have "g = None" "world st' = w1"
      using assms(4) p by (auto simp: idempotency_gate_def port_defs on_world_def)
    then show ?thesis using a1 True by auto
  next
    case na: False
    obtain c er2 w2 where q: "IsCompleted e k w1 = ((c, er2), w2)" by (metis prod.exhaust)
    have k2: "ks w2 = ks w1" using IsCompleted_frame [OF q] .
    show ?thesis
    proof (cases c)
      case True
      obtain r w3 where "Acknowledge e cfg task w2 = (r, w3)" by fastforce
      then have "g \<noteq> None" "strs (ks (world st')) = strs (ks w2)"
        using assms(4) p q na True Acknowledge_frame metric_ks
        by (auto simp: idempotency_gate_def port_defs on_world_def
            metric_st_def)
      then show ?thesis using k2 l1 by (auto simp: lock_acquire_def)
    next
      case nc: False
      obtain b er3 w3 where t: "TryReclaimStale e cfg scr k ?me ?age w2 = ((b, er3), w3)" by (metis prod.exhaust)
      have "scripts_loaded scr (ks w2)" using assms(1) k2 same_but_str_scripts [OF sb1] by (simp add: scripts_loaded_def)
      moreover have "lock_at k (ks w2) \<noteq> Foreign"
        using l1 assms(2) k2 by (auto simp: lock_acquire_def split: if_splits)
      ultimately obtain n3 where
        l3: "lock_at k (ks w3) \<in> {lock_at k (ks w2), snd (lock_reclaim ?me n3 (max_age_secs ?age) (lock_at k (ks w2)))}"
        and b3: "b \<longrightarrow> (\<exists>w0 t0. lock_at k (ks w2) = Held w0 t0 \<and> max_age_secs ?age \<le> n3 - t0) \<and>
            lock_at k (ks w3) = Held ?me n3"
        using TryReclaimStale_spec [OF _ _ assms(3) t] by blast
      have "g = None \<longleftrightarrow> b" "ks (world st') = ks w3"
        using assms(4) p q t na nc
        by (auto simp: idempotency_gate_def port_defs on_world_def
            Nack_def split: prod.splits if_splits)
      then show ?thesis using l1 l3 b3 k2 by (auto simp: lock_acquire_def lock_reclaim_def split: if_splits)
    qed
  qed
qed

end

context redis_system begin

lemma completed_not_sent:
  assumes "scripts_loaded scr (ks (world st))" and "lock_at (attemptKey (ID task) (Attempt task)) (ks (world st)) = Done"
    and "processTask (redis_deps e cfg scr snd') cfg task st = ((oc, task'), st')"
  shows "oc \<in> {Deduped, LockHeld} \<and> accepted (world st') = accepted (world st)"
proof -
  let ?k = "attemptKey (ID task) (Attempt task)" and ?st = "st\<lparr>activeWorkers := activeWorkers st + 1\<rparr>"
  obtain oc2 task2 st2 st3 where b: "process_body (redis_deps e cfg scr snd') cfg task ?st = ((oc2, task2), st2)"
    and r: "recover_panic (redis_deps e cfg scr snd') (oc2, task2) st2 = ((oc, task'), st3)"
    using processTask_unfold [OF assms(3)] .
  obtain g st1 where g: "idempotency_gate (redis_deps e cfg scr snd') cfg task ?k ?st = (g, st1)" by fastforce
  have "0 < sint (DLQTTLSeconds (CfgRetry cfg))" using ttl by (simp add: ttl_ok_def)
  then have "g \<noteq> None" using gate_lock [OF _ _ _ g] assms by fastforce
  then have "oc2 \<in> {Deduped, LockHeld}" using b g counters_gate [OF g] by (auto simp: process_body_def)
  then have oc: "oc \<in> {Deduped, LockHeld}" using recover_panic_cases [OF r] by auto
  then show ?thesis using worker_sends_once [OF assms(3)] by auto
qed

end

subsection \<open>Properties\<close>

text \<open>The gate admits one worker at a time: whatever requests or replies get lost, when the gate lets a task
  through to the provider the lock of the attempt is held by this worker, and before the call it was
  free or somebody had held it for at least the idle threshold. A completed attempt is
  turned away and stays completed.\<close>

theorem gate_admits_holder:
  assumes "redis_env e ks" and "scripts_loaded scr (ks (world st))" and "lock_at k (ks (world st)) \<noteq> Foreign"
    and "0 < sint (DLQTTLSeconds (CfgRetry cfg))"
    and "idempotency_gate (redis_deps e cfg scr snd') cfg task k st = (g, st')"
  shows "(g = None \<longrightarrow> (\<exists>now. lock_at k (ks (world st')) = Held (ConsumerName (CfgWorker cfg)) now \<and>
      (lock_at k (ks (world st)) = Free \<or>
       (\<exists>w0 t0. lock_at k (ks (world st)) = Held w0 t0 \<and>
          max_age_secs (ClaimIdleThreshold (CfgWorker cfg)) \<le> now - t0)))) \<and>
    (lock_at k (ks (world st)) = Done \<longrightarrow> g \<noteq> None \<and> lock_at k (ks (world st')) = Done)"
  using redis_env.gate_lock [OF assms] by auto

text \<open>C6: No second email for a completed attempt: once an attempt is marked completed, \<open>processTask\<close> never makes
  the provider accept it again, under any pattern of lost, failed or repeated Redis commands; the call ends
  as a duplicate or leaves the message for later.\<close>

theorem completed_attempt_never_resent:
  assumes "redis_system e ks cfg snd' mail accepted" and "scripts_loaded scr (ks (world st))"
    and "lock_at (attemptKey (ID task) (Attempt task)) (ks (world st)) = Done"
    and "processTask (redis_deps e cfg scr snd') cfg task st = ((oc, task'), st')"
  shows "oc \<in> {Deduped, LockHeld} \<and> accepted (world st') = accepted (world st)"
  using redis_system.completed_not_sent [OF assms] .

subsection \<open>Witnesses\<close>

theorem gate_admits_holder_witness:
  "\<exists>now. lock_at ''t#0'' (mem_ks (world (snd (idempotency_gate (redis_deps (mem_env True) sample_config sample_scripts mem_sender)
      sample_config stamped_task ''t#0'' (idle_supervisor (sys_world pending_ks [] [])))))) = Held ''pod-1:7'' now"
proof -
  let ?st = "idle_supervisor (sys_world pending_ks [] [])"
  obtain g st' where r: "idempotency_gate (redis_deps (mem_env True) sample_config sample_scripts mem_sender)
      sample_config stamped_task ''t#0'' ?st = (g, st')" by fastforce
  have s: "scripts_loaded sample_scripts (mem_ks (world ?st))"
    by (simp add: scripts_loaded_def sample_scripts_def idle_supervisor_def)
  have f: "lock_at ''t#0'' (mem_ks (world ?st)) \<noteq> Foreign"
    by (simp add: idle_supervisor_def pending_ks_def lock_of_def)
  have "g = None" using r
    by (auto simp: idempotency_gate_def port_defs on_world_def idle_supervisor_def
        SetProcessing_def mem_eval sample_scripts_def sys_world_def pending_ks_def
        idempotencyLuaScript_def lua_set_ex_def reply_int_def sample_world_def empty_ks_def Let_def)
  with gate_admits_holder [OF mem_env.redis_env_axioms s f _ r] r show ?thesis by auto
qed

text \<open>The check for completion fails with a lost reply; still nothing is sent.\<close>

theorem completed_attempt_never_resent_witness:
  "mem_accepted (world (snd (processTask (redis_deps (mem_env True) sample_config sample_scripts mem_sender) sample_config
     stamped_task (idle_supervisor (sys_world (pending_ks\<lparr>strs :=
       [''idempotency:task-1#0'' \<mapsto> (Doc (idem_json (completed_record 0)), None)]\<rparr>) [] [NoFault, LostReply]))))) = []"
proof -
  let ?st = "idle_supervisor (sys_world (pending_ks\<lparr>strs :=
       [''idempotency:task-1#0'' \<mapsto> (Doc (idem_json (completed_record 0)), None)]\<rparr>) [] [NoFault, LostReply])"
  obtain oc task' st' where r: "processTask (redis_deps (mem_env True) sample_config sample_scripts mem_sender) sample_config
      stamped_task ?st = ((oc, task'), st')" by (metis prod.exhaust)
  have s: "scripts_loaded sample_scripts (mem_ks (world ?st))"
    by (simp add: scripts_loaded_def sample_scripts_def idle_supervisor_def)
  have "attemptKey (ID stamped_task) (Attempt stamped_task) = ''task-1#0''"
    by (simp add: attemptKey_def stamped_task_def metadata_set_def sample_task_def) (simp add: show_int_def show_nat.simps digit_char_def)
  then have f: "lock_at (attemptKey (ID stamped_task) (Attempt stamped_task)) (mem_ks (world ?st)) = Done"
    by (simp add: idle_supervisor_def lock_of_def lock_of_completed completed_record_def
        idempotencyKey_def idempotencyKeyPrefix_def)
  show ?thesis using completed_attempt_never_resent [OF mem_system.redis_system_axioms s f r] r
    by (simp add: idle_supervisor_def)
qed

end
