(* ===== verification/Delivery.thy ===== *)
theory Delivery
  imports Email Dedup
begin

text \<open>
  The worker with the Redis adapters and the SendGrid sender together: the laws the worker's proofs
  ask of a sender hold for \<open>SendGridSender\<close>, so what \<open>Handoff\<close> and \<open>Dedup\<close> show holds for it.
\<close>

definition sendgrid_mail :: "SendGridSender \<Rightarrow> EmailTask \<Rightarrow> http_request" where
  "sendgrid_mail s t = mail_request s (case buildRequestBody s t of Inl _ \<Rightarrow> [] | Inr body \<Rightarrow> body)"

locale sendgrid_system = redis_env e ks + http_provider e h requests confirmed
  for e :: "'s env" and ks :: "'s \<Rightarrow> keyspace" and h :: "'s http_env"
    and requests :: "'s \<Rightarrow> http_request list" and confirmed :: "'s \<Rightarrow> http_request list" +
  fixes cfg :: Config and scr :: ScriptRegistry and s :: SendGridSender
  assumes ttl: "ttl_ok cfg"
    and http_ks: "http_do h r w = (x, w') \<Longrightarrow> ks w' = ks w"
    and cell_ks: "ks (set_breaker h b w) = ks w"
    and client_mail: "env_client e c w = (y, w') \<Longrightarrow> confirmed w' = confirmed w"
    and metric_mail: "confirmed (record_metric e m w) = confirmed w"
    and rand_mail: "rand_float e w = (f, w') \<Longrightarrow> confirmed w' = confirmed w"
begin

lemma RecordFailure_ks: "ks (breaker_RecordFailure e h w) = ks w"
  by (auto simp: breaker_RecordFailure_def cell_ks dest: now_ks split: prod.splits)

lemma RecordSuccess_ks: "ks (breaker_RecordSuccess h w) = ks w"
  by (simp add: breaker_RecordSuccess_def cell_ks)

lemma Send_ks: "Send e h s t w = (res, w') \<Longrightarrow> ks w' = ks w"
  by (auto simp: Send_def Send_response_def breaker_Allow_def Let_def RecordFailure_ks RecordSuccess_ks
      split: prod.splits option.splits sum.splits if_splits dest!: now_ks ctx_ks http_ks)

lemma Send_mail:
  assumes "Send e h s t w = (res, w')"
  shows "confirmed w' = (if res = None then confirmed w @ [sendgrid_mail s t] else confirmed w)"
proof -
  obtain now w1 where n: "time_now e w = (now, w1)" by fastforce
  from Send_spec [OF assms n] show ?thesis by (cases res) (auto simp: sendgrid_mail_def)
qed

lemma Send_body:
  assumes "Send e h s t w = (None, w')"
  shows "\<exists>body. buildRequestBody s t = Inr body"
proof -
  obtain now w1 where n: "time_now e w = (now, w1)" by fastforce
  from Send_spec [OF assms n] show ?thesis by blast
qed

end

sublocale sendgrid_system \<subseteq> worker: redis_system e ks cfg scr "SendGridEmailSender e h s" "sendgrid_mail s" confirmed
  by unfold_locales
    (auto simp: ttl SendGridEmailSender_def returned_def metric_mail
      Send_ks [OF prod.collapse [symmetric]] Send_mail [OF prod.collapse [symmetric]]
      dest: client_mail rand_mail now_mail)

context sendgrid_system begin

lemmas delivery = worker.worker_sends_once

lemmas worker_system = worker.redis_system_axioms

end

subsection \<open>The system in memory\<close>

interpretation mem_sendgrid: sendgrid_system "worker_env resend" mem_ks mem_http_env mem_requests mem_confirmed
    sample_config scr s for resend scr s
  by unfold_locales
    (auto simp: sample_ttl_ok mem_http_env_def mem_do_def mem_client_def Let_def
      split: list.splits option.splits prod.splits if_splits)

lemma sendgrid_in_memory: "ttl_ok c \<Longrightarrow> sendgrid_system (worker_env resend) mem_ks mem_http_env mem_requests mem_confirmed c"
  using mem_sendgrid.sendgrid_system_axioms by (simp add: sendgrid_system_def sendgrid_system_axioms_def)

subsection \<open>Properties\<close>

text \<open>C14: From the queue to the provider: with the Redis adapters and SendGrid, under any faults of either, the requests the
  provider confirms during one call of \<open>processTask\<close> are none, or exactly the one request that carries
  this task's recipient, template and data; and there is one exactly when the outcome is a delivery.\<close>

theorem SendGrid_delivery:
  assumes "sendgrid_system e ks h requests confirmed cfg"
    and "processTask (redis_deps e cfg scr (SendGridEmailSender e h s)) cfg task st = ((oc, task'), st')"
  shows "confirmed (world st') =
    (if oc = Sent then confirmed (world st) @ [sendgrid_mail s task] else confirmed (world st))"
  using sendgrid_system.delivery [OF assms] .

theorem SendGrid_delivery_witness:
  "length (mem_confirmed (world (snd (processTask (redis_deps (worker_env True) sample_config sample_scripts
      (SendGridEmailSender (worker_env True) mem_http_env sample_sender)) sample_config stamped_task
      (idle_supervisor (http_world pending_ks [Some (500, ''down'')] [LostReply] (newCircuitBreaker 5 30))))))) \<le> 1"
proof -
  let ?st = "idle_supervisor (http_world pending_ks [Some (500, ''down'')] [LostReply] (newCircuitBreaker 5 30))"
  obtain oc task' st' where r: "processTask (redis_deps (worker_env True) sample_config sample_scripts
      (SendGridEmailSender (worker_env True) mem_http_env sample_sender)) sample_config stamped_task ?st = ((oc, task'), st')"
    by (metis prod.exhaust)
  show ?thesis using SendGrid_delivery [OF mem_sendgrid.sendgrid_system_axioms r] r
    by (simp add: idle_supervisor_def http_world_def)
qed

end
