(* ===== verification/Metrics.thy ===== *)
theory Metrics
  imports Handoff
begin

text \<open>
  internal/observability/metrics.go: the Prometheus recorder behind \<open>ports.MetricsRecorder\<close>. The
  client library is an argument: its operations on a registry, with their documented effect on the
  values that a scrape reads as the laws of a locale.
\<close>

subsection \<open>The library\<close>

record metric_opts =
  Name :: string
  Help :: string
  LabelNames :: "string list"
  Buckets :: "f64 list"

datatype collector = CounterVec metric_opts | HistogramVec metric_opts | GaugeVec metric_opts | Gauge metric_opts

text \<open>\<open>MustRegister\<close> panics, here \<open>None\<close>, when a collector cannot be registered.\<close>

record 'r prometheus =
  MustRegister :: "collector list \<Rightarrow> 'r \<Rightarrow> 'r option"
  prom_Inc :: "string \<Rightarrow> string list \<Rightarrow> 'r \<Rightarrow> 'r"
  prom_Observe :: "string \<Rightarrow> string list \<Rightarrow> f64 \<Rightarrow> 'r \<Rightarrow> 'r"
  prom_Set :: "string \<Rightarrow> string list \<Rightarrow> f64 \<Rightarrow> 'r \<Rightarrow> 'r"

subsection \<open>The recorder\<close>

definition enqueuedTotal :: string where "enqueuedTotal = ''email_queue_enqueued_total''"
definition processedTotal :: string where "processedTotal = ''email_queue_processed_total''"
definition processingDurationSeconds :: string where
  "processingDurationSeconds = ''email_queue_processing_duration_seconds''"
definition queueDepth :: string where "queueDepth = ''email_queue_depth''"
definition dlqDepth :: string where "dlqDepth = ''email_queue_dlq_depth''"
definition workerActive :: string where "workerActive = ''email_queue_worker_active''"
definition workerPoolSize :: string where "workerPoolSize = ''email_queue_worker_pool_size''"

lemmas series_names =
  enqueuedTotal_def processedTotal_def processingDurationSeconds_def queueDepth_def dlqDepth_def workerActive_def
  workerPoolSize_def

definition recorder_collectors :: "collector list" where
  "recorder_collectors =
     [CounterVec \<lparr>Name = enqueuedTotal,
        Help = ''Total number of tasks enqueued, partitioned by tenant, type, and priority.'',
        LabelNames = [''tenant_id'', ''task_type'', ''priority''], Buckets = []\<rparr>,
      CounterVec \<lparr>Name = processedTotal,
        Help = ''Total tasks processed, partitioned by tenant, type, and outcome (success|failed|deduped).'',
        LabelNames = [''tenant_id'', ''task_type'', ''status''], Buckets = []\<rparr>,
      HistogramVec \<lparr>Name = processingDurationSeconds,
        Help = ''End-to-end processing time from dequeue to completion.'',
        LabelNames = [''tenant_id'', ''task_type''],
        Buckets = map f64_of_rat [1 / 10, 1 / 2, 1, 5, 10, 30]\<rparr>,
      GaugeVec \<lparr>Name = queueDepth, Help = ''Current XLEN of each Redis Stream priority queue.'',
        LabelNames = [''queue_name''], Buckets = []\<rparr>,
      GaugeVec \<lparr>Name = dlqDepth, Help = ''Current LLEN of the dead-letter queue per tenant and task type.'',
        LabelNames = [''tenant_id'', ''task_type''], Buckets = []\<rparr>,
      Gauge \<lparr>Name = workerActive, Help = ''Number of worker goroutines currently processing a task.'',
        LabelNames = [], Buckets = []\<rparr>,
      Gauge \<lparr>Name = workerPoolSize,
        Help = ''Configured maximum concurrency of the worker pool (WORKER_POOL_SIZE).'',
        LabelNames = [], Buckets = []\<rparr>]"

definition NewPrometheusRecorder :: "'r prometheus \<Rightarrow> 'r \<Rightarrow> 'r option" where
  "NewPrometheusRecorder p reg = MustRegister p recorder_collectors reg"

fun PrometheusRecorder :: "'r prometheus \<Rightarrow> metric \<Rightarrow> 'r \<Rightarrow> 'r" where
  "PrometheusRecorder p (RecordEnqueued tenantID taskType priority) r =
     prom_Inc p enqueuedTotal [tenantID, taskType, priority] r"
| "PrometheusRecorder p (RecordProcessed tenantID taskType status durationSeconds) r =
     prom_Observe p processingDurationSeconds [tenantID, taskType] durationSeconds
       (prom_Inc p processedTotal [tenantID, taskType, status] r)"
| "PrometheusRecorder p (RecordQueueDepth queueName depth) r = prom_Set p queueDepth [queueName] depth r"
| "PrometheusRecorder p (RecordDLQDepth tenantID taskType depth) r = prom_Set p dlqDepth [tenantID, taskType] depth r"
| "PrometheusRecorder p (RecordWorkerStats stats) r =
     prom_Set p workerPoolSize [] (f64_of_i64 (StatPoolSize stats))
       (prom_Set p workerActive [] (f64_of_i64 (ActiveWorkers stats)) r)"

subsection \<open>Scraping\<close>

text \<open>The events of a log that a histogram and a gauge show.\<close>

definition durations :: "string \<Rightarrow> string \<Rightarrow> metric list \<Rightarrow> f64 list" where
  "durations a b ms = concat (map (\<lambda>m. case m of
     RecordProcessed x y st dur \<Rightarrow> (if x = a \<and> y = b then [dur] else []) | _ \<Rightarrow> []) ms)"

definition active_values :: "metric list \<Rightarrow> f64 list" where
  "active_values ms = concat (map (\<lambda>m. case m of
     RecordWorkerStats st \<Rightarrow> [f64_of_i64 (ActiveWorkers st)] | _ \<Rightarrow> []) ms)"

text \<open>
  What a scrape reads: the value of a counter, the observations of a histogram in order, the last value of a
  gauge. Recording on one series leaves all others alone.
\<close>

locale prometheus_laws =
  fixes p :: "'r prometheus"
    and counter_of :: "'r \<Rightarrow> string \<Rightarrow> string list \<Rightarrow> nat"
    and samples_of :: "'r \<Rightarrow> string \<Rightarrow> string list \<Rightarrow> f64 list"
    and gauge_of :: "'r \<Rightarrow> string \<Rightarrow> string list \<Rightarrow> f64 option"
  assumes counter_Inc [simp]:
      "counter_of (prom_Inc p n ls r) n' ls' = (if n' = n \<and> ls' = ls then Suc (counter_of r n' ls') else counter_of r n' ls')"
    and counter_Observe [simp]: "counter_of (prom_Observe p n ls x r) = counter_of r"
    and counter_Set [simp]: "counter_of (prom_Set p n ls x r) = counter_of r"
    and samples_Observe [simp]:
      "samples_of (prom_Observe p n ls x r) n' ls' = samples_of r n' ls' @ (if n' = n \<and> ls' = ls then [x] else [])"
    and samples_Inc [simp]: "samples_of (prom_Inc p n ls r) = samples_of r"
    and samples_Set [simp]: "samples_of (prom_Set p n ls x r) = samples_of r"
    and gauge_Set [simp]:
      "gauge_of (prom_Set p n ls x r) n' ls' = (if n' = n \<and> ls' = ls then Some x else gauge_of r n' ls')"
    and gauge_Inc [simp]: "gauge_of (prom_Inc p n ls r) = gauge_of r"
    and gauge_Observe [simp]: "gauge_of (prom_Observe p n ls x r) = gauge_of r"
begin

text \<open>The recorder refines the log of the events: every series is a function of the events recorded.\<close>

lemma recorded_processed:
  "counter_of (fold (PrometheusRecorder p) ms r) processedTotal [a, b, st] =
     counter_of r processedTotal [a, b, st] + length (filter (\<lambda>m. \<exists>dur. m = RecordProcessed a b st dur) ms)"
proof (induction ms arbitrary: r)
  case (Cons m ms)
  then show ?case by (cases m) (auto simp: series_names)
qed simp

lemma recorded_enqueued:
  "counter_of (fold (PrometheusRecorder p) ms r) enqueuedTotal [a, b, pr] =
     counter_of r enqueuedTotal [a, b, pr] + length (filter (\<lambda>m. m = RecordEnqueued a b pr) ms)"
proof (induction ms arbitrary: r)
  case (Cons m ms)
  then show ?case by (cases m) (auto simp: series_names)
qed simp

lemma recorded_durations:
  "samples_of (fold (PrometheusRecorder p) ms r) processingDurationSeconds [a, b] =
     samples_of r processingDurationSeconds [a, b] @ durations a b ms"
proof (induction ms arbitrary: r)
  case (Cons m ms)
  then show ?case by (cases m) (auto simp: durations_def)
qed (simp add: durations_def)

lemma recorded_active:
  "gauge_of (fold (PrometheusRecorder p) ms r) workerActive [] =
     (if active_values ms = [] then gauge_of r workerActive [] else Some (last (active_values ms)))"
proof (induction ms arbitrary: r)
  case (Cons m ms)
  then show ?case by (cases m) (auto simp: active_values_def series_names)
qed (simp add: active_values_def)

end

subsection \<open>A registry in memory\<close>

record mem_registry =
  reg_counters :: "string \<Rightarrow> string list \<Rightarrow> nat"
  reg_samples :: "string \<Rightarrow> string list \<Rightarrow> f64 list"
  reg_gauges :: "string \<Rightarrow> string list \<Rightarrow> f64 option"

definition empty_registry :: mem_registry where
  "empty_registry = \<lparr>reg_counters = (\<lambda>_ _. 0), reg_samples = (\<lambda>_ _. []), reg_gauges = (\<lambda>_ _. None)\<rparr>"

definition upd2 :: "'a \<Rightarrow> 'b \<Rightarrow> ('c \<Rightarrow> 'c) \<Rightarrow> ('a \<Rightarrow> 'b \<Rightarrow> 'c) \<Rightarrow> 'a \<Rightarrow> 'b \<Rightarrow> 'c" where
  "upd2 a b f m = (\<lambda>x y. if x = a \<and> y = b then f (m x y) else m x y)"

definition mem_prometheus :: "mem_registry prometheus" where
  "mem_prometheus =
     \<lparr>MustRegister = (\<lambda>cs r. Some r),
      prom_Inc = (\<lambda>n ls r. r\<lparr>reg_counters := upd2 n ls Suc (reg_counters r)\<rparr>),
      prom_Observe = (\<lambda>n ls x r. r\<lparr>reg_samples := upd2 n ls (\<lambda>xs. xs @ [x]) (reg_samples r)\<rparr>),
      prom_Set = (\<lambda>n ls x r. r\<lparr>reg_gauges := upd2 n ls (\<lambda>_. Some x) (reg_gauges r)\<rparr>)\<rparr>"

interpretation mem_prom: prometheus_laws mem_prometheus reg_counters reg_samples reg_gauges
  by unfold_locales (auto simp: mem_prometheus_def upd2_def)

subsection \<open>The worker's series\<close>

text \<open>
  \<open>series w\<close>: the values of \<open>email_queue_processed_total\<close> in the world \<open>w\<close>. The ports do not touch it, the
  recorder counts what it is told.
\<close>

fun outcome_status :: "outcome \<Rightarrow> string option" where
  "outcome_status Sent = Some ''success''"
| "outcome_status Retried = Some ''failed''"
| "outcome_status Dead = Some ''dead''"
| "outcome_status Deduped = Some ''deduped''"
| "outcome_status _ = None"

definition bump :: "string list \<Rightarrow> (string list \<Rightarrow> nat) \<Rightarrow> string list \<Rightarrow> nat" where
  "bump ls f = f(ls := Suc (f ls))"

definition counted :: "EmailTask \<Rightarrow> string option \<Rightarrow> (string list \<Rightarrow> nat) \<Rightarrow> string list \<Rightarrow> nat" where
  "counted t st f = (case st of None \<Rightarrow> f | Some x \<Rightarrow> bump [TenantID t, Type t, x] f)"

locale metered_ports = quiet_ports d series
  for d :: "'w deps" and series :: "'w \<Rightarrow> string list \<Rightarrow> nat" +
  assumes m_send: "port_Send (sender d) t w = (so, w') \<Longrightarrow> series w' = series w"
    and m_processed: "series (metrics d (RecordProcessed a b st dur) w) = bump [a, b, st] (series w)"
    and m_stats: "series (metrics d (RecordWorkerStats ws) w) = series w"
begin

lemma series_processed [simp]:
  "series (world (metric_st d (processed_metric t st dur) s)) = bump [TenantID t, Type t, st] (series (world s))"
  by (simp add: metric_st_def processed_metric_def m_processed)

lemma gate_series:
  assumes "idempotency_gate d cfg task k st = (g, st')"
  shows "g = None \<and> series (world st') = series (world st) \<or>
    (\<exists>oc. g = Some oc \<and> (oc = Deduped \<or> oc = LockHeld) \<and> series (world st') = counted task (outcome_status oc) (series (world st)))"
  using assms unfolding idempotency_gate_def Let_def
  by (auto simp: counted_def split: prod.splits if_splits dest!: quiet_world)

lemma delivered_series:
  "series (world (delivered d task k dur st)) = counted task (outcome_status Sent) (series (world st))"
  unfolding delivered_def Let_def by (auto simp: counted_def split: prod.splits dest!: quiet_world)

lemma dead_letter_series:
  "dead_letter d task k er nr dur st = (oc, st') \<Longrightarrow>
   series (world st') = counted task (outcome_status oc) (series (world st))"
  unfolding dead_letter_def Let_def
  by (auto simp: counted_def split: prod.splits option.splits dest!: quiet_world)

lemma schedule_retry_series:
  "schedule_retry d task k dur st = ((oc, task'), st') \<Longrightarrow>
   series (world st') = counted task (outcome_status oc) (series (world st))"
  unfolding schedule_retry_def Let_def
  by (auto simp: counted_def split: prod.splits option.splits dest!: quiet_world)

lemma counted_update [simp]: "counted (t\<lparr>LastError := x, Status := y\<rparr>) = counted t"
  by (auto simp: counted_def fun_eq_iff split: option.splits)

lemma failed_delivery_series:
  "failed_delivery d task k er dur st = ((oc, task'), st') \<Longrightarrow>
   series (world st') = counted task (outcome_status oc) (series (world st))"
  unfolding failed_delivery_def Let_def
  by (auto split: prod.splits if_splits dest!: dead_letter_series schedule_retry_series)

lemma process_body_series:
  assumes "process_body d cfg task st = ((oc, task'), st')"
  shows "series (world st') = counted task (outcome_status oc) (series (world st))"
proof -
  let ?k = "attemptKey (ID task) (Attempt task)"
  obtain g st1 where g: "idempotency_gate d cfg task ?k st = (g, st1)" by fastforce
  obtain b st2 where s2: "on_world (clock d) st1 = (b, st2)" by fastforce
  obtain res st3 where s3: "on_world (port_Send (sender d) task) st2 = (res, st3)" by fastforce
  obtain fin st4 where s4: "on_world (clock d) st3 = (fin, st4)" by fastforce
  have "series (world st3) = series (world st2)"
    by (rule quiet_on_world [OF s3]) (rule m_send)
  with quiet_clock [OF s2] quiet_clock [OF s4]
  have l: "series (world st3) = series (world st1)" "series (world st4) = series (world st1)" by simp_all
  show ?thesis
  proof (cases g)
    case (Some oc2)
    then show ?thesis using assms g gate_series [OF g] by (auto simp: process_body_def)
  next
    case None
    with gate_series [OF g] have "series (world st1) = series (world st)" by simp
    with l have l': "series (world st3) = series (world st)" "series (world st4) = series (world st)" by simp_all
    show ?thesis
    proof (cases res)
      case (Panicked msg)
      then show ?thesis using assms g None s2 s3 l' by (auto simp: process_body_def counted_def)
    next
      case (Returned er)
      then show ?thesis using assms g None s2 s3 s4 l'
        by (cases er) (auto simp: process_body_def Let_def delivered_series dest!: failed_delivery_series)
    qed
  qed
qed

lemma processTask_series:
  assumes "processTask d cfg task st = ((oc, task'), st')"
  shows "series (world st') = counted task (outcome_status oc) (series (world st))"
proof -
  obtain oc2 task2 st2 st3 where b: "process_body d cfg task (st\<lparr>activeWorkers := activeWorkers st + 1\<rparr>) = ((oc2, task2), st2)"
    and r: "recover_panic d (oc2, task2) st2 = ((oc, task'), st3)" and st': "st' = release_slot d cfg st3"
    using processTask_unfold [OF assms] .
  have "series (world st') = series (world st3)" by (simp add: st' release_slot_def Let_def metric_st_def m_stats)
  with process_body_series [OF b] recover_panic_quiet [OF r] show ?thesis by simp
qed

end
subsection \<open>The recorder beside the Redis adapters\<close>

text \<open>\<open>reg w\<close> is the registry in the world \<open>w\<close>.\<close>

locale prom_env = prometheus_laws p counter_of samples_of gauge_of
  for p :: "'r prometheus" and counter_of samples_of gauge_of +
  fixes e :: "'s env" and reg :: "'s \<Rightarrow> 'r" and snd' :: "'s EmailSender"
  assumes reg_metric: "reg (record_metric e m w) = PrometheusRecorder p m (reg w)"
    and reg_client: "env_client e c w = (r, w') \<Longrightarrow> reg w' = reg w"
    and reg_now: "time_now e w = (now, w') \<Longrightarrow> reg w' = reg w"
    and reg_rand: "rand_float e w = (x, w') \<Longrightarrow> reg w' = reg w"
    and reg_send: "port_Send snd' t w = (so, w') \<Longrightarrow> reg w' = reg w"

sublocale prom_env \<subseteq> metered: quiet_env e "\<lambda>w. counter_of (reg w) processedTotal"
  by unfold_locales (auto simp: reg_metric dest: reg_client reg_now reg_rand)

sublocale prom_env \<subseteq> worker: metered_ports "redis_deps e cfg scr snd'" "\<lambda>w ls. counter_of (reg w) processedTotal ls" for cfg scr
  by unfold_locales
    (auto simp: redis_deps_def reg_metric bump_def series_names fun_eq_iff dest: reg_send)

context prom_env begin

lemmas worker_series = worker.processTask_series

end

record mem_prom_sys = mem_sys +
  mem_reg :: mem_registry

definition prom_world_env :: "bool \<Rightarrow> mem_prom_sys env" where
  "prom_world_env resend =
     (mem_env resend)\<lparr>record_metric := (\<lambda>m s. s\<lparr>mem_reg := PrometheusRecorder mem_prometheus m (mem_reg s)\<rparr>)\<rparr>"

interpretation mem_metered: prom_env mem_prometheus reg_counters reg_samples reg_gauges "prom_world_env resend" mem_reg mem_sender
  for resend
  by unfold_locales
    (auto simp: prom_world_env_def mem_sender_def mem_client_def Let_def split: list.splits prod.splits if_splits)

subsection \<open>Properties\<close>

text \<open>What a scrape shows is what the program recorded: whatever events are recorded, in whatever order, the counter of processed tasks
  is the number of events with those labels, the counter of enqueued tasks likewise, the histogram of a tenant and type holds the durations of all its events,
  whatever their status, and the gauge of active workers the last value.\<close>

theorem recorder_reflects_log:
  assumes "prometheus_laws p counter_of samples_of gauge_of"
  shows "let r' = fold (PrometheusRecorder p) ms r in
    counter_of r' processedTotal [a, b, st] =
      counter_of r processedTotal [a, b, st] + length (filter (\<lambda>m. \<exists>dur. m = RecordProcessed a b st dur) ms) \<and>
    counter_of r' enqueuedTotal [a, b, pr] =
      counter_of r enqueuedTotal [a, b, pr] + length (filter (\<lambda>m. m = RecordEnqueued a b pr) ms) \<and>
    samples_of r' processingDurationSeconds [a, b] = samples_of r processingDurationSeconds [a, b] @ durations a b ms \<and>
    gauge_of r' workerActive [] =
      (if active_values ms = [] then gauge_of r workerActive [] else Some (last (active_values ms)))"
  using prometheus_laws.recorded_processed [OF assms] prometheus_laws.recorded_enqueued [OF assms]
    prometheus_laws.recorded_durations [OF assms] prometheus_laws.recorded_active [OF assms]
  by (simp add: Let_def)

text \<open>Every task a worker ends is counted once: with the Redis adapters and the Prometheus recorder, under any faults, one call of
  \<open>processTask\<close> raises \<open>email_queue_processed_total\<close> of the task's tenant and type by one under the status of its outcome and no other series; a task that
  goes back to the queue (a lock held elsewhere, a failed write, a panic) is not counted. The status of a dead-lettered task is \<open>dead\<close>,
  which the help text of the metric does not list.\<close>

theorem processed_series:
  assumes "prom_env p counter_of samples_of gauge_of e reg snd'"
    and "processTask (redis_deps e cfg scr snd') cfg task st = ((oc, task'), st')"
  shows "counter_of (reg (world st')) processedTotal =
    (case outcome_status oc of
       None \<Rightarrow> counter_of (reg (world st)) processedTotal
     | Some status \<Rightarrow> (counter_of (reg (world st)) processedTotal)
         ([TenantID task, Type task, status] := Suc (counter_of (reg (world st)) processedTotal [TenantID task, Type task, status])))"
  using prom_env.worker_series [OF assms] by (simp add: counted_def bump_def split: option.splits)

subsection \<open>Witnesses\<close>

theorem recorder_reflects_log_witness:
  "let r' = fold (PrometheusRecorder mem_prometheus)
      [RecordProcessed ''acme'' ''billing'' ''dead'' (Fin 1), RecordProcessed ''acme'' ''billing'' ''success'' (Fin 2)] empty_registry
   in reg_counters r' processedTotal [''acme'', ''billing'', ''dead''] = 1 \<and>
      reg_samples r' processingDurationSeconds [''acme'', ''billing''] = [Fin 1, Fin 2]"
  using recorder_reflects_log [OF mem_prom.prometheus_laws_axioms, where r = empty_registry and a = "''acme''" and b = "''billing''"
      and st = "''dead''" and ms = "[RecordProcessed ''acme'' ''billing'' ''dead'' (Fin 1),
        RecordProcessed ''acme'' ''billing'' ''success'' (Fin 2)]"]
  by (simp add: Let_def empty_registry_def durations_def del: fold_simps)

definition prom_world :: "send_outcome list \<Rightarrow> fault list \<Rightarrow> mem_prom_sys" where
  "prom_world rs fs = mem_sys.extend (sys_world pending_ks rs fs) \<lparr>mem_reg = empty_registry\<rparr>"

lemma prom_world_fresh: "reg_counters (mem_reg (world (idle_supervisor (prom_world rs fs)))) = (\<lambda>_ _. 0)"
  by (simp add: idle_supervisor_def prom_world_def mem_sys.defs sys_world_def empty_registry_def)

theorem processed_series_witness:
  "case processTask (redis_deps (prom_world_env True) sample_config sample_scripts mem_sender) sample_config stamped_task
      (idle_supervisor (prom_world [Returned None] [NoFault, LostReply])) of
     ((oc, _), st') \<Rightarrow>
       reg_counters (mem_reg (world st')) processedTotal [TenantID stamped_task, Type stamped_task, ''success''] =
         (if outcome_status oc = Some ''success'' then 1 else 0)"
proof -
  obtain oc task' st' where r: "processTask (redis_deps (prom_world_env True) sample_config sample_scripts mem_sender) sample_config
      stamped_task (idle_supervisor (prom_world [Returned None] [NoFault, LostReply])) = ((oc, task'), st')"
    by (metis prod.exhaust)
  show ?thesis
    using processed_series [OF mem_metered.prom_env_axioms r]
    by (simp add: r prom_world_fresh split: option.splits)
qed

end
