(* ===== verification/Worker_Steps.thy ===== *)
theory Worker_Steps
  imports Supervisor
begin

text \<open>
  internal/worker/supervisor.go: \<open>processTask\<close> between the points where another goroutine can run. A
  worker is a program of atomic actions (a call of a port, an atomic addition to a counter, a record of a
  metric); after each of them the rest of the program is known. Run without interruption it is
  \<open>process_body\<close> with the deferred recovery.
\<close>

subsection \<open>Programs of atomic actions\<close>

datatype ('w, 'a) prog =
  Stop 'a
| Act "'w Supervisor \<Rightarrow> 'w Supervisor" "'w Supervisor \<Rightarrow> ('w, 'a) prog"

primrec run_prog :: "('w, 'a) prog \<Rightarrow> 'w Supervisor \<Rightarrow> 'a \<times> 'w Supervisor" where
  "run_prog (Stop a) = (\<lambda>st. (a, st))"
| "run_prog (Act f p) = (\<lambda>st. run_prog (p st) (f st))"

text \<open>A call of a port: the answer decides how to go on. An update of the counters or the metrics has no answer.\<close>

definition call :: "('w \<Rightarrow> 'b \<times> 'w) \<Rightarrow> ('b \<Rightarrow> ('w, 'a) prog) \<Rightarrow> ('w, 'a) prog" where
  "call f k = Act (\<lambda>st. snd (on_world f st)) (\<lambda>st. k (fst (on_world f st)))"

definition upd :: "('w Supervisor \<Rightarrow> 'w Supervisor) \<Rightarrow> ('w, 'a) prog \<Rightarrow> ('w, 'a) prog" where
  "upd f p = Act f (\<lambda>_. p)"

lemma run_call [simp]: "run_prog (call f k) st = (let (r, st1) = on_world f st in run_prog (k r) st1)"
  by (simp add: call_def split: prod.split)

lemma run_upd [simp]: "run_prog (upd f p) st = run_prog p (f st)"
  by (simp add: upd_def)

subsection \<open>The worker\<close>

definition clear_and_nack_prog ::
  "'w deps \<Rightarrow> EmailTask \<Rightarrow> string \<Rightarrow> go_error \<Rightarrow> ('w, 'a) prog \<Rightarrow> ('w, 'a) prog" where
  "clear_and_nack_prog d task idKey cause p =
     call (port_ClearProcessing (idempotency d) idKey) (\<lambda>clearErr.
     call (port_Nack (consumer d) task cause) (\<lambda>_. p))"

text \<open>The gate, first what a worker does that was refused the lock.\<close>

definition refused_prog ::
  "'w deps \<Rightarrow> Config \<Rightarrow> EmailTask \<Rightarrow> string \<Rightarrow> (outcome option \<Rightarrow> ('w, 'a) prog) \<Rightarrow> ('w, 'a) prog" where
  "refused_prog d cfg task idKey k =
     call (port_IsCompleted (idempotency d) idKey) (\<lambda>(completed, _).
     if completed then
       call (port_Acknowledge (consumer d) task) (\<lambda>_.
       upd (metric_st d (processed_metric task ''deduped'' (Fin 0))) (k (Some Deduped)))
     else
       call (port_TryReclaimStale (idempotency d) idKey (ConsumerName (CfgWorker cfg))
         (ClaimIdleThreshold (CfgWorker cfg))) (\<lambda>(reclaimed, reclaimErr).
       if \<not> reclaimed then
         call (port_Nack (consumer d) task (ENew ''idempotency lock actively held'')) (\<lambda>_. k (Some LockHeld))
       else k None))"

definition gate_prog ::
  "'w deps \<Rightarrow> Config \<Rightarrow> EmailTask \<Rightarrow> string \<Rightarrow> (outcome option \<Rightarrow> ('w, 'a) prog) \<Rightarrow> ('w, 'a) prog" where
  "gate_prog d cfg task idKey k =
     call (port_SetProcessing (idempotency d) idKey (ConsumerName (CfgWorker cfg))) (\<lambda>(acquired, idErr).
     if acquired then k None else refused_prog d cfg task idKey k)"

definition delivered_prog ::
  "'w deps \<Rightarrow> EmailTask \<Rightarrow> string \<Rightarrow> f64 \<Rightarrow> ('w, outcome \<times> EmailTask) prog" where
  "delivered_prog d task idKey dur =
     call (port_Acknowledge (consumer d) task) (\<lambda>_.
     call (port_SetCompleted (idempotency d) idKey) (\<lambda>_.
     upd (\<lambda>st. st\<lparr>totalProcessed := totalProcessed st + 1\<rparr>)
     (upd (metric_st d (processed_metric task ''success'' dur)) (Stop (Sent, task)))))"

definition dead_letter_prog ::
  "'w deps \<Rightarrow> EmailTask \<Rightarrow> string \<Rightarrow> go_error \<Rightarrow> bool \<Rightarrow> f64 \<Rightarrow> ('w, outcome \<times> EmailTask) prog" where
  "dead_letter_prog d task idKey sendErr nonRetryable dur =
     call (clock d) (\<lambda>now.
     call (port_SendToDLQ (dlqWriter d) (Some \<lparr>Task = Some task, DeadAt = now,
         FailureReason = (if nonRetryable then ''non-retryable error'' else ''max attempts exceeded''),
         FinalError = Error sendErr, AttemptHistory = []\<rparr>)) (\<lambda>dlqErr.
     case dlqErr of
       Some err \<Rightarrow> clear_and_nack_prog d task idKey err (Stop (DLQFailed, task))
     | None \<Rightarrow>
         call (port_Acknowledge (consumer d) task) (\<lambda>_.
         upd (metric_st d (processed_metric task ''dead'' dur)) (Stop (Dead, task)))))"

definition schedule_retry_prog ::
  "'w deps \<Rightarrow> EmailTask \<Rightarrow> string \<Rightarrow> f64 \<Rightarrow> ('w, outcome \<times> EmailTask) prog" where
  "schedule_retry_prog d task idKey dur =
     (let task = task\<lparr>Attempt := Attempt task + 1\<rparr> in
      call (random d) (\<lambda>rnd.
      call (port_ScheduleRetry (retryScheduler d) task (NextRetryDelay task rnd)) (\<lambda>schedErr.
      case schedErr of
        Some err \<Rightarrow> clear_and_nack_prog d task idKey err (Stop (RetryFailed, task))
      | None \<Rightarrow>
          call (port_Acknowledge (consumer d) task) (\<lambda>_.
          upd (\<lambda>st. st\<lparr>totalRetried := totalRetried st + 1\<rparr>)
          (upd (metric_st d (processed_metric task ''failed'' dur)) (Stop (Retried, task)))))))"

definition failed_delivery_prog ::
  "'w deps \<Rightarrow> EmailTask \<Rightarrow> string \<Rightarrow> go_error \<Rightarrow> f64 \<Rightarrow> ('w, outcome \<times> EmailTask) prog" where
  "failed_delivery_prog d task idKey sendErr dur =
     upd (\<lambda>st. st\<lparr>totalFailed := totalFailed st + 1\<rparr>)
     (let task = task\<lparr>LastError := Error sendErr, Status := StatusFailed\<rparr>;
          nonRetryable = is_nonretryable sendErr
      in if nonRetryable \<or> \<not> IsRetryable task
         then dead_letter_prog d task idKey sendErr nonRetryable dur
         else schedule_retry_prog d task idKey dur)"

definition recover_prog :: "'w deps \<Rightarrow> EmailTask \<Rightarrow> string \<Rightarrow> ('w, outcome \<times> EmailTask) prog" where
  "recover_prog d task msg =
     (let task = metadata_set ''poison'' ''true'' task in
      upd (\<lambda>st. st\<lparr>totalFailed := totalFailed st + 1\<rparr>)
      (call (port_Nack (consumer d) task (ENew (''panic: '' @ msg))) (\<lambda>_. Stop (Panic msg, task))))"

definition worker_prog :: "'w deps \<Rightarrow> Config \<Rightarrow> EmailTask \<Rightarrow> ('w, outcome \<times> EmailTask) prog" where
  "worker_prog d cfg task =
     (let idKey = attemptKey (ID task) (Attempt task) in
      gate_prog d cfg task idKey (\<lambda>gate.
      case gate of
        Some oc \<Rightarrow> Stop (oc, task)
      | None \<Rightarrow>
          call (clock d) (\<lambda>start.
          call (port_Send (sender d) task) (\<lambda>res.
          case res of
            Panicked msg \<Rightarrow> recover_prog d task msg
          | Returned sendErr \<Rightarrow>
              call (clock d) (\<lambda>stop.
              let dur = duration_seconds (word_of_int (stop - start)) in
              case sendErr of
                None \<Rightarrow> delivered_prog d task idKey dur
              | Some err \<Rightarrow> failed_delivery_prog d task idKey err dur)))))"

subsection \<open>Uninterrupted, it is the function\<close>

lemma run_clear_and_nack: "run_prog (clear_and_nack_prog d task k er p) st = run_prog p (clearLockAndNack d task k er st)"
  by (simp add: clear_and_nack_prog_def clearLockAndNack_def Let_def split: prod.split)

lemma run_gate: "run_prog (gate_prog d cfg task idKey k) st = (let (g, st1) = idempotency_gate d cfg task idKey st in run_prog (k g) st1)"
  by (simp add: gate_prog_def refused_prog_def idempotency_gate_def Let_def split: prod.split)

lemma run_delivered: "run_prog (delivered_prog d task k dur) st = ((Sent, task), delivered d task k dur st)"
  by (simp add: delivered_prog_def delivered_def Let_def split: prod.split)

lemma run_dead_letter:
  "run_prog (dead_letter_prog d task k er nr dur) st = (let (oc, st1) = dead_letter d task k er nr dur st in ((oc, task), st1))"
  by (simp add: dead_letter_prog_def dead_letter_def run_clear_and_nack Let_def split: prod.split option.split)

lemma run_schedule_retry: "run_prog (schedule_retry_prog d task k dur) st = schedule_retry d task k dur st"
  by (simp add: schedule_retry_prog_def schedule_retry_def run_clear_and_nack Let_def split: prod.split option.split)

lemma run_failed_delivery: "run_prog (failed_delivery_prog d task k er dur) st = failed_delivery d task k er dur st"
  by (simp add: failed_delivery_prog_def failed_delivery_def run_dead_letter run_schedule_retry Let_def)

lemma recover_not_panic: "(\<And>msg. oc \<noteq> Panic msg) \<Longrightarrow> recover_panic d (oc, task) st = ((oc, task), st)"
  by (simp add: recover_panic_def split: outcome.split)

lemma failed_delivery_no_panic: "failed_delivery d task k er dur st = ((oc, task'), st') \<Longrightarrow> oc \<noteq> Panic msg"
  by (auto simp: failed_delivery_def dead_letter_def schedule_retry_def Let_def split: if_splits prod.splits option.splits)

lemma run_recover: "run_prog (recover_prog d task msg) st = recover_panic d (Panic msg, task) st"
  by (simp add: recover_prog_def recover_panic_def Let_def split: prod.split)

lemma run_worker:
  "run_prog (worker_prog d cfg task) st = (let (res, st1) = process_body d cfg task st in recover_panic d res st1)"
proof -
  let ?k = "attemptKey (ID task) (Attempt task)"
  obtain g st1 where g: "idempotency_gate d cfg task ?k st = (g, st1)" by fastforce
  obtain a st2 where s2: "on_world (clock d) st1 = (a, st2)" by fastforce
  obtain res st3 where s3: "on_world (port_Send (sender d) task) st2 = (res, st3)" by fastforce
  obtain b st4 where s4: "on_world (clock d) st3 = (b, st4)" by fastforce
  note steps = g s2 s3 s4
  show ?thesis
  proof (cases g)
    case (Some oc)
    then have "oc \<noteq> Panic msg" for msg using counters_gate [OF g] by auto
    then show ?thesis using Some g by (simp add: worker_prog_def run_gate process_body_def recover_not_panic Let_def)
  next
    case None
    show ?thesis
    proof (cases res)
      case (Panicked msg)
      then show ?thesis using None steps by (simp add: worker_prog_def run_gate process_body_def run_recover Let_def)
    next
      case (Returned er)
      show ?thesis
      proof (cases er)
        case e: None
        then show ?thesis using None steps Returned
          by (simp add: worker_prog_def run_gate process_body_def run_delivered recover_not_panic Let_def)
      next
        case (Some er2)
        let ?dur = "duration_seconds (word_of_int (b - a))"
        obtain oc t2 st5 where f: "failed_delivery d task ?k er2 ?dur st4 = ((oc, t2), st5)" by (metis prod.exhaust)
        then show ?thesis using None steps Returned Some failed_delivery_no_panic [OF f]
          by (simp add: worker_prog_def run_gate process_body_def run_failed_delivery recover_not_panic Let_def)
      qed
    qed
  qed
qed

subsection \<open>What all actions of a program do\<close>

text \<open>
  \<open>all_acts R\<close>: every action relates the states as \<open>R\<close> says, whatever the others have done in between.
  \<open>until R S\<close>: so it is up to the first action that does \<open>S\<close>, if there is one.
\<close>

primrec all_acts :: "('w Supervisor \<Rightarrow> 'w Supervisor \<Rightarrow> bool) \<Rightarrow> ('w, 'a) prog \<Rightarrow> bool" where
  "all_acts R (Stop a) \<longleftrightarrow> True"
| "all_acts R (Act f p) \<longleftrightarrow> (\<forall>st. R st (f st) \<and> all_acts R (p st))"

primrec until ::
  "('w Supervisor \<Rightarrow> 'w Supervisor \<Rightarrow> bool) \<Rightarrow> ('w Supervisor \<Rightarrow> 'w Supervisor \<Rightarrow> bool) \<Rightarrow> ('w, 'a) prog \<Rightarrow> bool" where
  "until R S (Stop a) \<longleftrightarrow> True"
| "until R S (Act f p) \<longleftrightarrow> (\<forall>st. S st (f st) \<or> R st (f st) \<and> until R S (p st))"

text \<open>At most \<open>n\<close> actions.\<close>

primrec acts_le :: "('w, 'a) prog \<Rightarrow> nat \<Rightarrow> bool" where
  "acts_le (Stop a) n \<longleftrightarrow> True"
| "acts_le (Act f p) n \<longleftrightarrow> 0 < n \<and> (\<forall>st. acts_le (p st) (n - 1))"

lemma all_acts_call:
  "(\<And>st. R st (snd (on_world f st))) \<Longrightarrow> (\<And>r. all_acts R (k r)) \<Longrightarrow> all_acts R (call f k)"
  by (simp add: call_def)

lemma all_acts_upd: "(\<And>st. R st (f st)) \<Longrightarrow> all_acts R p \<Longrightarrow> all_acts R (upd f p)"
  by (simp add: upd_def)

lemma until_call:
  "(\<And>st r st'. on_world f st = (r, st') \<Longrightarrow> S st st' \<or> R st st' \<and> until R S (k r)) \<Longrightarrow> until R S (call f k)"
  by (simp add: call_def)

lemma until_upd: "(\<And>st. R st (f st)) \<Longrightarrow> until R S p \<Longrightarrow> until R S (upd f p)"
  by (simp add: upd_def)

lemma all_acts_until: "all_acts R p \<Longrightarrow> until R S p"
  by (induction p) auto

lemma all_acts_run:
  "all_acts R p \<Longrightarrow> (\<And>a. R a a) \<Longrightarrow> (\<And>a b c. R a b \<Longrightarrow> R b c \<Longrightarrow> R a c) \<Longrightarrow> R st (snd (run_prog p st))"
  by (induction p arbitrary: st) (simp, metis all_acts.simps(2) run_prog.simps(2) rangeI)

lemma acts_le_call [simp]: "(\<And>r. acts_le (k r) n) \<Longrightarrow> acts_le (call f k) (Suc n)"
  by (simp add: call_def)

lemma acts_le_upd [simp]: "acts_le p n \<Longrightarrow> acts_le (upd f p) (Suc n)"
  by (simp add: upd_def)

lemma acts_le_mono: "acts_le p n \<Longrightarrow> n \<le> m \<Longrightarrow> acts_le p m"
  by (induction p arbitrary: n m) (auto, meson diff_le_mono rangeI)

subsection \<open>Laws of the ports, lifted to the worker\<close>

text \<open>
  \<open>own\<close> is closed under what a worker writes into its task. When each port call on such a task relates
  the states by \<open>R\<close>, so does every action of the worker.
\<close>

locale worker_acts =
  fixes d :: "'w deps" and own :: "EmailTask \<Rightarrow> bool" and R :: "'w Supervisor \<Rightarrow> 'w Supervisor \<Rightarrow> bool"
  assumes own_failed: "own t \<Longrightarrow> own (t\<lparr>LastError := a, Status := b\<rparr>)"
    and own_attempt: "own t \<Longrightarrow> own (t\<lparr>Attempt := n\<rparr>)"
    and act_ack: "own t \<Longrightarrow> on_world (port_Acknowledge (consumer d) t) st = (r1, st') \<Longrightarrow> R st st'"
    and act_nack: "on_world (port_Nack (consumer d) t er) st = (r2, st') \<Longrightarrow> R st st'"
    and act_set_processing: "on_world (port_SetProcessing (idempotency d) k i) st = (r3, st') \<Longrightarrow> R st st'"
    and act_is_completed: "on_world (port_IsCompleted (idempotency d) k) st = (r3, st') \<Longrightarrow> R st st'"
    and act_set_completed: "on_world (port_SetCompleted (idempotency d) k) st = (r1, st') \<Longrightarrow> R st st'"
    and act_reclaim: "on_world (port_TryReclaimStale (idempotency d) k i age) st = (r3, st') \<Longrightarrow> R st st'"
    and act_clear: "on_world (port_ClearProcessing (idempotency d) k) st = (r1, st') \<Longrightarrow> R st st'"
    and act_schedule: "own t \<Longrightarrow> on_world (port_ScheduleRetry (retryScheduler d) t delay) st = (r1, st') \<Longrightarrow> R st st'"
    and act_dead: "Task x = Some t \<Longrightarrow> own t \<Longrightarrow> on_world (port_SendToDLQ (dlqWriter d) (Some x)) st = (r1, st') \<Longrightarrow> R st st'"
    and act_send: "own t \<Longrightarrow> on_world (port_Send (sender d) t) st = (so, st') \<Longrightarrow> R st st'"
    and act_clock: "on_world (clock d) st = (now, st') \<Longrightarrow> R st st'"
    and act_random: "on_world (random d) st = (rn, st') \<Longrightarrow> R st st'"
    and act_metric: "R st (metric_st d m st)"
    and act_count: "R st (st\<lparr>totalProcessed := p\<rparr>)" "R st (st\<lparr>totalFailed := f\<rparr>)" "R st (st\<lparr>totalRetried := q\<rparr>)"
begin

lemmas acts = act_nack act_set_processing act_is_completed act_set_completed act_reclaim act_clear act_clock act_random

lemmas acts_snd [simp] = acts [OF prod.collapse [symmetric]] act_ack [OF _ prod.collapse [symmetric]]
  act_schedule [OF _ prod.collapse [symmetric]] act_dead [OF _ _ prod.collapse [symmetric]]
  act_send [OF _ prod.collapse [symmetric]]

lemmas [simp] = act_metric act_count

lemma clear_and_nack_acts: "all_acts R p \<Longrightarrow> all_acts R (clear_and_nack_prog d t k er p)"
  unfolding clear_and_nack_prog_def by (intro all_acts_call) simp_all

lemma gate_acts: "own t \<Longrightarrow> (\<And>g. all_acts R (k g)) \<Longrightarrow> all_acts R (gate_prog d cfg t key k)"
  unfolding gate_prog_def refused_prog_def by (auto intro!: all_acts_call all_acts_upd)

lemma delivered_acts: "own t \<Longrightarrow> all_acts R (delivered_prog d t k dur)"
  unfolding delivered_prog_def by (auto intro!: all_acts_call all_acts_upd)

lemma dead_letter_acts: "own t \<Longrightarrow> all_acts R (dead_letter_prog d t k er nr dur)"
  unfolding dead_letter_prog_def
  by (auto intro!: all_acts_call all_acts_upd clear_and_nack_acts split: option.split)

lemma schedule_retry_acts: "own t \<Longrightarrow> all_acts R (schedule_retry_prog d t k dur)"
  unfolding schedule_retry_prog_def Let_def
  by (auto intro!: all_acts_call all_acts_upd clear_and_nack_acts simp: own_attempt split: option.split)

lemma failed_delivery_acts: "own t \<Longrightarrow> all_acts R (failed_delivery_prog d t k er dur)"
  unfolding failed_delivery_prog_def Let_def
  by (auto intro!: all_acts_upd dead_letter_acts schedule_retry_acts own_failed)

lemma recover_acts: "all_acts R (recover_prog d t m)"
  unfolding recover_prog_def Let_def by (auto intro!: all_acts_call all_acts_upd)

lemma worker_prog_acts: "own t \<Longrightarrow> all_acts R (worker_prog d cfg t)"
  unfolding worker_prog_def Let_def
  by (intro gate_acts)
    (auto intro!: all_acts_call recover_acts delivered_acts failed_delivery_acts split: option.split send_outcome.split)

end

text \<open>No action of a worker's body touches the semaphore or the number of active workers.\<close>

abbreviation same_slots :: "'w Supervisor \<Rightarrow> 'w Supervisor \<Rightarrow> bool" where
  "same_slots st st' \<equiv> sem st' = sem st \<and> activeWorkers st' = activeWorkers st"

lemma same_slots_world: "on_world f st = (r, st') \<Longrightarrow> same_slots st st'"
  using counters_on_world [of f st r st'] by (simp add: counters_def)

interpretation slots: worker_acts d "\<lambda>_. True" same_slots for d
  by unfold_locales (auto dest: same_slots_world simp: metric_st_def)

text \<open>A worker makes at most twelve actions.\<close>

lemma clear_and_nack_le: "acts_le p n \<Longrightarrow> acts_le (clear_and_nack_prog d t k er p) (Suc (Suc n))"
  by (simp add: clear_and_nack_prog_def)

lemma gate_le:
  assumes "acts_le (k None) (Suc n)" "\<And>g. acts_le (k (Some g)) n"
  shows "acts_le (gate_prog d cfg t key k) (Suc (Suc (Suc (Suc n))))"
proof -
  have "acts_le (k None) (Suc (Suc n))" "acts_le (k None) (Suc (Suc (Suc n)))"
    using acts_le_mono [OF assms(1)] by simp_all
  then show ?thesis using assms by (auto simp: gate_prog_def refused_prog_def split: prod.split)
qed

lemma delivered_le: "acts_le (delivered_prog d t k dur) 4"
  by (simp add: delivered_prog_def eval_nat_numeral)

lemma dead_letter_le: "acts_le (dead_letter_prog d t k er nr dur) 4"
  by (simp add: dead_letter_prog_def eval_nat_numeral clear_and_nack_le split: option.split)

lemma schedule_retry_le: "acts_le (schedule_retry_prog d t k dur) 5"
  by (simp add: schedule_retry_prog_def eval_nat_numeral clear_and_nack_le Let_def split: option.split)

lemma failed_delivery_le: "acts_le (failed_delivery_prog d t k er dur) 6"
proof -
  have "acts_le (dead_letter_prog d t k er nr dur) 5" for t nr by (rule acts_le_mono [OF dead_letter_le]) simp
  then show ?thesis using schedule_retry_le [of d _ k dur] by (simp add: failed_delivery_prog_def eval_nat_numeral Let_def)
qed


lemma recover_le: "acts_le (recover_prog d t m) 2"
  by (simp add: recover_prog_def eval_nat_numeral Let_def)

lemma worker_prog_le: "acts_le (worker_prog d cfg t) 12"
proof -
  have "acts_le (failed_delivery_prog d t k er dur) 6" "acts_le (delivered_prog d t k dur) 6" for k er dur
    using failed_delivery_le acts_le_mono [OF delivered_le, of 6] by simp_all
  moreover have "acts_le (recover_prog d t m) 7" for m using acts_le_mono [OF recover_le, of 7] by simp
  ultimately show ?thesis
    unfolding worker_prog_def Let_def
    by (simp add: eval_nat_numeral gate_le split: option.split send_outcome.split)
qed

end
