(* ===== verification/Pool.thy ===== *)
theory Pool
  imports Worker_Steps
begin

text \<open>
  internal/worker/supervisor.go: the dispatch loop \<open>Run\<close>, the semaphore, the worker goroutines,
  \<open>waitForWorkers\<close> and \<open>Drain\<close>, as a step relation over all interleavings. A goroutine is launched by
  \<open>go\<close>, working (it has counted itself and is at some point of its program), finished (the body and the
  recovery have run), released (its token is back), leaving (it has uncounted itself) and gone. Between
  any two of its actions every other goroutine can run.
\<close>

subsection \<open>Starting the loop\<close>

datatype run_start = StartFailed go_error | StartPanics string | Started

definition Run_start :: "'w deps \<Rightarrow> Config \<Rightarrow> 'w Supervisor \<Rightarrow> run_start \<times> 'w Supervisor" where
  "Run_start d cfg st =
     (let (err, st1) = on_world (port_Consume (consumer d)) st in
      case err of
        Some er \<Rightarrow> (StartFailed (EWrap ''supervisor: start consumer'' er), st1)
      | None \<Rightarrow>
          if ClaimIdleThreshold (CfgWorker cfg) <=s 0 then (StartPanics ''non-positive interval for NewTicker'', st1)
          else (Started, metric_st d (RecordWorkerStats
                  \<lparr>ActiveWorkers = 0, StatPoolSize = PoolSize (CfgWorker cfg), TotalProcessed = 0, TotalFailed = 0,
                   TotalRetried = 0, QueueDepth = 0, StatDLQDepth = 0\<rparr>) st1))"

subsection \<open>The machine\<close>

text \<open>Where \<open>Run\<close> is: at its \<open>select\<close>, handing out tasks, waiting for the workers, or returned.\<close>

datatype run_pc = AtSelect | Dispatching "EmailTask list" | WaitingWorkers | Stopped

datatype drain_pc = Draining | Drained | DrainTimedOut i64

record 'w pool =
  spv :: "'w Supervisor"
  ctxDone :: bool
  taskCh :: "EmailTask list"
  chClosed :: bool
  run_at :: run_pc
  launched :: "EmailTask list"
  working :: "(EmailTask \<times> ('w, outcome \<times> EmailTask) prog) list"
  finished :: nat
  released :: nat
  leaving :: nat
  drain_at :: drain_pc

definition capacity :: "Config \<Rightarrow> nat" where
  "capacity cfg = nat (sint (PoolSize (CfgWorker cfg)))"

text \<open>\<open>dispatch\<close>: a token and a goroutine, or a nack when the context is done.\<close>

definition dispatch_go :: "EmailTask \<Rightarrow> 'w pool \<Rightarrow> 'w pool" where
  "dispatch_go t s = s\<lparr>spv := (spv s)\<lparr>sem := sem (spv s) + 1\<rparr>, launched := launched s @ [t]\<rparr>"

definition dispatch_nack :: "'w deps \<Rightarrow> EmailTask \<Rightarrow> 'w pool \<Rightarrow> 'w pool" where
  "dispatch_nack d t s = s\<lparr>spv := snd (on_world (port_Nack (consumer d) t (ESentinel ErrCanceled)) (spv s))\<rparr>"

text \<open>
  One round of \<open>waitForWorkers\<close> and of \<open>Drain\<close>: look at the counter, then at the deadline. The counter is
  read again for the message of the timeout.
\<close>

definition wait_poll :: "i64 \<Rightarrow> bool \<Rightarrow> run_pc" where
  "wait_poll active expired = (if active = 0 \<or> expired then Stopped else WaitingWorkers)"

definition drain_poll :: "i64 \<Rightarrow> bool \<Rightarrow> i64 \<Rightarrow> drain_pc" where
  "drain_poll active expired again =
     (if active = 0 then Drained else if expired then DrainTimedOut again else Draining)"

fun drain_result :: "drain_pc \<Rightarrow> go_error option" where
  "drain_result (DrainTimedOut n) =
     Some (ENew (''supervisor: drain timeout: '' @ show_int (sint n) @ '' workers still active''))"
| "drain_result Drained = None"
| "drain_result Draining = None"

definition worker_start ::
  "'w deps \<Rightarrow> Config \<Rightarrow> EmailTask list \<Rightarrow> EmailTask \<Rightarrow> EmailTask list \<Rightarrow> 'w pool \<Rightarrow> 'w pool" where
  "worker_start d cfg xs t ys s =
     s\<lparr>launched := xs @ ys, working := working s @ [(t, worker_prog d cfg t)],
       spv := (spv s)\<lparr>activeWorkers := activeWorkers (spv s) + 1\<rparr>\<rparr>"

definition worker_release :: "'w pool \<Rightarrow> 'w pool" where
  "worker_release s =
     s\<lparr>finished := finished s - 1, released := released s + 1, spv := (spv s)\<lparr>sem := sem (spv s) - 1\<rparr>\<rparr>"

definition worker_exit :: "'w pool \<Rightarrow> 'w pool" where
  "worker_exit s =
     s\<lparr>released := released s - 1, leaving := leaving s + 1,
       spv := (spv s)\<lparr>activeWorkers := activeWorkers (spv s) - 1\<rparr>\<rparr>"

definition worker_report :: "'w deps \<Rightarrow> Config \<Rightarrow> 'w pool \<Rightarrow> 'w pool" where
  "worker_report d cfg s =
     s\<lparr>leaving := leaving s - 1, spv := metric_st d (RecordWorkerStats (Stats cfg (spv s))) (spv s)\<rparr>"

inductive worker_step :: "'w deps \<Rightarrow> Config \<Rightarrow> 'w pool \<Rightarrow> 'w pool \<Rightarrow> bool" for d cfg where
  start: "launched s = xs @ t # ys \<Longrightarrow> worker_step d cfg s (worker_start d cfg xs t ys s)"
| act: "working s = xs @ (t, Act f p) # ys \<Longrightarrow>
    worker_step d cfg s (s\<lparr>working := xs @ (t, p (spv s)) # ys, spv := f (spv s)\<rparr>)"
| finish: "working s = xs @ (t, Stop res) # ys \<Longrightarrow>
    worker_step d cfg s (s\<lparr>working := xs @ ys, finished := finished s + 1\<rparr>)"
| release: "0 < finished s \<Longrightarrow> worker_step d cfg s (worker_release s)"
| exit: "0 < released s \<Longrightarrow> worker_step d cfg s (worker_exit s)"
| report: "0 < leaving s \<Longrightarrow> worker_step d cfg s (worker_report d cfg s)"

text \<open>
  \<open>others\<close> is what the rest of the process does to the world meanwhile: the poll loop of the consumer, the
  retry scheduler, the monitor, the API.
\<close>

inductive pool_step ::
  "'w deps \<Rightarrow> Config \<Rightarrow> ('w \<Rightarrow> 'w \<Rightarrow> bool) \<Rightarrow> 'w pool \<Rightarrow> 'w pool \<Rightarrow> bool" for d cfg others where
  worker: "worker_step d cfg s s' \<Longrightarrow> pool_step d cfg others s s'"
| arrive: "\<not> chClosed s \<Longrightarrow> length (taskCh s) < capacity cfg \<Longrightarrow> pool_step d cfg others s (s\<lparr>taskCh := taskCh s @ [t]\<rparr>)"
| close: "ctxDone s \<Longrightarrow> pool_step d cfg others s (s\<lparr>chClosed := True\<rparr>)"
| cancel: "pool_step d cfg others s (s\<lparr>ctxDone := True\<rparr>)"
| recv: "run_at s = AtSelect \<Longrightarrow> taskCh s = t # ts \<Longrightarrow>
    pool_step d cfg others s (s\<lparr>taskCh := ts, run_at := Dispatching [t]\<rparr>)"
| recv_closed: "run_at s = AtSelect \<Longrightarrow> taskCh s = [] \<Longrightarrow> chClosed s \<Longrightarrow>
    pool_step d cfg others s (s\<lparr>run_at := WaitingWorkers\<rparr>)"
| claim: "run_at s = AtSelect \<Longrightarrow>
    on_world (port_ClaimStale (consumer d) (ClaimIdleThreshold (CfgWorker cfg))) (spv s) = (Inr ts, st) \<Longrightarrow>
    pool_step d cfg others s (s\<lparr>spv := st, run_at := Dispatching ts\<rparr>)"
| claim_error: "run_at s = AtSelect \<Longrightarrow>
    on_world (port_ClaimStale (consumer d) (ClaimIdleThreshold (CfgWorker cfg))) (spv s) = (Inl er, st) \<Longrightarrow>
    pool_step d cfg others s (s\<lparr>spv := st\<rparr>)"
| stop: "run_at s = AtSelect \<Longrightarrow> ctxDone s \<Longrightarrow> pool_step d cfg others s (s\<lparr>run_at := WaitingWorkers\<rparr>)"
| dispatch: "run_at s = Dispatching (t # ts) \<Longrightarrow> sem (spv s) < capacity cfg \<Longrightarrow>
    pool_step d cfg others s ((dispatch_go t s)\<lparr>run_at := Dispatching ts\<rparr>)"
| dispatch_done: "run_at s = Dispatching (t # ts) \<Longrightarrow> ctxDone s \<Longrightarrow>
    pool_step d cfg others s ((dispatch_nack d t s)\<lparr>run_at := Dispatching ts\<rparr>)"
| dispatch_end: "run_at s = Dispatching [] \<Longrightarrow> pool_step d cfg others s (s\<lparr>run_at := AtSelect\<rparr>)"
| waiting: "run_at s = WaitingWorkers \<Longrightarrow>
    pool_step d cfg others s (s\<lparr>run_at := wait_poll (activeWorkers (spv s)) expired\<rparr>)"
| draining: "ctxDone s \<Longrightarrow> drain_at s = Draining \<Longrightarrow>
    pool_step d cfg others s (s\<lparr>drain_at := drain_poll (activeWorkers (spv s)) expired again\<rparr>)"
| meanwhile: "others (world (spv s)) w \<Longrightarrow> pool_step d cfg others s (s\<lparr>spv := (spv s)\<lparr>world := w\<rparr>\<rparr>)"

inductive_simps worker_step_iff: "worker_step d cfg s s'"

definition new_pool :: "'w Supervisor \<Rightarrow> 'w pool" where
  "new_pool st =
     \<lparr>spv = st, ctxDone = False, taskCh = [], chClosed = False, run_at = AtSelect, launched = [], working = [],
      finished = 0, released = 0, leaving = 0, drain_at = Draining\<rparr>"

text \<open>\<open>make(chan struct{}, n)\<close> panics on a negative size.\<close>

definition NewSupervisor :: "Config \<Rightarrow> 'w \<Rightarrow> 'w Supervisor option" where
  "NewSupervisor cfg w =
     (if PoolSize (CfgWorker cfg) <s 0 then None
      else Some \<lparr>sem = 0, activeWorkers = 0, totalProcessed = 0, totalFailed = 0, totalRetried = 0, world = w\<rparr>)"

lemma NewSupervisor_idle:
  "NewSupervisor cfg w = Some st \<Longrightarrow> sem st = 0 \<and> activeWorkers st = 0 \<and> world st = w"
  by (auto simp: NewSupervisor_def split: if_splits)

definition reachable :: "'w deps \<Rightarrow> Config \<Rightarrow> ('w \<Rightarrow> 'w \<Rightarrow> bool) \<Rightarrow> 'w \<Rightarrow> 'w pool \<Rightarrow> bool" where
  "reachable d cfg others w s \<longleftrightarrow>
     (\<exists>st. NewSupervisor cfg w = Some st \<and> (pool_step d cfg others)\<^sup>*\<^sup>* (new_pool st) s)"

lemma reachable_new: "NewSupervisor cfg w = Some st \<Longrightarrow> reachable d cfg others w (new_pool st)"
  by (auto simp: reachable_def)

lemma reachable_step: "reachable d cfg others w s \<Longrightarrow> pool_step d cfg others s s' \<Longrightarrow> reachable d cfg others w s'"
  by (auto simp: reachable_def intro: rtranclp.rtrancl_into_rtrancl)

lemma reachable_workers: "reachable d cfg others w s \<Longrightarrow> (worker_step d cfg ^^ n) s s' \<Longrightarrow> reachable d cfg others w s'"
  by (induction n arbitrary: s') (auto intro: reachable_step pool_step.worker)

subsection \<open>The invariant\<close>

definition busy :: "'w pool \<Rightarrow> nat" where
  "busy s = length (working s) + finished s"

definition pool_inv :: "Config \<Rightarrow> 'w pool \<Rightarrow> bool" where
  "pool_inv cfg s \<longleftrightarrow>
     sem (spv s) = length (launched s) + busy s \<and> sem (spv s) \<le> capacity cfg \<and>
     activeWorkers (spv s) = of_nat (busy s + released s) \<and>
     length (taskCh s) \<le> capacity cfg \<and> (chClosed s \<longrightarrow> ctxDone s) \<and>
     (\<forall>(t, p) \<in> set (working s). all_acts same_slots p \<and> acts_le p 12)"

lemma slots_nack [simp]:
  "sem (snd (on_world f st)) = sem st" "activeWorkers (snd (on_world f st)) = activeWorkers st"
  using same_slots_world [of f st] by (metis prod.collapse)+

lemma slots_metric [simp]: "sem (metric_st d m st) = sem st" "activeWorkers (metric_st d m st) = activeWorkers st"
  by (simp_all add: metric_st_def)

lemma worker_step_inv: "worker_step d cfg s s' \<Longrightarrow> pool_inv cfg s \<Longrightarrow> pool_inv cfg s'"
proof (induction rule: worker_step.induct)
  case (start s xs t ys)
  then show ?case
    by (auto simp: pool_inv_def worker_start_def busy_def slots.worker_prog_acts worker_prog_le)
next
  case (act s xs t f p ys)
  then have "all_acts same_slots (Act f p)" "acts_le (Act f p) 12" by (auto simp: pool_inv_def)
  moreover have "acts_le (p (spv s)) 12" using \<open>acts_le (Act f p) 12\<close> by (auto intro: acts_le_mono [of _ 11])
  ultimately show ?case using act by (auto simp: pool_inv_def busy_def)
next
  case (finish s xs t res ys)
  then show ?case by (auto simp: pool_inv_def busy_def)
next
  case (release s)
  then obtain n where "finished s = Suc n" by (cases "finished s") auto
  then show ?case using release by (auto simp: pool_inv_def worker_release_def busy_def)
next
  case (exit s)
  then obtain n where "released s = Suc n" by (cases "released s") auto
  then show ?case using exit by (auto simp: pool_inv_def worker_exit_def busy_def)
next
  case (report s)
  then show ?case by (auto simp: pool_inv_def worker_report_def busy_def)
qed

lemma pool_step_inv: "pool_step d cfg others s s' \<Longrightarrow> pool_inv cfg s \<Longrightarrow> pool_inv cfg s'"
  by (induction rule: pool_step.induct)
    (auto intro: worker_step_inv simp: dispatch_go_def dispatch_nack_def, auto simp: pool_inv_def busy_def dest!: same_slots_world)

lemma new_pool_inv: "NewSupervisor cfg w = Some st \<Longrightarrow> pool_inv cfg (new_pool st)"
  by (drule NewSupervisor_idle) (simp add: pool_inv_def new_pool_def busy_def)

lemma steps_inv: "(pool_step d cfg others)\<^sup>*\<^sup>* s s' \<Longrightarrow> pool_inv cfg s \<Longrightarrow> pool_inv cfg s'"
  by (induction rule: rtranclp_induct) (blast intro: pool_step_inv)+

lemma reachable_inv: "reachable d cfg others w s \<Longrightarrow> pool_inv cfg s"
  by (auto simp: reachable_def intro: steps_inv new_pool_inv)

subsection \<open>One worker alone\<close>

text \<open>The steps of a worker that nobody interrupts are \<open>processTask\<close>.\<close>

lemma act_alone:
  "working s = [(t, p)] \<Longrightarrow>
   (worker_step d cfg)\<^sup>*\<^sup>* s (s\<lparr>working := [(t, Stop (fst (run_prog p (spv s))))], spv := snd (run_prog p (spv s))\<rparr>)"
proof (induction p arbitrary: s)
  case (Stop a)
  then have "s = s\<lparr>working := [(t, Stop a)], spv := spv s\<rparr>" by simp
  then show ?case by (metis run_prog.simps(1) fst_conv snd_conv rtranclp.rtrancl_refl)
next
  case (Act f p)
  let ?s1 = "s\<lparr>working := [(t, p (spv s))], spv := f (spv s)\<rparr>"
  have "worker_step d cfg s ?s1" using worker_step.act [of s "[]" t f p "[]"] Act.prems by simp
  moreover have "(worker_step d cfg)\<^sup>*\<^sup>* ?s1 (?s1\<lparr>working := [(t, Stop (fst (run_prog (p (spv s)) (spv ?s1))))],
      spv := snd (run_prog (p (spv s)) (spv ?s1))\<rparr>)"
    by (rule Act.IH) simp_all
  ultimately show ?case by (simp add: converse_rtranclp_into_rtranclp)
qed

definition run_alone :: "'w deps \<Rightarrow> Config \<Rightarrow> EmailTask \<Rightarrow> 'w pool \<Rightarrow> 'w pool" where
  "run_alone d cfg t s =
     (let s1 = worker_start d cfg [] t [] s; (res, st) = run_prog (worker_prog d cfg t) (spv s1);
          s2 = s1\<lparr>working := [(t, Stop res)], spv := st\<rparr>
      in worker_report d cfg (worker_exit (worker_release (s2\<lparr>working := [], finished := finished s2 + 1\<rparr>))))"

lemma run_alone_processTask: "spv (run_alone d cfg t s) = snd (processTask d cfg t (spv s))"
  by (simp add: run_alone_def processTask_def worker_start_def worker_release_def worker_exit_def worker_report_def
      run_worker release_slot_def Let_def metric_st_def split: prod.splits)

lemma run_alone_steps:
  assumes "launched s = [t]" "working s = []"
  shows "(worker_step d cfg)\<^sup>*\<^sup>* s (run_alone d cfg t s)"
proof -
  note step = rtranclp.rtrancl_into_rtrancl
  let ?s1 = "worker_start d cfg [] t [] s"
  let ?r = "run_prog (worker_prog d cfg t) (spv ?s1)"
  let ?s2 = "?s1\<lparr>working := [(t, Stop (fst ?r))], spv := snd ?r\<rparr>"
  let ?s3 = "?s2\<lparr>working := [], finished := finished ?s2 + 1\<rparr>"
  have "(worker_step d cfg)\<^sup>*\<^sup>* s ?s1" using worker_step.start [of s "[]" t "[]"] assms by auto
  moreover have "(worker_step d cfg)\<^sup>*\<^sup>* ?s1 ?s2" using assms by (intro act_alone) (simp add: worker_start_def)
  ultimately have "(worker_step d cfg)\<^sup>*\<^sup>* s ?s2" by (rule rtranclp_trans)
  then have "(worker_step d cfg)\<^sup>*\<^sup>* s ?s3"
    by (rule step) (use worker_step.finish [of ?s2 "[]" t "fst ?r" "[]" d cfg] in simp)
  then have "(worker_step d cfg)\<^sup>*\<^sup>* s (worker_release ?s3)" by (rule step) (rule worker_step.release, simp)
  then have "(worker_step d cfg)\<^sup>*\<^sup>* s (worker_exit (worker_release ?s3))"
    by (rule step) (rule worker_step.exit, simp add: worker_release_def)
  then have "(worker_step d cfg)\<^sup>*\<^sup>* s (worker_report d cfg (worker_exit (worker_release ?s3)))"
    by (rule step) (rule worker_step.report, simp add: worker_exit_def)
  then show ?thesis by (simp add: run_alone_def Let_def split_beta)
qed

subsection \<open>Workers run to their end\<close>

text \<open>How many steps the goroutines still have to make, at most.\<close>

definition acts_left :: "('w, 'a) prog \<Rightarrow> nat" where
  "acts_left p = (LEAST n. acts_le p n)"

lemma acts_left_le: "acts_le p n \<Longrightarrow> acts_left p \<le> n"
  by (simp add: acts_left_def Least_le)

lemma acts_left_act:
  assumes "acts_le (Act f p) n"
  shows "acts_left (p st) < acts_left (Act f p)"
proof -
  have "acts_le (Act f p) (acts_left (Act f p))" unfolding acts_left_def using assms by (rule LeastI)
  then have "0 < acts_left (Act f p)" "acts_left (p st) \<le> acts_left (Act f p) - 1" by (auto intro: acts_left_le)
  then show ?thesis by linarith
qed

definition work_left :: "'w pool \<Rightarrow> nat" where
  "work_left s =
     17 * length (launched s) + (\<Sum>(t, p)\<leftarrow>working s. acts_left p + 4) + 3 * finished s + 2 * released s + leaving s"

lemma worker_step_left: "worker_step d cfg s s' \<Longrightarrow> pool_inv cfg s \<Longrightarrow> work_left s' < work_left s"
proof (induction rule: worker_step.induct)
  case (start s xs t ys)
  then show ?case using acts_left_le [OF worker_prog_le [of d cfg t]] by (simp add: work_left_def worker_start_def)
next
  case (act s xs t f p ys)
  then have "acts_le (Act f p) 12" by (auto simp: pool_inv_def)
  from acts_left_act [OF this, of "spv s"] act show ?case by (simp add: work_left_def)
qed (simp_all add: work_left_def worker_release_def worker_exit_def worker_report_def)

lemma worker_progress:
  assumes "0 < work_left s"
  shows "\<exists>s'. worker_step d cfg s s'"
proof -
  consider t ts where "launched s = t # ts" | t p ts where "working s = (t, p) # ts" | "0 < finished s" |
    "0 < released s" | "0 < leaving s"
    using assms by (cases "launched s"; cases "working s") (auto simp: work_left_def)
  then show ?thesis
  proof cases
    case (2 t p ts)
    then show ?thesis
      by (cases p) (auto intro!: exI worker_step.act [of s "[]" t _ _ ts, simplified] worker_step.finish [of s "[]" t _ ts, simplified])
  qed (auto intro: worker_step.release worker_step.exit worker_step.report worker_step.start [where xs = "[]", simplified])
qed

lemma no_work: "work_left s = 0 \<longleftrightarrow>
    launched s = [] \<and> working s = [] \<and> finished s = 0 \<and> released s = 0 \<and> leaving s = 0"
  by (cases "working s") (auto simp: work_left_def)

lemma no_work_stuck: "work_left s = 0 \<Longrightarrow> \<not> worker_step d cfg s s'"
  by (auto simp: no_work worker_step_iff)

lemma worker_run_bound: "(worker_step d cfg ^^ n) s s' \<Longrightarrow> pool_inv cfg s \<Longrightarrow> n + work_left s' \<le> work_left s \<and> pool_inv cfg s'"
proof (induction n arbitrary: s')
  case 0
  then show ?case by simp
next
  case (Suc n)
  then obtain u where "(worker_step d cfg ^^ n) s u" "worker_step d cfg u s'" by auto
  with Suc.IH [of u] Suc.prems(2) worker_step_left [of d cfg u s'] worker_step_inv [of d cfg u s'] show ?case by simp
qed

lemma worker_run_ends: "pool_inv cfg s \<Longrightarrow> \<exists>n s'. (worker_step d cfg ^^ n) s s' \<and> work_left s' = 0"
proof (induction "work_left s" arbitrary: s rule: less_induct)
  case less
  show ?case
  proof (cases "work_left s = 0")
    case True
    then show ?thesis by (intro exI [of _ 0] exI [of _ s]) simp
  next
    case False
    then obtain u where u: "worker_step d cfg s u" using worker_progress by blast
    from less.hyps [OF worker_step_left [OF u less.prems] worker_step_inv [OF u less.prems]]
    obtain n s' where "(worker_step d cfg ^^ n) u s'" "work_left s' = 0" by blast
    with u show ?thesis by (metis relpowp_Suc_I2)
  qed
qed

subsection \<open>An early drain\<close>

text \<open>One task arrives, is received and dispatched, the context is cancelled and \<open>Drain\<close> looks before the new goroutine has run.\<close>

definition early_drain :: "'w Supervisor \<Rightarrow> EmailTask \<Rightarrow> 'w pool" where
  "early_drain st t =
     \<lparr>spv = st\<lparr>sem := 1\<rparr>, ctxDone = True, taskCh = [], chClosed = False, run_at = Dispatching [],
      launched = [t], working = [], finished = 0, released = 0, leaving = 0, drain_at = Drained\<rparr>"

definition early_launch :: "EmailTask \<Rightarrow> 'w pool \<Rightarrow> 'w pool" where
  "early_launch t p =
     p\<lparr>taskCh := [], spv := (spv p)\<lparr>sem := sem (spv p) + 1\<rparr>, launched := launched p @ [t],
       run_at := Dispatching [], ctxDone := True\<rparr>"

lemma early_launch_run:
  assumes "run_at p = AtSelect" "taskCh p = []" "\<not> chClosed p" "sem (spv p) < capacity cfg"
  shows "(\<lambda>p p'. pool_step d cfg others p p' \<and> drain_at p' = drain_at p)\<^sup>*\<^sup>* p (early_launch t p)"
proof -
  let ?q = "\<lambda>p p'. pool_step d cfg others p p' \<and> drain_at p' = drain_at p"
  let ?p1 = "p\<lparr>taskCh := [t]\<rparr>"
  let ?p2 = "?p1\<lparr>taskCh := [], run_at := Dispatching [t]\<rparr>"
  let ?p3 = "(dispatch_go t ?p2)\<lparr>run_at := Dispatching []\<rparr>"
  note step = rtranclp.rtrancl_into_rtrancl
  have "?q\<^sup>*\<^sup>* p ?p1" using pool_step.arrive [of p cfg d others t] assms by (intro r_into_rtranclp) simp
  then have "?q\<^sup>*\<^sup>* p ?p2" by (rule step) (use pool_step.recv [of ?p1 t "[]" d cfg others] assms in simp)
  then have "?q\<^sup>*\<^sup>* p ?p3" by (rule step) (use pool_step.dispatch [of ?p2 t "[]" cfg d others] assms in \<open>simp add: dispatch_go_def\<close>)
  then have "?q\<^sup>*\<^sup>* p (?p3\<lparr>ctxDone := True\<rparr>)" by (rule step) (simp add: pool_step.cancel)
  then show ?thesis by (simp add: dispatch_go_def early_launch_def)
qed

lemma early_drain_reachable:
  assumes "NewSupervisor cfg w = Some st" and "0 < capacity cfg"
  shows "reachable d cfg others w (early_drain st t)"
proof -
  note idle = NewSupervisor_idle [OF assms(1)]
  let ?p = "early_launch t (new_pool st)"
  have "(\<lambda>p p'. pool_step d cfg others p p' \<and> drain_at p' = drain_at p)\<^sup>*\<^sup>* (new_pool st) ?p"
    by (rule early_launch_run) (use idle assms(2) in \<open>simp_all add: new_pool_def\<close>)
  then have "(pool_step d cfg others)\<^sup>*\<^sup>* (new_pool st) ?p" by (rule rtranclp_mono [THEN predicate2D, rotated]) auto
  then have "reachable d cfg others w ?p" using assms(1) by (auto simp: reachable_def)
  then have "reachable d cfg others w (?p\<lparr>drain_at := Drained\<rparr>)"
    by (rule reachable_step)
      (use pool_step.draining [of ?p d cfg others False 0] in \<open>simp add: early_launch_def new_pool_def idle drain_poll_def\<close>)
  then show ?thesis by (simp add: early_launch_def new_pool_def early_drain_def idle)
qed

lemma sample_pool_size: "PoolSize (CfgWorker sample_config) = 2"
  by (simp add: sample_config_def)

lemma sample_drain_reachable:
  "reachable (stub_deps (ENew ''busy'')) sample_config (=) () (early_drain (idle_supervisor ()) sample_task)"
proof -
  have "NewSupervisor sample_config () = Some ((idle_supervisor ())\<lparr>sem := 0\<rparr>)"
    by (simp add: NewSupervisor_def idle_supervisor_def sample_pool_size word_sless_alt)
  moreover have "0 < capacity sample_config" by (simp add: capacity_def sample_pool_size)
  ultimately show ?thesis
    using early_drain_reachable [of sample_config "()" "(idle_supervisor ())\<lparr>sem := 0\<rparr>" "stub_deps (ENew ''busy'')" "(=)" sample_task]
    by (simp add: early_drain_def)
qed

subsection \<open>Properties\<close>

text \<open>C15: Bounded concurrency, over every interleaving of the dispatch loop, the workers, cancellation and draining: the tokens in
  the semaphore are exactly the goroutines that were launched and have not given theirs back, never more than the
  pool size, so never more tasks than that are processed at once; and never more than that many wait in the channel.\<close>

theorem pool_bounded:
  assumes "reachable d cfg others w s"
  shows "sem (spv s) = length (launched s) + length (working s) + finished s \<and>
    length (working s) \<le> nat (sint (PoolSize (CfgWorker cfg))) \<and> length (taskCh s) \<le> nat (sint (PoolSize (CfgWorker cfg)))"
  using reachable_inv [OF assms] by (auto simp: pool_inv_def busy_def capacity_def)

theorem pool_bounded_witness:
  "sem (spv (early_drain (idle_supervisor ()) sample_task)) = 1 \<and>
   length (working (early_drain (idle_supervisor ()) sample_task)) \<le> nat (sint (PoolSize (CfgWorker sample_config)))"
  using pool_bounded [OF sample_drain_reachable] by (simp add: early_drain_def)

text \<open>The counter is exact: \<open>activeWorkers\<close> counts the goroutines that have counted themselves and not yet uncounted; when it
  is zero, no task is being processed (as long as fewer than \<open>2^64\<close> goroutines exist).\<close>

theorem active_zero_idle:
  assumes "reachable d cfg others w s" and "activeWorkers (spv s) = 0"
    and "length (working s) + finished s + released s < 2 ^ 64"
  shows "working s = [] \<and> finished s = 0 \<and> released s = 0"
proof -
  have "(of_nat (busy s + released s) :: i64) = 0" using reachable_inv [OF assms(1)] assms(2) by (simp add: pool_inv_def)
  then have "2 ^ 64 dvd busy s + released s" by (simp add: word_of_nat_eq_0_iff del: of_nat_add)
  then have "busy s + released s = 0" using assms(3) by (auto simp: busy_def dest: dvd_imp_le)
  then show ?thesis by (simp add: busy_def)
qed

theorem active_zero_idle_witness:
  "activeWorkers (spv (early_drain (idle_supervisor ()) sample_task)) = 0 \<and>
   working (early_drain (idle_supervisor ()) sample_task) = [] \<and> finished (early_drain (idle_supervisor ()) sample_task) = 0"
  using active_zero_idle [OF sample_drain_reachable] by (simp add: early_drain_def idle_supervisor_def)

text \<open>C17: Draining can end: whatever state the pool is in, the goroutines alone can always go on while one is left, each makes at most
  seventeen steps from its launch to its end (twelve of them in the body), and after those \<open>activeWorkers\<close> is zero, so
  \<open>waitForWorkers\<close> and \<open>Drain\<close> return without a timeout.\<close>

theorem workers_drain:
  assumes "reachable d cfg others w s"
  shows "(\<forall>n s'. (worker_step d cfg ^^ n) s s' \<longrightarrow>
      n \<le> 17 * length (launched s) + 16 * length (working s) + 3 * finished s + 2 * released s + leaving s) \<and>
    (\<exists>n s'. (worker_step d cfg ^^ n) s s' \<and> (\<nexists>s''. worker_step d cfg s' s'') \<and> activeWorkers (spv s') = 0)"
proof -
  note inv = reachable_inv [OF assms]
  have "(\<Sum>(t, p)\<leftarrow>xs. acts_left p + 4) \<le> 16 * length xs" if "\<forall>(t, p) \<in> set xs. acts_le p 12" for xs :: "(EmailTask \<times> ('a, outcome \<times> EmailTask) prog) list"
    using that acts_left_le by (induction xs) fastforce+
  then have "work_left s \<le> 17 * length (launched s) + 16 * length (working s) + 3 * finished s + 2 * released s + leaving s"
    using inv by (fastforce simp: work_left_def pool_inv_def)
  then have b: "n \<le> 17 * length (launched s) + 16 * length (working s) + 3 * finished s + 2 * released s + leaving s"
    if "(worker_step d cfg ^^ n) s s'" for n s' using worker_run_bound [OF that inv] by simp
  obtain n s' where r: "(worker_step d cfg ^^ n) s s'" and z: "work_left s' = 0" using worker_run_ends [OF inv] by blast
  have "activeWorkers (spv s') = 0"
    using worker_run_bound [OF r inv] z by (auto simp: pool_inv_def busy_def no_work)
  moreover have "\<nexists>s''. worker_step d cfg s' s''" using no_work_stuck [OF z] by blast
  ultimately show ?thesis using b r by blast
qed

theorem workers_drain_witness:
  "\<exists>n s'. (worker_step (stub_deps (ENew ''busy'')) sample_config ^^ n) (early_drain (idle_supervisor ()) sample_task) s' \<and>
     n \<le> 17 \<and> activeWorkers (spv s') = 0"
proof -
  note w = workers_drain [OF sample_drain_reachable]
  from w obtain n s' where r: "(worker_step (stub_deps (ENew ''busy'')) sample_config ^^ n)
      (early_drain (idle_supervisor ()) sample_task) s'" "activeWorkers (spv s') = 0" by blast
  with w have "n \<le> 17" by (auto simp: early_drain_def)
  with r show ?thesis by blast
qed

text \<open>Adequacy of the action programs. Sequential schedules are \<open>processTask\<close>: a launched worker that runs alone through all its steps leaves the
  supervisor in the state that \<open>processTask\<close> computes.\<close>

theorem lone_worker_is_processTask:
  assumes "launched s = [t]" and "working s = []"
  shows "\<exists>s'. (worker_step d cfg)\<^sup>*\<^sup>* s s' \<and> spv s' = snd (processTask d cfg t (spv s))"
  using run_alone_steps [OF assms] run_alone_processTask by blast

theorem lone_worker_is_processTask_witness:
  "\<exists>s'. (worker_step (stub_deps (ENew ''busy'')) sample_config)\<^sup>*\<^sup>* (early_drain (idle_supervisor ()) sample_task) s' \<and>
     spv s' = snd (processTask (stub_deps (ENew ''busy'')) sample_config sample_task ((idle_supervisor ())\<lparr>sem := 1\<rparr>))"
  using lone_worker_is_processTask [of "early_drain (idle_supervisor ()) sample_task" sample_task
      "stub_deps (ENew ''busy'')" sample_config]
  by (simp add: early_drain_def)

text \<open>Draining misses a worker that was launched but has not counted itself: there is a run in which \<open>Drain\<close> returns nil, after
  which the service closes Redis, although a task has been handed to a goroutine and is yet to be processed.\<close>

theorem Drain_misses_launched:
  assumes "0 < sint (PoolSize (CfgWorker cfg))"
  shows "\<exists>s. reachable d cfg others w s \<and> drain_at s = Drained \<and> launched s = [t] \<and>
    (\<exists>s'. worker_step d cfg s s' \<and> working s' = [(t, worker_prog d cfg t)])"
proof -
  obtain st where st: "NewSupervisor cfg w = Some st"
    using assms by (auto simp: NewSupervisor_def word_sless_alt)
  have c: "0 < capacity cfg" using assms by (simp add: capacity_def)
  let ?s = "early_drain st t"
  have "reachable d cfg others w ?s" by (rule early_drain_reachable [OF st c])
  moreover have "worker_step d cfg ?s (worker_start d cfg [] t [] ?s)" by (rule worker_step.start) (simp add: early_drain_def)
  moreover have "working (worker_start d cfg [] t [] ?s) = [(t, worker_prog d cfg t)]" by (simp add: worker_start_def early_drain_def)
  moreover have "drain_at ?s = Drained" "launched ?s = [t]" by (simp_all add: early_drain_def)
  ultimately show ?thesis by blast
qed

theorem Drain_misses_launched_witness:
  "0 < sint (PoolSize (CfgWorker sample_config)) \<and>
   (\<exists>s. reachable (stub_deps (ENew ''busy'')) sample_config (=) () s \<and> drain_at s = Drained \<and> launched s = [sample_task] \<and>
     (\<exists>s'. worker_step (stub_deps (ENew ''busy'')) sample_config s s' \<and> map fst (working s') = [sample_task]))"
  using Drain_misses_launched [of sample_config "stub_deps (ENew ''busy'')" "(=)" "()" sample_task]
  by (force simp: sample_pool_size)

end
