(* ===== verification/Logging.thy ===== *)
theory Logging
  imports Domain
begin

text \<open>
  internal/observability/logger.go: loggers with their permanent fields, and the context that carries
  them. A context is the chain of its \<open>WithValue\<close> nodes, the innermost first; keys of unexported types of different packages
  are different constructors. What a line looks like and where it goes is the library's business.
\<close>

datatype zlevel = ZDebug | ZInfo | ZWarn | ZError

record logger =
  lvl :: zlevel
  console :: bool
  log_fields :: "(string \<times> string) list"

datatype ctx_key = LoggerKey | ForeignKey string
datatype ctx_value = LoggerValue logger | ForeignValue string

type_synonym go_context = "(ctx_key \<times> ctx_value) list"

text \<open>The package variable \<open>Version\<close> is an argument.\<close>

definition NewLogger :: "string \<Rightarrow> string \<Rightarrow> string \<Rightarrow> logger" where
  "NewLogger Version level format =
     \<lparr>lvl = (if level = ''debug'' then ZDebug else if level = ''warn'' then ZWarn
             else if level = ''error'' then ZError else ZInfo),
      console = (format = ''console''),
      log_fields = [(''service'', ''email-queue''), (''version'', Version)]\<rparr>"

definition WithLogger :: "go_context \<Rightarrow> logger \<Rightarrow> go_context" where
  "WithLogger ctx l = (LoggerKey, LoggerValue l) # ctx"

text \<open>The type assertion fails on a value of another type and on nil; then the global logger is returned.\<close>

definition LoggerFromContext :: "logger \<Rightarrow> go_context \<Rightarrow> logger" where
  "LoggerFromContext global ctx =
     (case map_of ctx LoggerKey of Some (LoggerValue l) \<Rightarrow> l | _ \<Rightarrow> global)"

definition WithTaskFields :: "logger \<Rightarrow> string \<Rightarrow> string \<Rightarrow> string \<Rightarrow> i64 \<Rightarrow> logger" where
  "WithTaskFields l taskID tenantID taskType attempt =
     l\<lparr>log_fields := log_fields l @
        [(''task_id'', taskID), (''tenant_id'', tenantID), (''task_type'', taskType),
         (''attempt'', show_int (sint attempt))]\<rparr>"

text \<open>Values of other packages never hide a logger, whatever their names.\<close>

lemma foreign_values_ignored:
  "(\<And>k v. (k, v) \<in> set ctx' \<Longrightarrow> k \<noteq> LoggerKey) \<Longrightarrow> LoggerFromContext g (ctx' @ ctx) = LoggerFromContext g ctx"
  by (induction ctx') (fastforce simp: LoggerFromContext_def)+

text \<open>
  The logger a context carries is the last one stored, and the values other packages put on top of it, under whatever
  names, do not hide it; a context without one yields the global logger. A logger derived for a task has the six fields
  every line must have, each with the value given.
\<close>

theorem logger_of_context:
  "LoggerFromContext g (map (\<lambda>(n, v). (ForeignKey n, v)) vs @ WithLogger ctx l) = l \<and>
   LoggerFromContext g (map (\<lambda>(n, v). (ForeignKey n, v)) vs) = g \<and>
   map fst (log_fields (WithTaskFields (NewLogger ver level fmt) i tn ty n)) =
     [''service'', ''version'', ''task_id'', ''tenant_id'', ''task_type'', ''attempt''] \<and>
   lvl (WithTaskFields l i tn ty n) = lvl l"
proof -
  have "LoggerFromContext g (map (\<lambda>(n, v). (ForeignKey n, v)) vs @ c) = LoggerFromContext g c" for c
    by (rule foreign_values_ignored) auto
  from this [of "WithLogger ctx l"] this [of "[]"] show ?thesis
    by (simp add: WithTaskFields_def NewLogger_def) (simp add: LoggerFromContext_def WithLogger_def)
qed

end
