(* ===== verification/Service.thy ===== *)
theory Service
  imports Config_Load Client Http Delivery Metrics Pool Logging
begin

text \<open>
  cmd/server/main.go: the start of the service and its end, with internal/observability/tracing.go as far
  as it decides anything. The libraries, the process environment and the
  network are an argument.
\<close>

record 's host =
  process_env :: os_env
  build_version :: string
  lib_redis :: "'s go_redis"
  lib_otlp :: "string \<Rightarrow> 's \<Rightarrow> go_error option \<times> 's"
  lib_prom :: "collector list \<Rightarrow> 's \<Rightarrow> 's option"
  adapter_env :: "'s env"
  web :: "'s http_env"
  stub_source :: "'s stub_env"

subsection \<open>Tracing\<close>

text \<open>\<open>False\<close>: the provider that discards all spans, which needs no connection.\<close>

definition InitTracer :: "'s host \<Rightarrow> Config \<Rightarrow> 's \<Rightarrow> (go_error + bool) \<times> 's" where
  "InitTracer h cfg s =
     (if OTELEndpoint (CfgObservability cfg) = [] then (Inr False, s)
      else let (err, s1) = lib_otlp h (OTELEndpoint (CfgObservability cfg)) s
           in case err of
                Some er \<Rightarrow> (Inl (EWrap ''observability: create OTLP gRPC exporter'' er), s1)
              | None \<Rightarrow> (Inr True, s1))"

subsection \<open>Start\<close>

definition choose_sender :: "'s host \<Rightarrow> Config \<Rightarrow> 's \<Rightarrow> 's EmailSender \<times> 's" where
  "choose_sender h cfg s =
     (if SendGridAPIKey (CfgEmail cfg) \<noteq> [] then
        let (sg, br) = NewSendGridSender (SendGridAPIKey (CfgEmail cfg)) (FromEmail (CfgEmail cfg)) (FromName (CfgEmail cfg))
        in (SendGridEmailSender (adapter_env h) (web h) sg, set_breaker (web h) br s)
      else (StubSender (stub_source h)
              \<lparr>failRate = StubFailRate (CfgEmail cfg), latency = StubLatency (CfgEmail cfg)\<rparr>, s))"

record 's service =
  svc_cfg :: Config
  svc_logger :: logger
  svc_tracing :: bool
  svc_redis :: redis_options
  svc_scripts :: ScriptRegistry
  svc_deps :: "'s deps"
  svc_supervisor :: "'s Supervisor"
  svc_dlq_keys :: "string list"
  svc_router :: Router

datatype 's boot =
  ConfigLoadFailed go_error
| ConfigInvalid "string list"
| TracerFailed go_error
| RedisFailed go_error
| ScriptsFailed go_error
| MetricsPanic
| SupervisorPanic
| Up "'s service"

definition wire ::
  "'s host \<Rightarrow> Config \<Rightarrow> bool \<Rightarrow> redis_options \<Rightarrow> ScriptRegistry \<Rightarrow> 's \<Rightarrow> 's boot \<times> 's" where
  "wire h cfg tracing opts scr s =
     (case lib_prom h recorder_collectors s of
        None \<Rightarrow> (MetricsPanic, s)
      | Some s1 \<Rightarrow>
          let (snd', s2) = choose_sender h cfg s1 in
          (case NewSupervisor cfg s2 of
             None \<Rightarrow> (SupervisorPanic, s2)
           | Some spv' \<Rightarrow>
               (Up \<lparr>svc_cfg = cfg,
                    svc_logger = NewLogger (build_version h) (LogLevel (CfgObservability cfg)) (LogFormat (CfgObservability cfg)),
                    svc_tracing = tracing, svc_redis = opts, svc_scripts = scr,
                    svc_deps = redis_deps (adapter_env h) cfg scr snd', svc_supervisor = spv',
                    svc_dlq_keys = [], svc_router = NewRouter cfg\<rparr>, s2)))"

definition main_boot :: "'s host \<Rightarrow> 's \<Rightarrow> 's boot \<times> 's" where
  "main_boot h s =
     (case Load (process_env h) of
        Inl err \<Rightarrow> (ConfigLoadFailed err, s)
      | Inr cfg \<Rightarrow>
     (case Config_Validate cfg of
        Some errs \<Rightarrow> (ConfigInvalid errs, s)
      | None \<Rightarrow>
          let (tr, s1) = InitTracer h cfg s in
          case tr of
            Inl err \<Rightarrow> (TracerFailed err, s1)
          | Inr tracing \<Rightarrow>
              let (rc, s2) = NewRedisClient (lib_redis h) cfg s1 in
              case rc of
                Inl err \<Rightarrow> (RedisFailed err, s2)
              | Inr opts \<Rightarrow>
                  let (sc, s3) = LoadScripts (adapter_env h) s2 in
                  case sc of
                    Inl err \<Rightarrow> (ScriptsFailed err, s3)
                  | Inr scr \<Rightarrow> wire h cfg tracing opts scr s3))"

subsection \<open>The goroutines\<close>

definition run_scheduler :: "nat \<Rightarrow> 's host \<Rightarrow> 's service \<Rightarrow> 's \<Rightarrow> (go_error option \<times> 's) option" where
  "run_scheduler ticks h svc s = DelayedScheduler_Run ticks (adapter_env h) (svc_cfg svc) s"

definition run_monitor :: "nat \<Rightarrow> 's host \<Rightarrow> 's service \<Rightarrow> 's \<Rightarrow> 's" where
  "run_monitor ticks h svc s =
     DLQMonitor_Run ticks (DLQDepth (adapter_env h)) (record_metric (adapter_env h)) (svc_cfg svc) (svc_dlq_keys svc) s"

definition run_workers :: "'s service \<Rightarrow> run_start \<times> 's Supervisor" where
  "run_workers svc = Run_start (svc_deps svc) (svc_cfg svc) (svc_supervisor svc)"

subsection \<open>End\<close>

text \<open>
  The shutdown coordinator: every step runs, whatever the ones before returned. The two \<open>Shutdown\<close>
  calls, \<open>Drain\<close> and the tracer are arguments; the result lists what is logged as a warning.
\<close>

record 's stoppers =
  stop_http :: "'s \<Rightarrow> go_error option \<times> 's"
  stop_metrics :: "'s \<Rightarrow> go_error option \<times> 's"
  stop_workers :: "'s \<Rightarrow> go_error option \<times> 's"
  stop_tracer :: "'s \<Rightarrow> go_error option \<times> 's"

definition shutdown_coordinator ::
  "'s host \<Rightarrow> 's stoppers \<Rightarrow> 's service \<Rightarrow> 's \<Rightarrow> ('s service \<times> go_error list) \<times> 's" where
  "shutdown_coordinator h st svc s =
     (let svc1 = svc\<lparr>svc_router := SetReady False (svc_router svc)\<rparr>;
          (e1, s1) = stop_http st s;
          (e2, s2) = stop_metrics st s1;
          (e3, s3) = stop_workers st s2;
          (e4, s4) = Lifecycle_Close (lib_redis h) (svc_redis svc) s3;
          (e5, s5) = stop_tracer st s4
      in ((svc1, concat (map (\<lambda>x. case x of None \<Rightarrow> [] | Some er \<Rightarrow> [er]) [e1, e2, e3, e4, e5])), s5))"

subsection \<open>Scripts\<close>

lemma script_load_keeps:
  assumes "redis_effs (SCRIPT_LOAD scr) k k'" and "scripts k sha = Some x"
  shows "scripts k' sha = Some x"
  by (rule redis_effs_induct [OF assms(1), where P = "\<lambda>k'. scripts k' sha = Some x"]) (use assms(2) in auto)

context redis_env begin

lemma script_load:
  assumes "env_client e (SCRIPT_LOAD scr) s = (r, s')" and "reply_sha r = Inr sha"
  shows "scripts (ks s') sha = Some scr"
proof -
  from assms(2) have "r = Inr (RSha sha)" by (auto simp: reply_sha_def split: sum.splits reply.splits)
  with client_ok [of "SCRIPT_LOAD scr" s "RSha sha" s'] assms(1) show ?thesis by auto
qed

lemma LoadScripts_loaded:
  assumes "LoadScripts e s = (Inr scr, s')"
  shows "scripts_loaded scr (ks s')"
proof -
  obtain r1 s1 where l1: "env_client e (SCRIPT_LOAD IdempotencyLua) s = (r1, s1)" by fastforce
  obtain r2 s2 where l2: "env_client e (SCRIPT_LOAD ReclaimStaleLua) s1 = (r2, s2)" by fastforce
  from assms l1 l2 have sh: "reply_sha r1 = Inr (IdempotencySHA scr)" "reply_sha r2 = Inr (ReclaimStaleSHA scr)" "s' = s2"
    by (auto simp: LoadScripts_def Let_def split: sum.splits)
  show ?thesis
    using script_load_keeps [OF client_effs [OF l2] script_load [OF l1 sh(1)]] script_load [OF l2 sh(2)] sh(3)
    by (simp add: scripts_loaded_def)
qed

end
subsection \<open>What a start establishes\<close>

locale host_laws = redis_env "adapter_env h" ks
  for h :: "'s host" and ks :: "'s \<Rightarrow> keyspace" +
  assumes prom_ks: "lib_prom h cs s = Some s' \<Longrightarrow> ks s' = ks s"
    and cell_ks: "ks (set_breaker (web h) b s) = ks s"
begin

lemma choose_sender_ks: "choose_sender h cfg s = (snd', s') \<Longrightarrow> ks s' = ks s"
  by (auto simp: choose_sender_def cell_ks split: if_splits prod.splits)

lemma wire_up:
  assumes "wire h cfg tracing opts scr s = (Up svc, s')"
  shows "svc_cfg svc = cfg \<and> svc_scripts svc = scr \<and> svc_redis svc = opts \<and> ks s' = ks s \<and>
    NewSupervisor cfg s' = Some (svc_supervisor svc) \<and> svc_router svc = NewRouter cfg \<and> svc_dlq_keys svc = [] \<and>
    (\<exists>s1. svc_deps svc = redis_deps (adapter_env h) cfg scr (fst (choose_sender h cfg s1)))"
proof -
  obtain s1 where s1: "lib_prom h recorder_collectors s = Some s1"
    using assms by (auto simp: wire_def split: option.splits)
  obtain snd' s2 where c: "choose_sender h cfg s1 = (snd', s2)" by fastforce
  obtain sp where "NewSupervisor cfg s2 = Some sp" using assms s1 c by (auto simp: wire_def split: option.splits)
  then show ?thesis
    using assms s1 c prom_ks [OF s1] choose_sender_ks [OF c] by (auto simp: wire_def intro: exI [of _ s1])
qed

lemma main_boot_up:
  assumes "main_boot h s = (Up svc, s')"
  shows "Load (process_env h) = Inr (svc_cfg svc) \<and> config_ok (svc_cfg svc) \<and> scripts_loaded (svc_scripts svc) (ks s') \<and>
    svc_redis svc = client_options (svc_cfg svc) \<and>
    NewSupervisor (svc_cfg svc) s' = Some (svc_supervisor svc) \<and> svc_router svc = NewRouter (svc_cfg svc) \<and>
    svc_dlq_keys svc = [] \<and>
    (\<exists>s1. svc_deps svc = redis_deps (adapter_env h) (svc_cfg svc) (svc_scripts svc) (fst (choose_sender h (svc_cfg svc) s1)))"
proof -
  obtain cfg where l: "Load (process_env h) = Inr cfg" using assms by (auto simp: main_boot_def split: sum.splits)
  have v: "Config_Validate cfg = None" using assms l by (auto simp: main_boot_def split: option.splits)
  obtain tr s1 where t: "InitTracer h cfg s = (Inr tr, s1)"
    using assms l v by (cases "InitTracer h cfg s") (auto simp: main_boot_def split: sum.splits)
  obtain opts s2 where r: "NewRedisClient (lib_redis h) cfg s1 = (Inr opts, s2)"
    using assms l v t by (cases "NewRedisClient (lib_redis h) cfg s1") (auto simp: main_boot_def split: sum.splits)
  obtain scr s3 where c: "LoadScripts (adapter_env h) s2 = (Inr scr, s3)"
    using assms l v t r by (cases "LoadScripts (adapter_env h) s2") (auto simp: main_boot_def split: sum.splits)
  have w: "wire h cfg tr opts scr s3 = (Up svc, s')" using assms l v t r c by (simp add: main_boot_def)
  have "opts = client_options cfg" using r by (auto simp: NewRedisClient_def Let_def split: prod.splits option.splits)
  with wire_up [OF w] l v LoadScripts_loaded [OF c] show ?thesis by (auto simp: Config_Validate_ok)
qed

end

text \<open>A host in memory.\<close>

definition mem_host :: "os_env \<Rightarrow> mem_http host" where
  "mem_host os =
     \<lparr>process_env = os, build_version = ''dev'',
      lib_redis = \<lparr>lib_Ping = (\<lambda>o' d s. (None, s)), lib_Close = (\<lambda>o' s. (None, s)),
        lib_PoolStats = (\<lambda>o' s. \<lparr>Hits = 0, Misses = 0, Timeouts = 0, TotalConns = 0, IdleConns = 0, StaleConns = 0\<rparr>),
        lib_Register = (\<lambda>ds s. (None, s))\<rparr>,
      lib_otlp = (\<lambda>url s. (None, s)), lib_prom = (\<lambda>cs s. Some s), adapter_env = worker_env True, web = mem_http_env,
      stub_source = \<lparr>rng_Int63n = (\<lambda>n s. (0, s)), rng_Float64 = (\<lambda>s. (mem_rand s, s)), timer_or_done = (\<lambda>d s. (None, s))\<rparr>\<rparr>"

interpretation mem_host: host_laws "mem_host os" mem_ks for os
proof -
  have "redis_env (adapter_env (mem_host os)) mem_ks" using worker_env.redis_env_axioms by (simp add: mem_host_def)
  then show "host_laws (mem_host os) mem_ks"
    by (intro host_laws.intro host_laws_axioms.intro) (auto simp: mem_host_def mem_http_env_def)
qed

text \<open>A booted service whose dispatch loop can start: Redis is the one in memory, there are no faults, and what it holds is untouched.\<close>

definition mem_up :: "Config \<Rightarrow> keyspace \<Rightarrow> mem_http service \<Rightarrow> bool" where
  "mem_up c k svc \<longleftrightarrow> svc_cfg svc = c \<and> svc_scripts svc = sample_scripts \<and> consumer (svc_deps svc) = RedisConsumer (worker_env True) c \<and>
     mem_faults (world (svc_supervisor svc)) = [] \<and>
     mem_ks (world (svc_supervisor svc)) = k\<lparr>scripts := [''sha-idem'' \<mapsto> IdempotencyLua, ''sha-reclaim'' \<mapsto> ReclaimStaleLua]\<rparr>"

lemma mem_boot:
  assumes "Load os = Inr c" and "config_ok c" and "OTELEndpoint (CfgObservability c) = []"
  shows "\<exists>svc s'. main_boot (mem_host os) (http_world k [] [] b) = (Up svc, s') \<and> mem_up c k svc"
proof -
  have ns: "NewSupervisor c w \<noteq> None" for w :: mem_http
    using assms(2) by (auto simp: NewSupervisor_def config_ok_def word_sless_alt)
  let ?w = "http_world k [] [] b"
  have upd: "[''sha-idem'' \<mapsto> IdempotencyLua, ''sha-reclaim'' \<mapsto> ReclaimStaleLua](''sha-idem'' \<mapsto> IdempotencyLua) =
      [''sha-idem'' \<mapsto> IdempotencyLua, ''sha-reclaim'' \<mapsto> ReclaimStaleLua]" by (auto simp: fun_eq_iff)
  have sc: "\<exists>s'. LoadScripts (worker_env True) ?w = (Inr sample_scripts, s') \<and> mem_faults s' = [] \<and> mem_ks s' = mem_ks ?w"
    by (simp add: LoadScripts_def Let_def mem_eval http_world_def reply_sha_def sample_scripts_def upd)
  then obtain s' where sc: "LoadScripts (worker_env True) ?w = (Inr sample_scripts, s')"
    and f: "mem_faults s' = []" "mem_ks s' = mem_ks ?w" by blast
  obtain snd' s2 where ch: "choose_sender (mem_host os) c s' = (snd', s2)" by fastforce
  have f2: "mem_faults s2 = []" "mem_ks s2 = mem_ks ?w"
    using ch f by (auto simp: choose_sender_def mem_host_def mem_http_env_def split: if_splits prod.splits)
  obtain sp where sp: "NewSupervisor c s2 = Some sp" using ns [of s2] by blast
  have "lib_prom (mem_host os) recorder_collectors s' = Some s'" by (simp add: mem_host_def)
  moreover have "adapter_env (mem_host os) = worker_env True" by (simp add: mem_host_def)
  ultimately have "\<exists>svc s''. wire (mem_host os) c False (client_options c) sample_scripts s' = (Up svc, s'') \<and> mem_up c k svc"
    using ch sp NewSupervisor_idle [OF sp] f2 by (simp add: wire_def mem_up_def redis_deps_def http_world_def)
  then show ?thesis
    using assms sc
    by (simp add: main_boot_def Config_Validate_ok [THEN iffD2] InitTracer_def NewRedisClient_def registerPoolMetrics_def mem_host_def)
qed

subsection \<open>Zero intervals\<close>

lemma parse_zero: "Getenv os key = ''0s'' \<Longrightarrow> parseDuration os key d = 0"
  using ParseDuration_whole [of "''s''" "10 ^ 9" 0]
  by (simp add: parseDuration_def Let_def unitMap_def unit_char_def is_digit_def show_nat.simps digit_char_def)

lemma Load_zero_interval:
  assumes "Load os = Inr c"
  shows "Getenv os ''RETRY_SCHEDULER_INTERVAL'' = ''0s'' \<Longrightarrow> SchedulerInterval (CfgRetry c) = 0"
    "Getenv os ''WORKER_CLAIM_IDLE_THRESHOLD'' = ''0s'' \<Longrightarrow> ClaimIdleThreshold (CfgWorker c) = 0"
  using assms by (auto simp: Load_def parse_zero split: sum.splits)

lemma monitor_no_keys: "DLQMonitor_Run n f m cfg [] s = s"
  by (induction n) simp_all

subsection \<open>Properties\<close>

text \<open>C18: A service that is up stands on what the other results assume: the configuration is the one of the environment and is valid, the
  client has its options from it, both Lua scripts are in Redis under the digests the store uses, the dispatch loop starts from an idle pool with at least one place,
  mail goes to SendGrid if a key is set and to the stub otherwise, and the readiness probe still says no.\<close>

theorem startup_establishes:
  assumes "host_laws h ks" and "main_boot h s = (Up svc, s')"
  shows "Load (process_env h) = Inr (svc_cfg svc) \<and> config_ok (svc_cfg svc) \<and>
    scripts_loaded (svc_scripts svc) (ks s') \<and> 0 < sint (DLQTTLSeconds (CfgRetry (svc_cfg svc))) \<and>
    reachable (svc_deps svc) (svc_cfg svc) others s' (new_pool (svc_supervisor svc)) \<and> 0 < capacity (svc_cfg svc) \<and>
    (SendGridAPIKey (CfgEmail (svc_cfg svc)) \<noteq> [] \<longrightarrow>
       sender (svc_deps svc) = SendGridEmailSender (adapter_env h) (web h)
         \<lparr>apiKey = SendGridAPIKey (CfgEmail (svc_cfg svc)), fromEmail = FromEmail (CfgEmail (svc_cfg svc)),
          fromName = FromName (CfgEmail (svc_cfg svc)), baseURL = ''https://api.sendgrid.com''\<rparr>) \<and>
    (SendGridAPIKey (CfgEmail (svc_cfg svc)) = [] \<longrightarrow>
       sender (svc_deps svc) = StubSender (stub_source h)
         \<lparr>failRate = StubFailRate (CfgEmail (svc_cfg svc)), latency = StubLatency (CfgEmail (svc_cfg svc))\<rparr>) \<and>
    svc_redis svc = client_options (svc_cfg svc) \<and> \<not> IsReady (svc_router svc)"
proof -
  note up = host_laws.main_boot_up [OF assms]
  then have "0 < capacity (svc_cfg svc)" by (simp add: config_ok_def capacity_def)
  moreover have "reachable (svc_deps svc) (svc_cfg svc) others s' (new_pool (svc_supervisor svc))"
    by (rule reachable_new) (use up in blast)
  moreover have "\<not> IsReady (svc_router svc)" using up by (simp add: NewRouter_def IsReady_def)
  ultimately show ?thesis
    using up by (auto simp: config_ok_def choose_sender_def redis_deps_def NewSendGridSender_def sendGridDefaultBaseURL_def)
qed

text \<open>Two settings that validation does not check take the service down after its start: with an interval of zero the delayed scheduler panics in
  \<open>time.NewTicker\<close>, and with an idle threshold of zero so does the dispatch loop, or it ends with an error.\<close>

theorem zero_interval_panics:
  assumes "host_laws h ks" and "main_boot h s = (Up svc, s')"
  shows "(Getenv (process_env h) ''RETRY_SCHEDULER_INTERVAL'' = ''0s'' \<longrightarrow> run_scheduler ticks h svc w = None) \<and>
    (Getenv (process_env h) ''WORKER_CLAIM_IDLE_THRESHOLD'' = ''0s'' \<longrightarrow> fst (run_workers svc) \<noteq> Started)"
proof -
  have l: "Load (process_env h) = Inr (svc_cfg svc)" using host_laws.main_boot_up [OF assms] by blast
  show ?thesis
    using Load_zero_interval [OF l]
    by (auto simp: run_scheduler_def DelayedScheduler_Run_def run_workers_def Run_start_def Let_def
        split: prod.splits option.splits)
qed

text \<open>The monitor of the dead-letter queues that the service starts looks at nothing: it is given no keys, so however often it ticks, no depth is
  read and no gauge is set.\<close>

theorem monitor_watches_nothing:
  assumes "host_laws h ks" and "main_boot h s = (Up svc, s')"
  shows "run_monitor ticks h svc w = w"
  using host_laws.main_boot_up [OF assms] by (simp add: run_monitor_def monitor_no_keys)

text \<open>A log level in capitals is accepted and then ignored.\<close>

lemma log_level_case:
  "Config_Validate (c\<lparr>CfgObservability := (CfgObservability c)\<lparr>LogLevel := ''ERROR''\<rparr>\<rparr>) =
     Config_Validate (c\<lparr>CfgObservability := (CfgObservability c)\<lparr>LogLevel := ''error''\<rparr>\<rparr>) \<and>
   lvl (NewLogger ver ''ERROR'' f) = ZInfo \<and> lvl (NewLogger ver ''error'' f) = ZError"
proof -
  have "ToLower ''ERROR'' = ''error''" "ToLower ''error'' = ''error''"
    by (simp_all add: lower_ascii_def char_of_def bit_simps)
  then show ?thesis by (simp add: Config_Validate_def NewLogger_def Let_def out_of_ports_def out_of_unit_def)
qed

subsection \<open>Witnesses\<close>

definition sample_start :: "(string \<times> string) list" where
  "sample_start = [(''REDIS_URL'', ''redis:6379''), (''API_KEYS'', ''key1'')]"

definition zero_start :: "(string \<times> string) list" where
  "zero_start = (''RETRY_SCHEDULER_INTERVAL'', ''0s'') # (''WORKER_CLAIM_IDLE_THRESHOLD'', ''0s'') # sample_start"

definition sendgrid_start :: "(string \<times> string) list" where
  "sendgrid_start = (''SENDGRID_API_KEY'', ''sg-key'') # sample_start"

lemma sample_loads:
  assumes "kvs = sample_start \<or> kvs = zero_start \<or> kvs = sendgrid_start" and "Load (sample_os kvs) = Inr c"
  shows "config_ok c" and "OTELEndpoint (CfgObservability c) = []"
    and "ConsumerGroup (CfgWorker c) = ''email-workers''" and "DLQTTLSeconds (CfgRetry c) = 604800"
proof -
  let ?os = "sample_os kvs"
  have h: "Hostname ?os = Inr ''pod-1''" by (simp add: sample_os_def)
  have u: "\<forall>k. k \<notin> required_env \<union> unchecked_env \<longrightarrow> Getenv ?os k = []"
    using assms(1) by (auto simp: sample_os_def sample_start_def zero_start_def sendgrid_start_def required_env_def unchecked_env_def)
  show "config_ok c" using Load_defaults(2) [OF h u assms(2)] assms(1)
    by (auto simp: sample_os_def sample_start_def zero_start_def sendgrid_start_def parseAPIKeys_sample)
  show "ConsumerGroup (CfgWorker c) = ''email-workers''" "DLQTTLSeconds (CfgRetry c) = 604800"
    using Load_defaults(3,4) [OF h u assms(2)] by simp_all
  have "Getenv ?os ''OTEL_EXPORTER_OTLP_ENDPOINT'' = []" using u by (simp add: required_env_def unchecked_env_def)
  then show "OTELEndpoint (CfgObservability c) = []"
    using assms(2) by (auto simp: Load_def defaultConsumerName_def h getEnv_def)
qed

lemma sample_boots:
  assumes "kvs = sample_start \<or> kvs = zero_start \<or> kvs = sendgrid_start"
  shows "\<exists>c svc s'. main_boot (mem_host (sample_os kvs)) (http_world k [] [] b) = (Up svc, s') \<and>
    Load (sample_os kvs) = Inr c \<and> mem_up c k svc"
proof -
  obtain c where c: "Load (sample_os kvs) = Inr c" by (simp add: Load_def defaultConsumerName_def sample_os_def)
  then show ?thesis using mem_boot [OF c sample_loads(1,2) [OF assms c]] by blast
qed

definition booted :: "(string \<times> string) list \<Rightarrow> mem_http service \<Rightarrow> bool" where
  "booted kvs svc \<longleftrightarrow>
     fst (main_boot (mem_host (sample_os kvs)) (http_world empty_ks [] [] (newCircuitBreaker 5 1))) = Up svc"

lemma sample_booted:
  assumes "kvs = sample_start \<or> kvs = zero_start"
  obtains svc s' where "main_boot (mem_host (sample_os kvs)) (http_world empty_ks [] [] (newCircuitBreaker 5 1)) = (Up svc, s')"
    and "booted kvs svc"
  using sample_boots [of kvs empty_ks "newCircuitBreaker 5 1"] assms by (auto simp: booted_def)

theorem startup_establishes_witness:
  "\<exists>svc. booted sample_start svc \<and> config_ok (svc_cfg svc) \<and> 0 < capacity (svc_cfg svc) \<and> \<not> IsReady (svc_router svc)"
proof -
  obtain svc s' where "main_boot (mem_host (sample_os sample_start)) (http_world empty_ks [] [] (newCircuitBreaker 5 1)) = (Up svc, s')"
    and b: "booted sample_start svc" using sample_booted by blast
  from startup_establishes [OF mem_host.host_laws_axioms this(1)] b show ?thesis by blast
qed

theorem zero_interval_panics_witness:
  "\<exists>svc. booted zero_start svc \<and> run_scheduler 3 (mem_host (sample_os zero_start)) svc (http_world empty_ks [] [] (newCircuitBreaker 5 1)) = None \<and>
     fst (run_workers svc) \<noteq> Started"
proof -
  obtain svc s' where "main_boot (mem_host (sample_os zero_start)) (http_world empty_ks [] [] (newCircuitBreaker 5 1)) = (Up svc, s')"
    and b: "booted zero_start svc" using sample_booted by blast
  from zero_interval_panics [OF mem_host.host_laws_axioms this(1)] b show ?thesis
    by (auto simp: mem_host_def sample_os_def zero_start_def)
qed

theorem monitor_watches_nothing_witness:
  "\<exists>svc. booted sample_start svc \<and>
     run_monitor 5 (mem_host (sample_os sample_start)) svc (http_world empty_ks [] [] (newCircuitBreaker 5 1)) =
       http_world empty_ks [] [] (newCircuitBreaker 5 1)"
proof -
  obtain svc s' where "main_boot (mem_host (sample_os sample_start)) (http_world empty_ks [] [] (newCircuitBreaker 5 1)) = (Up svc, s')"
    and b: "booted sample_start svc" using sample_booted by blast
  from monitor_watches_nothing [OF mem_host.host_laws_axioms this(1)] b show ?thesis by blast
qed

end
