(* ===== verification/Lifecycle.thy ===== *)
theory Lifecycle
  imports Service
begin

text \<open>
  cmd/server/main.go: the life of the process from the launch of its six goroutines to the exit code, as a step relation over
  all their interleavings: the API server, the metrics server, the supervisor with its workers (theory
  \<open>Pool\<close>), the retry scheduler, the monitor and the shutdown coordinator, under an errgroup whose
  context ends with the first error or with SIGTERM.
\<close>

subsection \<open>The machine\<close>

datatype server_pc = SrvStart | SrvListen | SrvServe | SrvReturned
datatype sup_pc = SupLaunched | SupRunning | SupReturned
datatype ticker_pc = TickStart | Ticking | TickReturned
datatype coord_pc = AwaitDone | MarkUnready | ShutAPI | ShutMetrics | AwaitDrain | CloseRedis | FlushSpans | CoordReturned
datatype exit_status = ExitOK | ExitError go_error | Crashed string

record 's proc =
  pool_of :: "'s pool"
  router :: Router
  sup_at :: sup_pc
  api :: server_pc
  api_shut :: bool
  metrics_srv :: server_pc
  metrics_shut :: bool
  sched :: ticker_pc
  monitor :: ticker_pc
  coord :: coord_pc
  group_err :: "go_error option"
  exit_status :: "exit_status option"

definition start_proc :: "'s service \<Rightarrow> 's proc" where
  "start_proc svc =
     \<lparr>pool_of = new_pool (svc_supervisor svc), router = svc_router svc, sup_at = SupLaunched, api = SrvStart, api_shut = False,
      metrics_srv = SrvStart, metrics_shut = False, sched = TickStart, monitor = TickStart, coord = AwaitDone,
      group_err = None, exit_status = None\<rparr>"

text \<open>\<open>errgroup\<close>: the first error is kept and cancels the context.\<close>

definition cancel_ctx :: "'s proc \<Rightarrow> 's proc" where
  "cancel_ctx s = s\<lparr>pool_of := (pool_of s)\<lparr>ctxDone := True\<rparr>\<rparr>"

definition group_return :: "go_error option \<Rightarrow> 's proc \<Rightarrow> 's proc" where
  "group_return err s =
     (case err of
        None \<Rightarrow> s
      | Some er \<Rightarrow> (case group_err s of None \<Rightarrow> cancel_ctx (s\<lparr>group_err := Some er\<rparr>) | Some _ \<Rightarrow> s))"

abbreviation ctx_done :: "'s proc \<Rightarrow> bool" where
  "ctx_done s \<equiv> ctxDone (pool_of s)"

definition world_of :: "'s proc \<Rightarrow> 's" where
  "world_of s = world (spv (pool_of s))"

definition put_world :: "'s \<Rightarrow> 's proc \<Rightarrow> 's proc" where
  "put_world w s = s\<lparr>pool_of := (pool_of s)\<lparr>spv := (spv (pool_of s))\<lparr>world := w\<rparr>\<rparr>\<rparr>"

definition put_drain :: "drain_pc \<Rightarrow> 's proc \<Rightarrow> 's proc" where
  "put_drain x s = s\<lparr>pool_of := (pool_of s)\<lparr>drain_at := x\<rparr>\<rparr>"

definition put_spv :: "'s Supervisor \<Rightarrow> 's proc \<Rightarrow> 's proc" where
  "put_spv st s = s\<lparr>pool_of := (pool_of s)\<lparr>spv := st\<rparr>\<rparr>"

definition all_returned :: "'s proc \<Rightarrow> bool" where
  "all_returned s \<longleftrightarrow> api s = SrvReturned \<and> metrics_srv s = SrvReturned \<and> sup_at s = SupReturned \<and>
     sched s = TickReturned \<and> monitor s = TickReturned \<and> coord s = CoordReturned"

definition exit_of :: "go_error option \<Rightarrow> exit_status" where
  "exit_of err = (case err of None \<Rightarrow> ExitOK | Some er \<Rightarrow> ExitError er)"

text \<open>
  A server that has been told to shut down returns \<open>ErrServerClosed\<close>, which is no error; it can still fail to bind.
  A panic in a goroutine ends the process.
\<close>

inductive live_step :: "'s host \<Rightarrow> 's service \<Rightarrow> ('s \<Rightarrow> 's \<Rightarrow> bool) \<Rightarrow> 's proc \<Rightarrow> 's proc \<Rightarrow> bool" for h svc others where
  sig_term: "live_step h svc others s (cancel_ctx s)"
| elsewhere: "others (world_of s) w \<Longrightarrow> live_step h svc others s (put_world w s)"
| api_ready: "api s = SrvStart \<Longrightarrow> live_step h svc others s (s\<lparr>router := SetReady True (router s), api := SrvListen\<rparr>)"
| api_listen: "api s = SrvListen \<Longrightarrow> \<not> api_shut s \<Longrightarrow> live_step h svc others s (s\<lparr>api := SrvServe\<rparr>)"
| api_fails: "api s = SrvListen \<or> api s = SrvServe \<and> \<not> api_shut s \<Longrightarrow>
    live_step h svc others s (group_return (Some (EWrap ''http server'' er)) (s\<lparr>api := SrvReturned\<rparr>))"
| api_closed: "api s = SrvListen \<or> api s = SrvServe \<Longrightarrow> api_shut s \<Longrightarrow>
    live_step h svc others s (group_return None (s\<lparr>api := SrvReturned\<rparr>))"
| metrics_ready: "metrics_srv s = SrvStart \<Longrightarrow> live_step h svc others s (s\<lparr>metrics_srv := SrvListen\<rparr>)"
| metrics_listen: "metrics_srv s = SrvListen \<Longrightarrow> \<not> metrics_shut s \<Longrightarrow> live_step h svc others s (s\<lparr>metrics_srv := SrvServe\<rparr>)"
| metrics_fails: "metrics_srv s = SrvListen \<or> metrics_srv s = SrvServe \<and> \<not> metrics_shut s \<Longrightarrow>
    live_step h svc others s (group_return (Some (EWrap ''metrics server'' er)) (s\<lparr>metrics_srv := SrvReturned\<rparr>))"
| metrics_closed: "metrics_srv s = SrvListen \<or> metrics_srv s = SrvServe \<Longrightarrow> metrics_shut s \<Longrightarrow>
    live_step h svc others s (group_return None (s\<lparr>metrics_srv := SrvReturned\<rparr>))"
| sup_start: "sup_at s = SupLaunched \<Longrightarrow> Run_start (svc_deps svc) (svc_cfg svc) (spv (pool_of s)) = (Started, st) \<Longrightarrow>
    live_step h svc others s ((put_spv st s)\<lparr>sup_at := SupRunning\<rparr>)"
| sup_fails: "sup_at s = SupLaunched \<Longrightarrow> Run_start (svc_deps svc) (svc_cfg svc) (spv (pool_of s)) = (StartFailed er, st) \<Longrightarrow>
    live_step h svc others s (group_return (Some er) ((put_spv st s)\<lparr>sup_at := SupReturned\<rparr>))"
| sup_panics: "sup_at s = SupLaunched \<Longrightarrow> Run_start (svc_deps svc) (svc_cfg svc) (spv (pool_of s)) = (StartPanics msg, st) \<Longrightarrow>
    live_step h svc others s ((put_spv st s)\<lparr>exit_status := Some (Crashed msg)\<rparr>)"
| pool: "sup_at s = SupRunning \<or> sup_at s = SupReturned \<and> run_at (pool_of s) = Stopped \<Longrightarrow>
    pool_step (svc_deps svc) (svc_cfg svc) others (pool_of s) p \<Longrightarrow> drain_at p = drain_at (pool_of s) \<Longrightarrow>
    live_step h svc others s (s\<lparr>pool_of := p\<rparr>)"
| sup_return: "sup_at s = SupRunning \<Longrightarrow> run_at (pool_of s) = Stopped \<Longrightarrow>
    live_step h svc others s (group_return None (s\<lparr>sup_at := SupReturned\<rparr>))"
| sched_start: "sched s = TickStart \<Longrightarrow> 0 <s SchedulerInterval (CfgRetry (svc_cfg svc)) \<Longrightarrow>
    live_step h svc others s (s\<lparr>sched := Ticking\<rparr>)"
| sched_panics: "sched s = TickStart \<Longrightarrow> SchedulerInterval (CfgRetry (svc_cfg svc)) <=s 0 \<Longrightarrow>
    live_step h svc others s (s\<lparr>exit_status := Some (Crashed ''non-positive interval for NewTicker'')\<rparr>)"
| sched_tick: "sched s = Ticking \<Longrightarrow>
    live_step h svc others s (put_world (snd (port_FlushReady (retryScheduler (svc_deps svc)) (world_of s))) s)"
| sched_stop: "sched s = Ticking \<Longrightarrow> ctx_done s \<Longrightarrow> live_step h svc others s (group_return None (s\<lparr>sched := TickReturned\<rparr>))"
| monitor_start: "monitor s = TickStart \<Longrightarrow> live_step h svc others s (s\<lparr>monitor := Ticking\<rparr>)"
| monitor_tick: "monitor s = Ticking \<Longrightarrow>
    live_step h svc others s (put_world (snd (scrape (port_DLQDepth (dlqWriter (svc_deps svc))) (metrics (svc_deps svc))
      (sint (monitor_threshold (svc_cfg svc))) (svc_dlq_keys svc) (world_of s))) s)"
| monitor_stop: "monitor s = Ticking \<Longrightarrow> ctx_done s \<Longrightarrow>
    live_step h svc others s (group_return None (s\<lparr>monitor := TickReturned\<rparr>))"
| coord_awake: "coord s = AwaitDone \<Longrightarrow> ctx_done s \<Longrightarrow> live_step h svc others s (s\<lparr>coord := MarkUnready\<rparr>)"
| coord_unready: "coord s = MarkUnready \<Longrightarrow>
    live_step h svc others s (s\<lparr>router := SetReady False (router s), coord := ShutAPI\<rparr>)"
| coord_api: "coord s = ShutAPI \<Longrightarrow> live_step h svc others s (s\<lparr>api_shut := True, coord := ShutMetrics\<rparr>)"
| coord_metrics: "coord s = ShutMetrics \<Longrightarrow> live_step h svc others s (s\<lparr>metrics_shut := True, coord := AwaitDrain\<rparr>)"
| coord_drain: "coord s = AwaitDrain \<Longrightarrow> drain_at (pool_of s) = Draining \<Longrightarrow>
    live_step h svc others s (put_drain (drain_poll (activeWorkers (spv (pool_of s))) expired again) s)"
| coord_drained: "coord s = AwaitDrain \<Longrightarrow> drain_at (pool_of s) \<noteq> Draining \<Longrightarrow> live_step h svc others s (s\<lparr>coord := CloseRedis\<rparr>)"
| coord_close: "coord s = CloseRedis \<Longrightarrow>
    live_step h svc others s ((put_world (snd (Lifecycle_Close (lib_redis h) (svc_redis svc) (world_of s))) s)\<lparr>coord := FlushSpans\<rparr>)"
| coord_return: "coord s = FlushSpans \<Longrightarrow> live_step h svc others s (group_return None (s\<lparr>coord := CoordReturned\<rparr>))"
| wait: "all_returned s \<Longrightarrow> live_step h svc others s (s\<lparr>exit_status := Some (exit_of (group_err s))\<rparr>)"

definition proc_step :: "'s host \<Rightarrow> 's service \<Rightarrow> ('s \<Rightarrow> 's \<Rightarrow> bool) \<Rightarrow> 's proc \<Rightarrow> 's proc \<Rightarrow> bool" where
  "proc_step h svc others s s' \<longleftrightarrow> exit_status s = None \<and> live_step h svc others s s'"

definition proc_reachable :: "'s host \<Rightarrow> 's service \<Rightarrow> ('s \<Rightarrow> 's \<Rightarrow> bool) \<Rightarrow> 's proc \<Rightarrow> bool" where
  "proc_reachable h svc others s \<longleftrightarrow> (proc_step h svc others)\<^sup>*\<^sup>* (start_proc svc) s"

text \<open>Redis is closed once the coordinator is past that call.\<close>

definition redis_closed :: "'s proc \<Rightarrow> bool" where
  "redis_closed s \<longleftrightarrow> coord s = FlushSpans \<or> coord s = CoordReturned"

subsection \<open>The invariant\<close>

lemma pool_step_mono:
  "pool_step d cfg others s s' \<Longrightarrow> (ctxDone s \<longrightarrow> ctxDone s') \<and> (run_at s = Stopped \<longrightarrow> run_at s' = Stopped)"
  by (induction rule: pool_step.induct)
    (auto elim!: worker_step.cases simp: worker_start_def worker_release_def worker_exit_def worker_report_def
      dispatch_go_def dispatch_nack_def)

lemma put_sels [simp]:
  "ctxDone (pool_of (cancel_ctx s))" "run_at (pool_of (cancel_ctx s)) = run_at (pool_of s)"
  "drain_at (pool_of (cancel_ctx s)) = drain_at (pool_of s)"
  "ctxDone (pool_of (put_world w s)) = ctxDone (pool_of s)" "run_at (pool_of (put_world w s)) = run_at (pool_of s)"
  "drain_at (pool_of (put_world w s)) = drain_at (pool_of s)"
  "ctxDone (pool_of (put_spv st s)) = ctxDone (pool_of s)" "run_at (pool_of (put_spv st s)) = run_at (pool_of s)"
  "drain_at (pool_of (put_spv st s)) = drain_at (pool_of s)"
  "ctxDone (pool_of (put_drain x s)) = ctxDone (pool_of s)" "run_at (pool_of (put_drain x s)) = run_at (pool_of s)"
  "drain_at (pool_of (put_drain x s)) = x"
  by (simp_all add: cancel_ctx_def put_world_def put_spv_def put_drain_def)

lemma put_others [simp]:
  "coord (cancel_ctx s) = coord s" "api (cancel_ctx s) = api s" "api_shut (cancel_ctx s) = api_shut s"
  "metrics_srv (cancel_ctx s) = metrics_srv s" "metrics_shut (cancel_ctx s) = metrics_shut s"
  "sup_at (cancel_ctx s) = sup_at s" "sched (cancel_ctx s) = sched s" "monitor (cancel_ctx s) = monitor s"
  "group_err (cancel_ctx s) = group_err s" "exit_status (cancel_ctx s) = exit_status s" "router (cancel_ctx s) = router s"
  "coord (put_world w s) = coord s" "api (put_world w s) = api s" "api_shut (put_world w s) = api_shut s"
  "metrics_srv (put_world w s) = metrics_srv s" "metrics_shut (put_world w s) = metrics_shut s"
  "sup_at (put_world w s) = sup_at s" "sched (put_world w s) = sched s" "monitor (put_world w s) = monitor s"
  "group_err (put_world w s) = group_err s" "exit_status (put_world w s) = exit_status s" "router (put_world w s) = router s"
  "coord (put_spv st s) = coord s" "api (put_spv st s) = api s" "api_shut (put_spv st s) = api_shut s"
  "metrics_srv (put_spv st s) = metrics_srv s" "metrics_shut (put_spv st s) = metrics_shut s"
  "sup_at (put_spv st s) = sup_at s" "sched (put_spv st s) = sched s" "monitor (put_spv st s) = monitor s"
  "group_err (put_spv st s) = group_err s" "exit_status (put_spv st s) = exit_status s" "router (put_spv st s) = router s"
  "coord (put_drain x s) = coord s" "api (put_drain x s) = api s" "api_shut (put_drain x s) = api_shut s"
  "metrics_srv (put_drain x s) = metrics_srv s" "metrics_shut (put_drain x s) = metrics_shut s"
  "sup_at (put_drain x s) = sup_at s" "sched (put_drain x s) = sched s" "monitor (put_drain x s) = monitor s"
  "group_err (put_drain x s) = group_err s" "exit_status (put_drain x s) = exit_status s" "router (put_drain x s) = router s"
  by (simp_all add: cancel_ctx_def put_world_def put_spv_def put_drain_def)

text \<open>What returning to the group changes: only the error and the context.\<close>

lemma group_return_sels [simp]:
  "coord (group_return err s) = coord s" "api (group_return err s) = api s" "api_shut (group_return err s) = api_shut s"
  "metrics_srv (group_return err s) = metrics_srv s" "metrics_shut (group_return err s) = metrics_shut s"
  "sup_at (group_return err s) = sup_at s" "sched (group_return err s) = sched s" "monitor (group_return err s) = monitor s"
  "exit_status (group_return err s) = exit_status s" "router (group_return err s) = router s"
  "run_at (pool_of (group_return err s)) = run_at (pool_of s)" "drain_at (pool_of (group_return err s)) = drain_at (pool_of s)"
  "group_return None s = s" "group_err (group_return (Some er) s) = Some (case group_err s of None \<Rightarrow> er | Some x \<Rightarrow> x)"
  by (simp_all add: group_return_def split: option.split)

lemma group_return_ctx [simp]:
  "ctx_done (group_return (Some er) s) \<longleftrightarrow> ctx_done s \<or> group_err s = None"
  by (simp add: group_return_def split: option.split)

definition shutdown_inv :: "'s proc \<Rightarrow> bool" where
  "shutdown_inv s \<longleftrightarrow>
     (coord s \<noteq> AwaitDone \<longrightarrow> ctx_done s) \<and>
     (api_shut s \<longleftrightarrow> coord s \<notin> {AwaitDone, MarkUnready, ShutAPI}) \<and>
     (metrics_shut s \<longleftrightarrow> coord s \<notin> {AwaitDone, MarkUnready, ShutAPI, ShutMetrics}) \<and>
     (coord s \<in> {CloseRedis, FlushSpans, CoordReturned} \<longrightarrow> drain_at (pool_of s) \<noteq> Draining)"

definition return_inv :: "'s proc \<Rightarrow> bool" where
  "return_inv s \<longleftrightarrow>
     (group_err s \<noteq> None \<longrightarrow> ctx_done s) \<and>
     (api s = SrvReturned \<longrightarrow> api_shut s \<or> group_err s \<noteq> None) \<and>
     (metrics_srv s = SrvReturned \<longrightarrow> metrics_shut s \<or> group_err s \<noteq> None) \<and>
     (sup_at s = SupReturned \<longrightarrow> run_at (pool_of s) = Stopped \<or> group_err s \<noteq> None) \<and>
     (sup_at s = SupLaunched \<longrightarrow> run_at (pool_of s) = AtSelect) \<and>
     (\<forall>x. exit_status s = Some x \<longrightarrow> (\<exists>msg. x = Crashed msg) \<or> all_returned s \<and> x = exit_of (group_err s))"

lemma all_returned_exit [simp]: "all_returned (s\<lparr>exit_status := x\<rparr>) = all_returned s"
  by (simp add: all_returned_def)

lemma live_step_ctx: "live_step h svc others s s' \<Longrightarrow> ctx_done s \<Longrightarrow> ctx_done s'"
  by (induction rule: live_step.induct) (auto dest: pool_step_mono)

lemma live_step_shutdown: "live_step h svc others s s' \<Longrightarrow> shutdown_inv s \<Longrightarrow> shutdown_inv s'"
proof -
  assume step: "live_step h svc others s s'" and inv: "shutdown_inv s"
  note ctx = live_step_ctx [OF step]
  from step show "shutdown_inv s'" by cases (use inv ctx in \<open>auto simp: shutdown_inv_def\<close>)
qed

lemma live_step_return: "live_step h svc others s s' \<Longrightarrow> exit_status s = None \<Longrightarrow> return_inv s \<Longrightarrow> return_inv s'"
proof -
  assume step: "live_step h svc others s s'" and alive: "exit_status s = None" and inv: "return_inv s"
  note ctx = live_step_ctx [OF step]
  from step show "return_inv s'" by cases (use alive inv ctx in \<open>auto simp: return_inv_def dest: pool_step_mono\<close>)
qed

lemma Run_start_panics: "Run_start d cfg st = (StartPanics msg, st') \<Longrightarrow> ClaimIdleThreshold (CfgWorker cfg) <=s 0"
  by (auto simp: Run_start_def Let_def split: prod.splits option.splits if_splits)

lemma live_step_crash:
  assumes "live_step h svc others s s'" and "exit_status s = None" and "exit_status s' = Some (Crashed msg)"
  shows "SchedulerInterval (CfgRetry (svc_cfg svc)) <=s 0 \<or> ClaimIdleThreshold (CfgWorker (svc_cfg svc)) <=s 0"
  using assms(1) by cases (use assms(2,3) in \<open>auto dest: Run_start_panics simp: exit_of_def split: option.splits\<close>)

definition life_inv :: "'s service \<Rightarrow> 's proc \<Rightarrow> bool" where
  "life_inv svc s \<longleftrightarrow> shutdown_inv s \<and> return_inv s \<and>
     (\<forall>msg. exit_status s = Some (Crashed msg) \<longrightarrow>
        SchedulerInterval (CfgRetry (svc_cfg svc)) <=s 0 \<or> ClaimIdleThreshold (CfgWorker (svc_cfg svc)) <=s 0)"

lemma reachable_life: "proc_reachable h svc others s \<Longrightarrow> life_inv svc s"
  unfolding proc_reachable_def
proof (induction rule: rtranclp_induct)
  case base
  then show ?case
    by (simp add: life_inv_def shutdown_inv_def return_inv_def start_proc_def new_pool_def)
next
  case (step y z)
  then show ?case
    using live_step_shutdown [of h svc others y z] live_step_return [of h svc others y z] live_step_crash [of h svc others y z]
    unfolding life_inv_def proc_step_def by blast
qed

subsection \<open>The process can always end\<close>

text \<open>How far the goroutines are from their ends once the context is done.\<close>

fun server_left :: "server_pc \<Rightarrow> nat" where
  "server_left SrvStart = 2" | "server_left SrvListen = 1" | "server_left SrvServe = 1" | "server_left SrvReturned = 0"

fun ticker_left :: "ticker_pc \<Rightarrow> nat" where
  "ticker_left TickStart = 2" | "ticker_left Ticking = 1" | "ticker_left TickReturned = 0"

fun run_left :: "run_pc \<Rightarrow> nat" where
  "run_left AtSelect = 2" | "run_left (Dispatching ts) = length ts + 3" | "run_left WaitingWorkers = 1" | "run_left Stopped = 0"

fun coord_left :: "coord_pc \<Rightarrow> nat" where
  "coord_left AwaitDone = 7" | "coord_left MarkUnready = 6" | "coord_left ShutAPI = 5" | "coord_left ShutMetrics = 4"
| "coord_left AwaitDrain = 3" | "coord_left CloseRedis = 2" | "coord_left FlushSpans = 1" | "coord_left CoordReturned = 0"

fun sup_left :: "sup_pc \<Rightarrow> run_pc \<Rightarrow> nat" where
  "sup_left SupLaunched r = 4" | "sup_left SupRunning r = 1 + run_left r" | "sup_left SupReturned r = 0"

definition life_left :: "'s proc \<Rightarrow> nat" where
  "life_left s = server_left (api s) + server_left (metrics_srv s) + ticker_left (sched s) + ticker_left (monitor s) +
     coord_left (coord s) + (if drain_at (pool_of s) = Draining then 1 else 0) + sup_left (sup_at s) (run_at (pool_of s)) +
     (if exit_status s = None then 1 else 0)"

text \<open>One goroutine at a time: each that has not returned can make a step towards its end.\<close>

lemma coord_progress:
  assumes "ctx_done s" and "coord s \<noteq> CoordReturned" and "exit_status s = None"
  shows "\<exists>s'. live_step h svc others s s' \<and> life_left s' < life_left s"
proof (cases "coord s")
  case AwaitDone
  then show ?thesis using live_step.coord_awake [of s h svc others] assms(1)
    by (intro exI conjI) (assumption, simp add: life_left_def)
next
  case MarkUnready
  then show ?thesis using live_step.coord_unready [of s h svc others]
    by (intro exI conjI) (assumption, simp add: life_left_def)
next
  case ShutAPI
  then show ?thesis using live_step.coord_api [of s h svc others]
    by (intro exI conjI) (assumption, simp add: life_left_def)
next
  case ShutMetrics
  then show ?thesis using live_step.coord_metrics [of s h svc others]
    by (intro exI conjI) (assumption, simp add: life_left_def)
next
  case AwaitDrain
  then show ?thesis
    using live_step.coord_drain [of s h svc others True] live_step.coord_drained [of s h svc others]
    by (cases "drain_at (pool_of s) = Draining")
      (intro exI conjI, assumption, simp add: life_left_def drain_poll_def,
       intro exI conjI, assumption, simp add: life_left_def)
next
  case CloseRedis
  then show ?thesis using live_step.coord_close [of s h svc others]
    by (intro exI conjI) (assumption, simp add: life_left_def)
next
  case FlushSpans
  then show ?thesis using live_step.coord_return [of s h svc others]
    by (intro exI conjI) (assumption, simp add: life_left_def)
qed (use assms in simp)

lemma server_progress:
  assumes "coord s = CoordReturned" "shutdown_inv s" and "api s \<noteq> SrvReturned \<or> metrics_srv s \<noteq> SrvReturned"
  shows "\<exists>s'. live_step h svc others s s' \<and> life_left s' < life_left s"
proof -
  have shut: "api_shut s" "metrics_shut s" using assms(1,2) by (simp_all add: shutdown_inv_def)
  consider "api s = SrvStart" | "api s = SrvListen \<or> api s = SrvServe" | "metrics_srv s = SrvStart" | "metrics_srv s = SrvListen \<or> metrics_srv s = SrvServe"
    using assms(3) by (metis server_pc.exhaust)
  then show ?thesis
  proof cases
    case 1
    then show ?thesis using live_step.api_ready [of s h svc others] by (intro exI conjI) (assumption, simp add: life_left_def)
  next
    case 2
    then show ?thesis using live_step.api_closed [of s h svc others] shut
      by (intro exI conjI) (blast, auto simp: life_left_def)
  next
    case 3
    then show ?thesis using live_step.metrics_ready [of s h svc others] by (intro exI conjI) (assumption, simp add: life_left_def)
  next
    case 4
    then show ?thesis using live_step.metrics_closed [of s h svc others] shut
      by (intro exI conjI) (blast, auto simp: life_left_def)
  qed
qed

lemma ticker_progress:
  assumes "ctx_done s" "exit_status s = None" and "sched s \<noteq> TickReturned \<or> monitor s \<noteq> TickReturned"
  shows "\<exists>s'. live_step h svc others s s' \<and> life_left s' < life_left s"
proof -
  consider "sched s = TickStart" "0 <s SchedulerInterval (CfgRetry (svc_cfg svc))" |
    "sched s = TickStart" "SchedulerInterval (CfgRetry (svc_cfg svc)) <=s 0" |
    "sched s = Ticking" | "monitor s = TickStart" | "monitor s = Ticking"
    using assms(3) by (metis ticker_pc.exhaust signed.not_le)
  then show ?thesis
  proof cases
    case 1
    then show ?thesis using live_step.sched_start [of s svc h others] by (intro exI conjI) (assumption, simp add: life_left_def)
  next
    case 2
    then show ?thesis using live_step.sched_panics [of s svc h others] assms(2)
      by (intro exI conjI) (assumption, simp add: life_left_def)
  next
    case 3
    then show ?thesis using live_step.sched_stop [of s h svc others] assms(1)
      by (intro exI conjI) (assumption, simp add: life_left_def)
  next
    case 4
    then show ?thesis using live_step.monitor_start [of s h svc others] by (intro exI conjI) (assumption, simp add: life_left_def)
  next
    case 5
    then show ?thesis using live_step.monitor_stop [of s h svc others] assms(1)
      by (intro exI conjI) (assumption, simp add: life_left_def)
  qed
qed

lemma run_progress:
  assumes "ctxDone s" and "run_at s \<noteq> Stopped"
  shows "\<exists>s'. pool_step d cfg others s s' \<and> drain_at s' = drain_at s \<and> run_left (run_at s') < run_left (run_at s)"
proof (cases "run_at s")
  case AtSelect
  then show ?thesis using pool_step.stop [of s d cfg others] assms(1) by (intro exI conjI) (assumption, simp_all)
next
  case (Dispatching ts)
  show ?thesis
  proof (cases ts)
    case Nil
    with Dispatching have r: "run_at s = Dispatching []" by simp
    from pool_step.dispatch_end [OF r, of d cfg others] show ?thesis by (intro exI conjI) (assumption, simp_all add: r)
  next
    case (Cons t us)
    with Dispatching have r: "run_at s = Dispatching (t # us)" by simp
    from pool_step.dispatch_done [OF r assms(1), of d cfg others] show ?thesis
      by (intro exI conjI) (assumption, simp_all add: dispatch_nack_def r)
  qed
next
  case WaitingWorkers
  then show ?thesis using pool_step.waiting [of s d cfg others True] by (intro exI conjI) (assumption, simp_all add: wait_poll_def)
qed (use assms in simp)

lemma sup_progress:
  assumes "ctx_done s" "exit_status s = None" and "sup_at s \<noteq> SupReturned" and "return_inv s"
  shows "\<exists>s'. live_step h svc others s s' \<and> life_left s' < life_left s"
proof (cases "sup_at s")
  case SupLaunched
  then have sel: "run_at (pool_of s) = AtSelect" using assms(4) by (simp add: return_inv_def)
  obtain r st where r: "Run_start (svc_deps svc) (svc_cfg svc) (spv (pool_of s)) = (r, st)" by fastforce
  show ?thesis
  proof (cases r)
    case (StartFailed er)
    then show ?thesis using live_step.sup_fails [of s svc er st h others] SupLaunched r
      by (intro exI conjI) (blast, simp add: life_left_def)
  next
    case (StartPanics msg)
    then show ?thesis using live_step.sup_panics [of s svc msg st h others] SupLaunched r assms(2)
      by (intro exI conjI) (blast, simp add: life_left_def)
  next
    case Started
    then show ?thesis using live_step.sup_start [of s svc st h others] SupLaunched r sel
      by (intro exI conjI) (blast, simp add: life_left_def)
  qed
next
  case SupRunning
  show ?thesis
  proof (cases "run_at (pool_of s) = Stopped")
    case True
    then show ?thesis using live_step.sup_return [of s h svc others] SupRunning
      by (intro exI conjI) (blast, simp add: life_left_def)
  next
    case False
    from run_progress [OF assms(1) False] obtain p where "pool_step (svc_deps svc) (svc_cfg svc) others (pool_of s) p"
      "drain_at p = drain_at (pool_of s)" "run_left (run_at p) < run_left (run_at (pool_of s))" by blast
    with live_step.pool [of s svc others p h] SupRunning show ?thesis
      by (intro exI conjI) (blast, simp add: life_left_def)
  qed
qed (use assms in simp)

lemma life_progress:
  assumes "ctx_done s" "exit_status s = None" and "shutdown_inv s" "return_inv s"
  shows "\<exists>s'. live_step h svc others s s' \<and> life_left s' < life_left s"
proof (cases "all_returned s")
  case True
  then show ?thesis using live_step.wait [of s h svc others] assms(2)
    by (intro exI conjI) (blast, simp add: life_left_def)
next
  case False
  then consider "coord s \<noteq> CoordReturned" | "coord s = CoordReturned" "api s \<noteq> SrvReturned \<or> metrics_srv s \<noteq> SrvReturned" |
    "sup_at s \<noteq> SupReturned" | "sched s \<noteq> TickReturned \<or> monitor s \<noteq> TickReturned"
    by (auto simp: all_returned_def)
  then show ?thesis
    by cases (use assms coord_progress server_progress sup_progress ticker_progress in blast)+
qed

lemma life_ends:
  "proc_reachable h svc others s \<Longrightarrow> ctx_done s \<Longrightarrow>
   \<exists>s'. (proc_step h svc others)\<^sup>*\<^sup>* s s' \<and> exit_status s' \<noteq> None"
proof (induction "life_left s" arbitrary: s rule: less_induct)
  case less
  show ?case
  proof (cases "exit_status s")
    case None
    have inv: "shutdown_inv s" "return_inv s" using reachable_life [OF less.prems(1)] by (simp_all add: life_inv_def)
    from life_progress [OF less.prems(2) None inv] obtain s1 where s1: "live_step h svc others s s1" "life_left s1 < life_left s" by blast
    have p: "proc_step h svc others s s1" using s1 None by (simp add: proc_step_def)
    then have "proc_reachable h svc others s1" using less.prems(1) unfolding proc_reachable_def
      by (rule rtranclp.rtrancl_into_rtrancl [rotated])
    from less.hyps [OF s1(2) this live_step_ctx [OF s1(1) less.prems(2)]] p show ?thesis
      by (meson converse_rtranclp_into_rtranclp)
  next
    case (Some x)
    then show ?thesis by (intro exI [of _ s]) simp
  qed
qed

subsection \<open>Redis is closed under a worker\<close>

lemma proc_reachable_step:
  "proc_reachable h svc others s \<Longrightarrow> exit_status s = None \<Longrightarrow> live_step h svc others s s' \<Longrightarrow> proc_reachable h svc others s'"
  unfolding proc_reachable_def by (rule rtranclp.rtrancl_into_rtrancl) (simp_all add: proc_step_def)

lemma lift_pool_run:
  assumes "(\<lambda>p p'. pool_step (svc_deps svc) (svc_cfg svc) others p p' \<and> drain_at p' = drain_at p)\<^sup>*\<^sup>* (pool_of s) p'"
    and "proc_reachable h svc others s" "sup_at s = SupRunning" "exit_status s = None"
  shows "proc_reachable h svc others (s\<lparr>pool_of := p'\<rparr>)"
  using assms(1)
proof (induction rule: rtranclp_induct)
  case base
  then show ?case using assms(2) by simp
next
  case (step y z)
  have "live_step h svc others (s\<lparr>pool_of := y\<rparr>) (s\<lparr>pool_of := y\<rparr>\<lparr>pool_of := z\<rparr>)"
    by (rule live_step.pool) (use step.hyps(2) assms(3) in simp_all)
  with step.IH assms(4) show ?case using proc_reachable_step [of h svc others "s\<lparr>pool_of := y\<rparr>"] by simp
qed

definition closed_early :: "'s host \<Rightarrow> 's service \<Rightarrow> 's Supervisor \<Rightarrow> EmailTask \<Rightarrow> 's proc" where
  "closed_early h svc st t =
     (let s1 = (put_spv st (start_proc svc))\<lparr>sup_at := SupRunning\<rparr>;
          s2 = s1\<lparr>pool_of := early_launch t (pool_of s1)\<rparr>;
          s3 = s2\<lparr>coord := MarkUnready\<rparr>;
          s4 = s3\<lparr>router := SetReady False (router s3), coord := ShutAPI\<rparr>;
          s5 = s4\<lparr>api_shut := True, coord := ShutMetrics\<rparr>;
          s6 = s5\<lparr>metrics_shut := True, coord := AwaitDrain\<rparr>;
          s7 = put_drain Drained s6;
          s8 = s7\<lparr>coord := CloseRedis\<rparr>
      in (put_world (snd (Lifecycle_Close (lib_redis h) (svc_redis svc) (world_of s8))) s8)\<lparr>coord := FlushSpans\<rparr>)"

lemma closed_early_reachable:
  assumes run: "Run_start (svc_deps svc) (svc_cfg svc) (svc_supervisor svc) = (Started, st)"
    and idle: "sem (svc_supervisor svc) = 0" "activeWorkers (svc_supervisor svc) = 0" and cap: "0 < capacity (svc_cfg svc)"
  shows "proc_reachable h svc others (closed_early h svc st t)"
proof -
  let ?s0 = "start_proc svc"
  let ?s1 = "(put_spv st ?s0)\<lparr>sup_at := SupRunning\<rparr>"
  let ?s2 = "?s1\<lparr>pool_of := early_launch t (pool_of ?s1)\<rparr>"
  let ?s3 = "?s2\<lparr>coord := MarkUnready\<rparr>"
  let ?s4 = "?s3\<lparr>router := SetReady False (router ?s3), coord := ShutAPI\<rparr>"
  let ?s5 = "?s4\<lparr>api_shut := True, coord := ShutMetrics\<rparr>"
  let ?s6 = "?s5\<lparr>metrics_shut := True, coord := AwaitDrain\<rparr>"
  let ?s7 = "put_drain Drained ?s6"
  let ?s8 = "?s7\<lparr>coord := CloseRedis\<rparr>"
  have st: "sem st = 0" "activeWorkers st = 0"
    using run idle by (auto simp: Run_start_def Let_def split: prod.splits option.splits if_splits dest!: same_slots_world)
  have sel: "exit_status ?s0 = None" "sup_at ?s0 = SupLaunched" "coord ?s0 = AwaitDone" "spv (pool_of ?s0) = svc_supervisor svc"
    by (simp_all add: start_proc_def new_pool_def)
  note step = proc_reachable_step [of h svc others]
  have "proc_reachable h svc others ?s0" by (simp add: proc_reachable_def)
  then have "proc_reachable h svc others ?s1"
    by (rule step) (use live_step.sup_start [of ?s0 svc st h others] run sel in simp_all)
  then have "proc_reachable h svc others ?s2"
    by (rule lift_pool_run [rotated])
      (use early_launch_run [of "pool_of ?s1" "svc_cfg svc" "svc_deps svc" others t] st cap sel in
        \<open>simp_all add: put_spv_def start_proc_def new_pool_def\<close>)
  then have "proc_reachable h svc others ?s3"
    by (rule step) (use live_step.coord_awake [of ?s2 h svc others] sel in \<open>simp_all add: early_launch_def\<close>)
  then have "proc_reachable h svc others ?s4"
    by (rule step) (use live_step.coord_unready [of ?s3 h svc others] sel in simp_all)
  then have "proc_reachable h svc others ?s5"
    by (rule step) (use live_step.coord_api [of ?s4 h svc others] sel in simp_all)
  then have "proc_reachable h svc others ?s6"
    by (rule step) (use live_step.coord_metrics [of ?s5 h svc others] sel in simp_all)
  then have "proc_reachable h svc others ?s7"
    by (rule step) (use live_step.coord_drain [of ?s6 h svc others False 0] sel st in
        \<open>simp_all add: early_launch_def put_spv_def start_proc_def new_pool_def drain_poll_def\<close>)
  then have "proc_reachable h svc others ?s8"
    by (rule step) (use live_step.coord_drained [of ?s7 h svc others] sel in simp_all)
  then have "proc_reachable h svc others
      ((put_world (snd (Lifecycle_Close (lib_redis h) (svc_redis svc) (world_of ?s8))) ?s8)\<lparr>coord := FlushSpans\<rparr>)"
    by (rule step) (use live_step.coord_close [of ?s8 h svc others] sel in simp_all)
  then show ?thesis by (simp only: closed_early_def Let_def)
qed

subsection \<open>Properties\<close>

text \<open>C19: The order of the shutdown, over all interleavings: when Redis is closed, the shutdown has been
  triggered, both HTTP servers have been told to stop, and \<open>Drain\<close> has returned.\<close>

theorem shutdown_order:
  assumes "proc_reachable h svc others s" and "redis_closed s"
  shows "ctxDone (pool_of s) \<and> api_shut s \<and> metrics_shut s \<and> drain_at (pool_of s) \<noteq> Draining"
proof -
  have "shutdown_inv s" using reachable_life [OF assms(1)] by (simp add: life_inv_def)
  with assms(2) show ?thesis unfolding redis_closed_def by (elim disjE) (simp_all add: shutdown_inv_def)
qed

text \<open>C20: What the exit code means: the process exits only after all six goroutines have returned and Redis is
  closed, with 0 exactly if none of them returned an error and otherwise with 1 and the first error; the only way out before that is a
  panic of \<open>time.NewTicker\<close> on an interval that is not positive.\<close>

theorem exit_code:
  assumes "proc_reachable h svc others s" and "exit_status s = Some x"
  shows "(all_returned s \<and> redis_closed s \<and> x = (case group_err s of None \<Rightarrow> ExitOK | Some er \<Rightarrow> ExitError er)) \<or>
    (\<exists>msg. x = Crashed msg \<and> (SchedulerInterval (CfgRetry (svc_cfg svc)) <=s 0 \<or>
       ClaimIdleThreshold (CfgWorker (svc_cfg svc)) <=s 0))"
proof -
  have inv: "return_inv s" "\<And>msg. exit_status s = Some (Crashed msg) \<Longrightarrow>
      SchedulerInterval (CfgRetry (svc_cfg svc)) <=s 0 \<or> ClaimIdleThreshold (CfgWorker (svc_cfg svc)) <=s 0"
    using reachable_life [OF assms(1)] by (simp_all add: life_inv_def)
  then consider msg where "x = Crashed msg" | "all_returned s" "x = exit_of (group_err s)"
    using assms(2) unfolding return_inv_def by blast
  then show ?thesis
  proof cases
    case 1
    then show ?thesis using inv(2) assms(2) by blast
  next
    case 2
    then have "redis_closed s" by (simp add: all_returned_def redis_closed_def)
    with 2 show ?thesis by (simp add: exit_of_def)
  qed
qed

text \<open>C21: Shutdown never gets stuck: from whatever state the process is in when its context is done (SIGTERM, or an error of a
  goroutine), it can go on to its end, even if no worker ever finishes.\<close>

theorem shutdown_ends:
  assumes "proc_reachable h svc others s" and "ctxDone (pool_of s)"
  shows "\<exists>s'. (proc_step h svc others)\<^sup>*\<^sup>* s s' \<and> exit_status s' \<noteq> None"
  using life_ends [OF assms] .

text \<open>C40: Redis is closed under a worker: in a service that has started, SIGTERM right after a task was dispatched leads to a state where
  \<open>Drain\<close> has returned nil and Redis is closed although the task's goroutine has not begun, and then begins.\<close>

theorem Redis_closed_under_worker:
  assumes "host_laws h ks" and "main_boot h w = (Up svc, w')" and "run_workers svc = (Started, st)"
  shows "\<exists>s s'. proc_reachable h svc others s \<and> redis_closed s \<and> drain_at (pool_of s) = Drained \<and>
    proc_step h svc others s s' \<and> working (pool_of s') = [(t, worker_prog (svc_deps svc) (svc_cfg svc) t)]"
proof -
  note up = host_laws.main_boot_up [OF assms(1,2)]
  have idle: "sem (svc_supervisor svc) = 0" "activeWorkers (svc_supervisor svc) = 0"
    using up NewSupervisor_idle [of "svc_cfg svc" w' "svc_supervisor svc"] by simp_all
  have cap: "0 < capacity (svc_cfg svc)" using up by (simp add: config_ok_def capacity_def)
  let ?s = "closed_early h svc st t"
  let ?p = "worker_start (svc_deps svc) (svc_cfg svc) [] t [] (pool_of ?s)"
  have r: "proc_reachable h svc others ?s"
    using closed_early_reachable [OF _ idle cap] assms(3) by (simp add: run_workers_def)
  have sel: "sup_at ?s = SupRunning" "exit_status ?s = None" "launched (pool_of ?s) = [t]" "working (pool_of ?s) = []"
    "drain_at (pool_of ?s) = Drained" "coord ?s = FlushSpans"
    by (simp_all add: closed_early_def Let_def start_proc_def put_world_def put_spv_def put_drain_def early_launch_def new_pool_def)
  have "pool_step (svc_deps svc) (svc_cfg svc) others (pool_of ?s) ?p"
    by (intro pool_step.worker worker_step.start) (simp add: sel)
  then have "proc_step h svc others ?s (?s\<lparr>pool_of := ?p\<rparr>)"
    unfolding proc_step_def using live_step.pool [of ?s svc others ?p h] sel by (simp add: worker_start_def)
  moreover have "working (pool_of (?s\<lparr>pool_of := ?p\<rparr>)) = [(t, worker_prog (svc_deps svc) (svc_cfg svc) t)]"
    by (simp add: worker_start_def sel)
  ultimately show ?thesis using r sel unfolding redis_closed_def by blast
qed

subsection \<open>Witnesses\<close>

text \<open>In memory, without faults, a booted service starts its loop.\<close>

lemma mem_ensure: "mem_faults w = [] \<Longrightarrow> \<exists>w1. ensureConsumerGroup (worker_env True) key g w = (None, w1) \<and> mem_faults w1 = []"
  by (simp add: ensureConsumerGroup_def mem_eval reply_err_def isBusyGroup_def Let_def split: option.split)

lemma mem_ensures: "mem_faults w = [] \<Longrightarrow> \<exists>w1. ensureGroups (worker_env True) keys g w = (None, w1)"
proof (induction keys arbitrary: w)
  case (Cons key keys)
  obtain w1 where "ensureConsumerGroup (worker_env True) key g w = (None, w1)" "mem_faults w1 = []"
    using mem_ensure [OF Cons.prems] by blast
  with Cons.IH [of w1] show ?case by simp
qed simp

lemma mem_starts:
  assumes "consumer d = RedisConsumer (worker_env True) c" and "mem_faults (world st) = []"
    and "\<not> ClaimIdleThreshold (CfgWorker cfg) <=s 0"
  shows "fst (Run_start d cfg st) = Started"
proof -
  obtain w1 where "Consume (worker_env True) c (world st) = (None, w1)"
    using mem_ensures [OF assms(2)] by (auto simp: Consume_def)
  then show ?thesis using assms(1,3) by (simp add: Run_start_def on_world_def RedisConsumer_def)
qed

lemma default_idle:
  assumes "Load (sample_os sample_start) = Inr c"
  shows "\<not> ClaimIdleThreshold (CfgWorker c) <=s 0"
  using assms
  by (auto simp: Load_def defaultConsumerName_def parseDuration_def sample_os_def sample_start_def go_second_def word_sle_eq
      split: sum.splits)

lemma sample_up:
  obtains svc w st where "main_boot (mem_host (sample_os sample_start)) (http_world empty_ks [] [] (newCircuitBreaker 5 1)) = (Up svc, w)"
    and "booted sample_start svc" and "run_workers svc = (Started, st)"
proof -
  obtain c svc w where b: "main_boot (mem_host (sample_os sample_start)) (http_world empty_ks [] [] (newCircuitBreaker 5 1)) = (Up svc, w)"
    and l: "Load (sample_os sample_start) = Inr c" and u: "mem_up c empty_ks svc" using sample_boots by blast
  have "fst (run_workers svc) = Started"
    unfolding run_workers_def using mem_starts [of "svc_deps svc" c "svc_supervisor svc" c] default_idle [OF l] u
    by (simp add: mem_up_def)
  then show ?thesis using that b by (metis booted_def fst_conv prod.collapse)
qed

text \<open>SIGTERM at once, and the run to the end.\<close>

lemma sigterm_reachable: "proc_reachable h svc others (cancel_ctx (start_proc svc))"
proof -
  have "proc_reachable h svc others (start_proc svc)" by (simp add: proc_reachable_def)
  then show ?thesis by (rule proc_reachable_step) (simp add: start_proc_def, rule live_step.sig_term)
qed

theorem shutdown_ends_witness:
  "\<exists>svc s'. booted sample_start svc \<and>
     (proc_step (mem_host (sample_os sample_start)) svc (=))\<^sup>*\<^sup>* (cancel_ctx (start_proc svc)) s' \<and> exit_status s' \<noteq> None"
proof -
  obtain svc w st where "booted sample_start svc" using sample_up by metis
  then show ?thesis using shutdown_ends [OF sigterm_reachable, of svc "mem_host (sample_os sample_start)" "(=)"] by auto
qed

lemma sigterm_exits:
  "\<exists>s'. proc_reachable h svc others s' \<and> exit_status s' \<noteq> None"
proof -
  have d: "ctxDone (pool_of (cancel_ctx (start_proc svc)))" by simp
  from life_ends [OF sigterm_reachable d] obtain s' where r: "(proc_step h svc others)\<^sup>*\<^sup>* (cancel_ctx (start_proc svc)) s'"
    and x: "exit_status s' \<noteq> None" by blast
  have "proc_reachable h svc others s'" using sigterm_reachable r unfolding proc_reachable_def by (rule rtranclp_trans)
  with x show ?thesis by blast
qed

theorem exit_code_witness:
  "\<exists>svc s' x. booted sample_start svc \<and> proc_reachable (mem_host (sample_os sample_start)) svc (=) s' \<and> exit_status s' = Some x \<and>
     (all_returned s' \<or> (\<exists>msg. x = Crashed msg))"
proof -
  obtain svc w st where b: "booted sample_start svc" using sample_up by metis
  obtain s' where r: "proc_reachable (mem_host (sample_os sample_start)) svc (=) s'" and "exit_status s' \<noteq> None"
    using sigterm_exits by blast
  then obtain x where x: "exit_status s' = Some x" by blast
  from exit_code [OF r x] show ?thesis using b r x by blast
qed

theorem Redis_closed_under_worker_witness:
  "\<exists>svc s s'. booted sample_start svc \<and> proc_reachable (mem_host (sample_os sample_start)) svc (=) s \<and> redis_closed s \<and>
     proc_step (mem_host (sample_os sample_start)) svc (=) s s' \<and>
     working (pool_of s') = [(sample_task, worker_prog (svc_deps svc) (svc_cfg svc) sample_task)]"
proof -
  obtain svc w st where "main_boot (mem_host (sample_os sample_start)) (http_world empty_ks [] [] (newCircuitBreaker 5 1)) = (Up svc, w)"
    and b: "booted sample_start svc" and "run_workers svc = (Started, st)" using sample_up by blast
  from Redis_closed_under_worker [OF mem_host.host_laws_axioms this(1,3)] b show ?thesis by blast
qed

theorem shutdown_order_witness:
  "\<exists>svc s. booted sample_start svc \<and> proc_reachable (mem_host (sample_os sample_start)) svc (=) s \<and> redis_closed s \<and>
     api_shut s \<and> drain_at (pool_of s) \<noteq> Draining"
proof -
  obtain svc w st where up: "main_boot (mem_host (sample_os sample_start)) (http_world empty_ks [] [] (newCircuitBreaker 5 1)) = (Up svc, w)"
    and b: "booted sample_start svc" and run: "run_workers svc = (Started, st)" using sample_up by blast
  note m = mem_host.main_boot_up [OF up]
  have "proc_reachable (mem_host (sample_os sample_start)) svc (=) (closed_early (mem_host (sample_os sample_start)) svc st sample_task)"
    using closed_early_reachable [of svc st] run m NewSupervisor_idle [of "svc_cfg svc" w "svc_supervisor svc"]
    by (simp add: run_workers_def config_ok_def capacity_def)
  moreover have "redis_closed (closed_early h svc st t)" for h :: "mem_http host" and t by (simp add: closed_early_def Let_def redis_closed_def)
  ultimately show ?thesis using shutdown_order b by blast
qed

end
