(* ===== verification/Background.thy ===== *)
theory Background
  imports Handoff
begin

text \<open>
  Which commands the operations of the program send. \<open>sends e P\<close> is one thing a goroutine does to the world: a
  command allowed by \<open>P\<close>, a metric, a look at the clock, at the context or at the random source. An operation is a
  chain of such steps when \<open>P\<close> allows the commands it sends (locale \<open>queue_commands\<close>: the producer, the poll loop, the retry scheduler,
  the monitor; locale \<open>attempt_commands\<close>: a worker; locale \<open>worker_commands\<close>: both).
\<close>

inductive sends :: "'s env \<Rightarrow> (rcmd \<Rightarrow> bool) \<Rightarrow> 's \<Rightarrow> 's \<Rightarrow> bool" for e P where
  command: "env_client e c w = (r, w') \<Longrightarrow> P c \<Longrightarrow> sends e P w w'"
| metric: "sends e P w (record_metric e m w)"
| time: "time_now e w = (now, w') \<Longrightarrow> sends e P w w'"
| ctx: "ctx_err e w = (err, w') \<Longrightarrow> sends e P w w'"
| rand: "rand_float e w = (x, w') \<Longrightarrow> sends e P w w'"

abbreviation chain :: "'s env \<Rightarrow> (rcmd \<Rightarrow> bool) \<Rightarrow> 's \<Rightarrow> 's \<Rightarrow> bool" where
  "chain e P \<equiv> (sends e P)\<^sup>*\<^sup>*"

lemma chain_client: "env_client e c w = (r, w') \<Longrightarrow> chain e P w0 w \<Longrightarrow> P c \<Longrightarrow> chain e P w0 w'"
  by (rule rtranclp.rtrancl_into_rtrancl, assumption) (rule sends.command)

lemma chain_time: "time_now e w = (now, w') \<Longrightarrow> chain e P w0 w \<Longrightarrow> chain e P w0 w'"
  by (rule rtranclp.rtrancl_into_rtrancl, assumption) (rule sends.time)

lemma chain_ctx: "ctx_err e w = (err, w') \<Longrightarrow> chain e P w0 w \<Longrightarrow> chain e P w0 w'"
  by (rule rtranclp.rtrancl_into_rtrancl, assumption) (rule sends.ctx)

lemma chain_metric: "chain e P w0 w \<Longrightarrow> chain e P w0 (record_metric e m w)"
  by (rule rtranclp.rtrancl_into_rtrancl, assumption) (rule sends.metric)

lemma chain_metrics: "chain e P w0 w \<Longrightarrow> chain e P w0 (fold (\<lambda>x. record_metric e (f x)) xs w)"
  by (induction xs arbitrary: w) (auto intro: chain_metric)

lemma chain_pipe:
  "pipe_exec e cs w = (rs, w') \<Longrightarrow> chain e P w0 w \<Longrightarrow> \<forall>c \<in> set cs. P c \<Longrightarrow> chain e P w0 w'"
proof (induction cs arbitrary: w rs)
  case (Cons c cs)
  obtain r w1 where c: "env_client e c w = (r, w1)" by fastforce
  have "chain e P w0 w1" using Cons.prems(2,3) by (intro chain_client [OF c]) auto
  with Cons c show ?case by (auto simp: Let_def split: prod.splits)
qed simp

lemmas chain_intros = chain_metric chain_metrics rtranclp.rtrancl_refl

subsection \<open>The producer, the poll loop, the retry scheduler and the monitor\<close>

text \<open>
  \<open>fit\<close>: the tasks that may be written; a task that was decoded is fit. Reads and the bookkeeping of groups are
  allowed.
\<close>

locale send_commands =
  fixes P :: "rcmd \<Rightarrow> bool" and fit :: "EmailTask \<Rightarrow> bool"
  assumes reads: "read_only c \<Longrightarrow> P c" and expires [simp]: "P (EXPIRE key dur)"
begin

lemma read_cmds [simp]:
  "P PING" "P (GET key)" "P (ZRANGEBYSCORE key hi n)" "P (ZCARD key)" "P (LRANGE key a b)" "P (LLEN key)"
  by (simp_all add: reads)

end

locale queue_commands = send_commands P fit for P :: "rcmd \<Rightarrow> bool" and fit :: "EmailTask \<Rightarrow> bool" +
  assumes group: "P (XGROUP_CREATE key g)" "P (XREADGROUP g cons keys n dur)" "P (XAUTOCLAIM key g cons dur n)"
    and removes: "P (ZREM key ms)"
    and xadd: "fit t \<Longrightarrow> json_Marshal_task t = Inr p \<Longrightarrow> P (xadd_cmd t p)"
    and zadd: "fit t \<Longrightarrow> json_Marshal_task t = Inr p \<Longrightarrow> P (ZADD delayedQueueKey sc p)"
    and poison: "P (RPUSH retryPoisonKey v)"
    and decoded: "json_Unmarshal_task m = Inr t \<Longrightarrow> fit t"
    and fit_span: "fit t \<Longrightarrow> fit (set_span sp t)"
    and fit_scheduled: "fit t \<Longrightarrow> fit (t\<lparr>ScheduledFor := s\<rparr>)"
    and fit_meta: "fit t \<Longrightarrow> fit (metadata_set k x t)"
begin

lemmas allowed [simp] = group removes poison

lemma marshalled: "MarshalTaskPayload t = Inr p \<Longrightarrow> fit t \<Longrightarrow> P (xadd_cmd t p)"
  by (auto simp: MarshalTaskPayload_def xadd split: sum.splits)

lemma Enqueue_chain: "fit u \<Longrightarrow> chain e P w (snd (Enqueue e sp u w))"
  by (auto simp: Enqueue_def Let_def split: prod.splits option.splits sum.splits
      intro!: chain_intros elim!: chain_ctx chain_client simp: marshalled fit_span)

lemma EnqueueDelayed_chain: "fit u \<Longrightarrow> chain e P w (snd (EnqueueDelayed e u delay w))"
  by (auto simp: EnqueueDelayed_def Let_def split: prod.splits option.splits sum.splits
      intro!: chain_intros elim!: chain_ctx chain_client chain_time intro: zadd [OF fit_scheduled])

lemma DLQDepth_chain: "chain e P w (snd (DLQDepth e a b w))"
  by (auto simp: DLQDepth_def Let_def split: prod.splits sum.splits intro!: chain_intros elim!: chain_client)

lemma ListDLQ_chain: "chain e P w (snd (ListDLQ e a b n w))"
  by (auto simp: ListDLQ_def Let_def split: prod.splits sum.splits intro!: chain_intros elim!: chain_client)

lemma marshal_all_allowed: "marshal_all us = Inr ps \<Longrightarrow> \<forall>u \<in> set us. fit u \<Longrightarrow> \<forall>c \<in> set (map2 xadd_cmd us ps). P c"
proof (induction us arbitrary: ps)
  case (Cons u us)
  then obtain p ps' where "MarshalTaskPayload u = Inr p" "marshal_all us = Inr ps'" "ps = p # ps'" by (auto split: sum.splits)
  with Cons show ?case by (simp add: marshalled)
qed simp

lemma EnqueueBatch_chain:
  assumes "\<forall>u \<in> set us. fit u"
  shows "chain e P w (snd (EnqueueBatch e us w))"
proof -
  obtain cerr w1 where c: "ctx_err e w = (cerr, w1)" by fastforce
  have w1: "chain e P w w1" by (rule chain_ctx [OF c]) simp
  show ?thesis
  proof (cases "marshal_all us")
    case (Inr ps)
    obtain rs w2 where p: "pipe_exec e (map2 xadd_cmd us ps) w1 = (rs, w2)" by fastforce
    have w2: "chain e P w w2" by (rule chain_pipe [OF p w1 marshal_all_allowed [OF Inr assms]])
    obtain cerr2 w3 where c2: "ctx_err e w2 = (cerr2, w3)" by fastforce
    have "chain e P w w3" by (rule chain_ctx [OF c2 w2])
    then show ?thesis using w1 w2
      by (simp add: EnqueueBatch_def c p Inr c2 Let_def chain_metrics)
  qed (use w1 in \<open>simp add: EnqueueBatch_def c\<close>)
qed

lemma quarantine_chain: "chain e P w0 w \<Longrightarrow> chain e P w0 (quarantineCorruptMembers e cfg' corrupt w)"
  by (auto simp: quarantineCorruptMembers_def Let_def split: prod.splits
      elim!: chain_time intro!: chain_pipe [OF prod.collapse [symmetric]])

lemma valid_fit: "(m, t) \<in> set (valid_members ms) \<Longrightarrow> fit t"
  by (auto simp: valid_members_def decoded split: sum.splits)

lemma xadd_tasks_allowed: "(t, p) \<in> set (xadd_tasks ts) \<Longrightarrow> \<forall>t \<in> set ts. fit t \<Longrightarrow> P (xadd_cmd t p)"
  by (auto simp: xadd_tasks_def marshalled split: sum.splits)

lemma FlushReady_chain: "chain e P w (snd (FlushReady e cfg' w))"
proof -
  obtain now w1 where n: "time_now e w = (now, w1)" by fastforce
  obtain r w2 where r: "env_client e (ZRANGEBYSCORE retryDelayedKey (show_int (time_unix now)) 100) w1 = (r, w2)" by fastforce
  have w2: "chain e P w w2" by (rule chain_client [OF r chain_time [OF n]]) simp_all
  show ?thesis
  proof (cases "reply_texts r")
    case (Inl err)
    then show ?thesis using w2 by (simp add: FlushReady_def n r)
  next
    case (Inr members)
    define w3 where "w3 = (if corrupt_members members \<noteq> [] then quarantineCorruptMembers e cfg' (corrupt_members members) w2 else w2)"
    have w3: "chain e P w w3" using w2 by (simp add: w3_def quarantine_chain)
    define xadds where "xadds = xadd_tasks (map snd (valid_members members))"
    obtain rs w4 where p: "pipe_exec e (map (\<lambda>(t, p). xadd_cmd t p) xadds @
        [ZREM retryDelayedKey (map fst (valid_members members))]) w3 = (rs, w4)" by fastforce
    have "\<forall>t \<in> set (map snd (valid_members members)). fit t" using valid_fit by auto
    then have w4: "chain e P w w4"
      by (intro chain_pipe [OF p w3]) (auto simp: xadds_def intro!: xadd_tasks_allowed)
    obtain rd w5 where z: "env_client e (ZCARD retryDelayedKey) w4 = (rd, w5)" by fastforce
    have "chain e P w w5" by (rule chain_client [OF z w4]) simp
    then show ?thesis using w2 w3 Inr
      by (simp add: FlushReady_def n r Let_def flip: w3_def xadds_def) (simp add: p z chain_metric split: sum.split)
  qed
qed

lemma scheduler_chain: "chain e P w0 w \<Longrightarrow> chain e P w0 (scheduler_ticks n e cfg' w)"
  by (induction n arbitrary: w) (auto intro: rtranclp_trans [OF _ FlushReady_chain])

lemma monitor_chain:
  "chain e P w0 w \<Longrightarrow> chain e P w0 (snd (scrape (DLQDepth e) (record_metric e) thr keys w))"
proof (induction keys arbitrary: w)
  case (Cons key keys)
  have d: "chain e P w0 (snd (DLQDepth e a b w))" for a b
    by (rule rtranclp_trans [OF Cons.prems DLQDepth_chain])
  show ?case using Cons d
    by (auto simp: Let_def split: option.splits prod.splits sum.splits intro: chain_metric)
       (metis Cons.IH chain_metric snd_conv)+
qed simp

lemma taskFromMessage_fit: "taskFromMessage key m = Inr t \<Longrightarrow> fit t"
  by (auto simp: taskFromMessage_def fit_meta decoded split: option.splits sum.splits)

lemma claim_streams_chain:
  "claim_streams e cfg' idle keys claimed w = (r, w') \<Longrightarrow> chain e P w0 w \<Longrightarrow> \<forall>t \<in> set claimed. fit t \<Longrightarrow>
   chain e P w0 w' \<and> (\<forall>ts. r = Inr ts \<longrightarrow> (\<forall>t \<in> set ts. fit t))"
proof (induction keys arbitrary: claimed w)
  case (Cons key keys)
  obtain x w1 where c: "env_client e (XAUTOCLAIM key (ConsumerGroup (CfgWorker cfg')) (ConsumerName (CfgWorker cfg'))
      idle claimBatchSize) w = (x, w1)" by fastforce
  have w1: "chain e P w0 w1" by (rule chain_client [OF c Cons.prems(2)]) simp
  have "\<forall>t \<in> set (claimed @ parsed key ms). fit t" for ms
    using Cons.prems(3) by (auto simp: parsed_def taskFromMessage_fit split: sum.splits)
  then show ?case using Cons.prems Cons.IH [OF _ w1] c w1
    by (auto simp: Let_def split: sum.splits if_splits)
qed auto

text \<open>The poll loop, given that handing a fit task to the channel keeps to the commands.\<close>

definition hands_over :: "'s env \<Rightarrow> (EmailTask \<Rightarrow> 's \<Rightarrow> bool \<times> 's) \<Rightarrow> bool" where
  "hands_over e send \<longleftrightarrow> (\<forall>u w b w'. fit u \<longrightarrow> send u w = (b, w') \<longrightarrow> chain e P w w')"

lemma deliver_msgs_chain: "hands_over e send \<Longrightarrow> deliver_msgs send key ms w = (b, w') \<Longrightarrow> chain e P w w'"
proof (induction ms arbitrary: w)
  case (Cons m ms)
  show ?case
  proof (cases "taskFromMessage key m")
    case (Inr t)
    obtain b1 w1 where s: "send t w = (b1, w1)" by fastforce
    then have "chain e P w w1" using Cons.prems(1) taskFromMessage_fit [OF Inr] by (auto simp: hands_over_def)
    then show ?thesis using Cons Inr s by (auto split: if_splits intro: rtranclp_trans)
  qed (use Cons in simp)
qed simp

lemma deliver_streams_chain: "hands_over e send \<Longrightarrow> deliver_streams send ss w = (b, w') \<Longrightarrow> chain e P w w'"
  by (induction send ss w rule: deliver_streams.induct)
    (auto simp: Let_def split: prod.splits if_splits dest!: deliver_msgs_chain intro: rtranclp_trans)

lemma ensure_chain: "chain e P w0 w \<Longrightarrow> chain e P w0 (snd (ensureConsumerGroup e key g w))"
  by (auto simp: ensureConsumerGroup_def Let_def split: prod.splits option.splits elim!: chain_client)

lemma ensureGroups_chain: "ensureGroups e keys g w = (r, w') \<Longrightarrow> chain e P w0 w \<Longrightarrow> chain e P w0 w'"
proof (induction keys arbitrary: w)
  case (Cons key keys)
  obtain err w1 where c: "ensureConsumerGroup e key g w = (err, w1)" by fastforce
  have "chain e P w0 w1" using ensure_chain [OF Cons.prems(2), of key g] by (simp add: c)
  then show ?case using Cons c by (auto split: if_splits)
qed simp

lemma ensure_fold_chain:
  "chain e P w0 w \<Longrightarrow> chain e P w0 (fold (\<lambda>k s. snd (ensureConsumerGroup e k g s)) keys w)"
  by (induction keys arbitrary: w) (auto intro: ensure_chain)

lemma poll_round_chain:
  assumes "hands_over e send" and "poll_round e cfg' send w = (b, w')"
  shows "chain e P w w'"
  using assms(2)
  by (auto simp: poll_round_def Let_def split: prod.splits sum.splits if_splits
      elim!: chain_ctx chain_client dest!: deliver_streams_chain [OF assms(1)]
      intro!: ensure_fold_chain)
    (erule rtranclp_trans [rotated], auto elim!: chain_ctx chain_client)

lemma pollLoop_chain: "hands_over e send \<Longrightarrow> pollLoop n e cfg' send w = (b, w') \<Longrightarrow> chain e P w w'"
  by (induction n e cfg' send w rule: pollLoop.induct)
    (auto simp: Let_def split: prod.splits if_splits dest!: poll_round_chain intro: rtranclp_trans)

end

text \<open>What the others do while the pool runs: any command, but no acknowledgement of the message of \<open>t\<close>.\<close>

abbreviation elsewhere :: "'s env \<Rightarrow> Config \<Rightarrow> EmailTask \<Rightarrow> 's \<Rightarrow> 's \<Rightarrow> bool" where
  "elsewhere e cfg t \<equiv> sends e (\<lambda>c. c \<noteq> XACK (metadata_get t metaStreamKey) (ConsumerGroup (CfgWorker cfg)) (metadata_get t metaStreamID))"

text \<open>The poll loop, the scheduler, the producer and the monitor never acknowledge.\<close>

interpretation background: queue_commands "\<lambda>c. c \<noteq> XACK key g i" "\<lambda>_. True" for key g i
  by unfold_locales (auto simp: xadd_cmd_def)

subsection \<open>The workers\<close>

locale attempt_commands = send_commands P fit for P :: "rcmd \<Rightarrow> bool" and fit :: "EmailTask \<Rightarrow> bool" +
  assumes scripts: "P (acquire_cmd scr cfg k i now)" "P (reclaim_cmd scr cfg k i age now)"
    and marks: "RecStatus r = ''completed'' \<Longrightarrow> P (SET_XX key (Doc (idem_json r)) ttl)" "P (DEL key)"
    and acks: "P (XACK key g i)"
    and retry: "fit t \<Longrightarrow> json_Marshal_task t = Inr p \<Longrightarrow> P (ZADD_NX retryDelayedKey sc p)"
    and dead: "Task x = Some t \<Longrightarrow> fit t \<Longrightarrow> json_Marshal_dlq x = Inr p \<Longrightarrow> P (RPUSH (dlqKey tenant type') p)"
begin

lemmas worker_allowed [simp] = scripts [unfolded acquire_cmd_def reclaim_cmd_def max_age_secs_def] marks acks

lemma SetProcessing_chain: "chain e P w (snd (SetProcessing e cfg scr k i w))"
  by (auto simp: SetProcessing_def Let_def split: prod.splits sum.splits elim!: chain_client chain_time)

lemma TryReclaimStale_chain: "chain e P w (snd (TryReclaimStale e cfg scr k i age w))"
  by (auto simp: TryReclaimStale_def Let_def split: prod.splits sum.splits elim!: chain_client chain_time)

lemma SetCompleted_chain: "chain e P w (snd (SetCompleted e cfg k w))"
  by (auto simp: SetCompleted_def Let_def split: prod.splits option.splits elim!: chain_client chain_time)

lemma IsCompleted_chain: "chain e P w (snd (IsCompleted e k w))"
  by (auto simp: IsCompleted_def Let_def split: prod.splits sum.splits elim!: chain_client)

lemma ClearProcessing_chain: "chain e P w (snd (ClearProcessing e k w))"
  by (auto simp: ClearProcessing_def Let_def split: prod.splits option.splits elim!: chain_client)

lemma Acknowledge_chain: "chain e P w (snd (Acknowledge e cfg t w))"
  by (auto simp: Acknowledge_def Let_def split: prod.splits option.splits elim!: chain_client)

lemma ScheduleRetry_chain: "fit t \<Longrightarrow> chain e P w (snd (ScheduleRetry e t delay w))"
  by (auto simp: ScheduleRetry_def Let_def retry split: prod.splits option.splits sum.splits elim!: chain_client chain_time)

lemma SendToDLQ_chain: "(\<And>t. Task x = Some t \<Longrightarrow> fit t) \<Longrightarrow> chain e P w (snd (SendToDLQ e cfg (Some x) w))"
  by (auto simp: SendToDLQ_def Let_def dead split: prod.splits option.splits sum.splits
      intro!: chain_metric elim!: chain_client chain_pipe)

end

locale worker_commands = queue_commands P fit + attempt_commands P fit
  for P :: "rcmd \<Rightarrow> bool" and fit :: "EmailTask \<Rightarrow> bool"

end
