(* ===== verification/Pool_Safety.thy ===== *)
theory Pool_Safety
  imports Pool Background
begin

text \<open>
  The pool and the Redis adapters together: over every interleaving of the actions of the dispatch loop, the
  goroutines, cancellation, draining and whatever else talks to Redis, a message leaves the pending list
  only after a worker that works on it has put the task somewhere safe.
\<close>

text \<open>Where a task is when its message may go: the same four places as in \<open>Handoff\<close>.\<close>

definition task_safe ::
  "('s \<Rightarrow> keyspace) \<Rightarrow> (EmailTask \<Rightarrow> 'm) \<Rightarrow> ('s \<Rightarrow> 'm list) \<Rightarrow> 's \<Rightarrow> EmailTask \<Rightarrow> 's \<Rightarrow> bool" where
  "task_safe ks mail accepted w0 task w \<longleftrightarrow>
     accepted w = accepted w0 @ [mail task] \<or>
     completed_in (attemptKey (ID task) (Attempt task)) (ks w) \<or>
     (\<exists>er. IsRetryable task \<and> retry_stored (task\<lparr>LastError := Error er, Status := StatusFailed,
        Attempt := Attempt task + 1\<rparr>) (ks w)) \<or>
     (\<exists>x er. dlq_stored x (ks w) \<and> Task x = Some (task\<lparr>LastError := Error er, Status := StatusFailed\<rparr>) \<and>
        FinalError x = Error er)"

subsection \<open>The actions of one worker\<close>

context message_ports begin

lemma keeps_nack: "on_world (port_Nack (consumer d) u er) st = (r, st') \<Longrightarrow> pend t (world st) \<Longrightarrow> pend t (world st')"
  by (erule pend_on_world) (erule nack)

lemma keeps_set_processing:
  "on_world (port_SetProcessing (idempotency d) k i) st = (r, st') \<Longrightarrow> pend t (world st) \<Longrightarrow> pend t (world st')"
  by (erule pend_on_world) (erule set_processing)

lemma keeps_is_completed:
  "on_world (port_IsCompleted (idempotency d) k) st = (r, st') \<Longrightarrow> pend t (world st) \<Longrightarrow> pend t (world st')"
  by (erule pend_on_world) (metis is_completed prod.collapse)

lemma keeps_reclaim:
  "on_world (port_TryReclaimStale (idempotency d) k i age) st = (r, st') \<Longrightarrow> pend t (world st) \<Longrightarrow> pend t (world st')"
  by (erule pend_on_world) (erule reclaim)

lemma keeps_clear:
  "on_world (port_ClearProcessing (idempotency d) k) st = (r, st') \<Longrightarrow> pend t (world st) \<Longrightarrow> pend t (world st')"
  by (erule pend_on_world) (erule clear)

lemma keeps_schedule:
  "on_world (port_ScheduleRetry (retryScheduler d) u delay) st = (r, st') \<Longrightarrow> pend t (world st) \<Longrightarrow> pend t (world st')"
  by (erule pend_on_world) (drule schedule, simp)

lemma keeps_dead:
  "on_world (port_SendToDLQ (dlqWriter d) (Some x)) st = (r, st') \<Longrightarrow> pend t (world st) \<Longrightarrow> pend t (world st')"
  by (erule pend_on_world) (drule dead, simp)

lemma keeps_send: "on_world (port_Send (sender d) u) st = (r, st') \<Longrightarrow> pend t (world st) \<Longrightarrow> pend t (world st')"
  using send by (auto simp: on_world_def split: prod.splits)

lemma keeps_clock: "on_world (clock d) st = (r, st') \<Longrightarrow> pend t (world st) \<Longrightarrow> pend t (world st')"
  by (erule pend_on_world) (erule clocks)

lemma keeps_random: "on_world (random d) st = (r, st') \<Longrightarrow> pend t (world st) \<Longrightarrow> pend t (world st')"
  by (erule pend_on_world) (erule randoms)

lemmas keeps_world = keeps_nack keeps_set_processing keeps_is_completed keeps_reclaim keeps_clear keeps_schedule
  keeps_dead keeps_send keeps_clock keeps_random other_completed

lemmas keeps_snd [simp] = keeps_world [OF prod.collapse [symmetric]]

end

text \<open>The actions of a worker on the message \<open>m\<close> leave every other message pending.\<close>

sublocale message_ports \<subseteq> frame: worker_acts d "\<lambda>t. msg t = m"
    "\<lambda>st st'. \<forall>t. msg t \<noteq> m \<longrightarrow> pend t (world st) \<longrightarrow> pend t (world st')" for m
  by unfold_locales (auto simp: msg_failed msg_attempt elim: keeps_world other_ack intro: pend_metric)

context message_ports begin

abbreviation keeps :: "'w Supervisor \<Rightarrow> 'w Supervisor \<Rightarrow> bool" where
  "keeps st st' \<equiv> \<forall>t. pend t (world st) \<longrightarrow> pend t (world st')"

abbreviation secures :: "EmailTask \<Rightarrow> 'w Supervisor \<Rightarrow> 'w Supervisor \<Rightarrow> bool" where
  "secures task st st' \<equiv> safe (accepted (world st)) task (world st')"

abbreviation handoff :: "EmailTask \<Rightarrow> ('w, 'a) prog \<Rightarrow> bool" where
  "handoff task \<equiv> until keeps (secures task)"

lemma handoff_call:
  "(\<And>st t. pend t (world st) \<Longrightarrow> pend t (world (snd (on_world f st)))) \<Longrightarrow>
   (\<And>r. handoff task (k r)) \<Longrightarrow> handoff task (call f k)"
  by (rule until_call) (metis snd_conv)

lemma handoff_upd: "(\<And>st. keeps st (f st)) \<Longrightarrow> handoff task p \<Longrightarrow> handoff task (upd f p)"
  by (rule until_upd)

lemma handoff_clear: "handoff task p \<Longrightarrow> handoff task (clear_and_nack_prog d u k er p)"
  unfolding clear_and_nack_prog_def by (intro handoff_call) simp_all

text \<open>The call that secures the task when its answer is \<open>good\<close>; after any other answer the program goes on.\<close>

lemma handoff_point:
  assumes keep: "\<And>t st. pend t (world st) \<Longrightarrow> pend t (world (snd (on_world f st)))"
    and "\<And>w0 r w. f w0 = (r, w) \<Longrightarrow> good r \<Longrightarrow> safe (accepted w0) task w"
    and "\<And>r. \<not> good r \<Longrightarrow> handoff task (k r)"
  shows "handoff task (call f k)"
proof (rule until_call)
  fix st r st' assume c: "on_world f st = (r, st')"
  then have "f (world st) = (r, world st')" by (auto simp: on_world_def split: prod.splits)
  moreover have "keeps st st'" using keep [of _ st] by (simp add: c)
  ultimately show "secures task st st' \<or> keeps st st' \<and> handoff task (k r)" 
    using assms(2) [of "world st" r "world st'"] assms(3) [of r] by (cases "good r") simp_all
qed

lemma safe_sent: "accepted w = l @ [mail task] \<Longrightarrow> safe l task w"
  by (simp add: safe_def)

lemma safe_completed: "compl (attemptKey (ID task) (Attempt task)) w \<Longrightarrow> safe l task w"
  by (simp add: safe_def)

lemma safe_retry:
  assumes "retry_st (u\<lparr>Attempt := Attempt u + 1\<rparr>) w" "u = task\<lparr>LastError := Error er, Status := StatusFailed\<rparr>" "IsRetryable task"
  shows "safe l task w"
  using assms by (auto simp: safe_def)

lemma safe_dead:
  assumes "dlq_st x w" "Task x = Some (task\<lparr>LastError := Error er, Status := StatusFailed\<rparr>)" "FinalError x = Error er"
  shows "safe l task w"
  using assms unfolding safe_def by blast

lemma handoff_refused:
  assumes "\<And>g. handoff task (k g)"
  shows "handoff task (refused_prog d cfg task (attemptKey (ID task) (Attempt task)) k)"
  unfolding refused_prog_def
  by (rule handoff_point [where good = fst])
    (auto simp: assms dest: is_completed intro!: handoff_call safe_completed)

lemma handoff_gate:
  "(\<And>g. handoff task (k g)) \<Longrightarrow> handoff task (gate_prog d cfg task (attemptKey (ID task) (Attempt task)) k)"
  unfolding gate_prog_def by (auto intro!: handoff_call handoff_refused)

lemma handoff_dead_letter:
  assumes "u = task\<lparr>LastError := Error er, Status := StatusFailed\<rparr>"
  shows "handoff task (dead_letter_prog d u k er nr dur)"
  unfolding dead_letter_prog_def
proof (rule handoff_call)
  fix now
  show "handoff task (call (port_SendToDLQ (dlqWriter d) (Some \<lparr>Task = Some u, DeadAt = now,
         FailureReason = (if nr then ''non-retryable error'' else ''max attempts exceeded''),
         FinalError = Error er, AttemptHistory = []\<rparr>)) (\<lambda>dlqErr. case dlqErr of
       Some err \<Rightarrow> clear_and_nack_prog d u k err (Stop (DLQFailed, u))
     | None \<Rightarrow> call (port_Acknowledge (consumer d) u) (\<lambda>_. upd (metric_st d (processed_metric u ''dead'' dur)) (Stop (Dead, u)))))"
    by (rule handoff_point [where good = "\<lambda>r. r = None"])
      (auto simp: assms dest!: dead intro: safe_dead intro!: handoff_clear)
qed simp

lemma handoff_schedule_retry:
  assumes "u = task\<lparr>LastError := Error er, Status := StatusFailed\<rparr>" "IsRetryable task"
  shows "handoff task (schedule_retry_prog d u k dur)"
  unfolding schedule_retry_prog_def Let_def
  by (intro handoff_call handoff_point [where good = "\<lambda>r. r = None"])
    (auto dest!: schedule intro: safe_retry [OF _ assms] intro!: handoff_clear)

lemma handoff_failed_delivery: "handoff task (failed_delivery_prog d task k er dur)"
  unfolding failed_delivery_prog_def Let_def
  by (auto intro!: handoff_upd handoff_dead_letter handoff_schedule_retry)

lemma handoff_recover: "handoff task (recover_prog d task m)"
  unfolding recover_prog_def Let_def by (auto intro!: handoff_upd handoff_call)

lemma handoff_send:
  assumes "\<And>r. r \<noteq> Returned None \<Longrightarrow> handoff task (p r)"
  shows "handoff task (call (port_Send (sender d) task) p)"
  by (rule handoff_point [where good = "\<lambda>r. r = Returned None"]) (auto simp: assms dest!: send intro: safe_sent)

lemma worker_prog_handoff: "handoff task (worker_prog d cfg task)"
  unfolding worker_prog_def Let_def
  by (intro handoff_gate)
    (auto intro!: handoff_recover handoff_call handoff_failed_delivery handoff_send split: option.split send_outcome.split)

end

subsection \<open>All interleavings\<close>

text \<open>\<open>m\<close> is one message that the rest of the world leaves pending.\<close>

locale pool_ports = message_ports d mail accepted pend retry_st dlq_st compl msg
  for d :: "'w deps" and mail :: "EmailTask \<Rightarrow> 'm" and accepted pend retry_st dlq_st compl and msg :: "EmailTask \<Rightarrow> 'i" +
  fixes cfg :: Config and others :: "'w \<Rightarrow> 'w \<Rightarrow> bool" and m :: 'i
  assumes claim_pend: "port_ClaimStale (consumer d) idle w = (res, w') \<Longrightarrow> pend t w \<Longrightarrow> pend t w'"
    and others_pend: "others w w' \<Longrightarrow> msg t = m \<Longrightarrow> pend t w \<Longrightarrow> pend t w'"
begin

abbreviation pool_run :: "'w pool \<Rightarrow> 'w pool \<Rightarrow> bool" where
  "pool_run \<equiv> (pool_step d cfg others)\<^sup>*\<^sup>*"

text \<open>Some worker on \<open>m\<close> has made the step that secures its task.\<close>

definition secured :: "'w pool \<Rightarrow> 'w pool \<Rightarrow> bool" where
  "secured s0 s \<longleftrightarrow> (\<exists>u u' task p. pool_run s0 u \<and> pool_step d cfg others u u' \<and> pool_run u' s \<and>
     (task, p) \<in> set (working u) \<and> msg task = m \<and> secures task (spv u) (spv u'))"

lemma secured_step:
  assumes "secured s0 s" and "pool_step d cfg others s s'"
  shows "secured s0 s'"
proof -
  from assms(1) obtain u u' task p where "pool_run s0 u" "pool_step d cfg others u u'" and run: "pool_run u' s"
    and "(task, p) \<in> set (working u)" "msg task = m" "secures task (spv u) (spv u')" unfolding secured_def by blast
  moreover from run assms(2) have "pool_run u' s'" by (rule rtranclp.rtrancl_into_rtrancl)
  ultimately show ?thesis unfolding secured_def by blast
qed

lemma securedI:
  "pool_run s0 s \<Longrightarrow> pool_step d cfg others s s' \<Longrightarrow> (task, p) \<in> set (working s) \<Longrightarrow> msg task = m \<Longrightarrow>
   secures task (spv s) (spv s') \<Longrightarrow> secured s0 s'"
  unfolding secured_def by blast

text \<open>Each worker leaves the other messages alone; one on \<open>m\<close> is yet to secure its task, or somebody has.\<close>

definition frames :: "EmailTask \<Rightarrow> ('w, 'a) prog \<Rightarrow> bool" where
  "frames task = all_acts (\<lambda>st st'. \<forall>t. msg t \<noteq> msg task \<longrightarrow> pend t (world st) \<longrightarrow> pend t (world st'))"

lemma frames_act: "frames task (Act f p) \<Longrightarrow> frames task (p st)"
  "frames task (Act f p) \<Longrightarrow> msg t \<noteq> msg task \<Longrightarrow> pend t (world st) \<Longrightarrow> pend t (world (f st))"
  by (simp_all add: frames_def)

lemma frames_worker: "frames task (worker_prog d cfg task)"
  unfolding frames_def by (rule frame.worker_prog_acts) simp

definition hand_inv :: "'w pool \<Rightarrow> 'w pool \<Rightarrow> bool" where
  "hand_inv s0 s \<longleftrightarrow>
     (\<forall>task p. (task, p) \<in> set (working s) \<longrightarrow> frames task p \<and> (msg task = m \<longrightarrow> handoff task p \<or> secured s0 s))"

lemma hand_inv_same: "hand_inv s0 s \<Longrightarrow> pool_step d cfg others s s' \<Longrightarrow> set (working s') \<subseteq> set (working s) \<Longrightarrow> hand_inv s0 s'"
  using secured_step unfolding hand_inv_def by blast

lemma hand_inv_act:
  assumes "pool_run s0 s" "hand_inv s0 s" and w: "working s = xs @ (task, Act f p) # ys"
  defines "s' \<equiv> s\<lparr>working := xs @ (task, p (spv s)) # ys, spv := f (spv s)\<rparr>"
  shows "hand_inv s0 s'" "msg t = m \<Longrightarrow> pend t (world (spv s)) \<Longrightarrow> pend t (world (spv s')) \<or> secured s0 s'"
proof -
  have step: "pool_step d cfg others s s'" unfolding s'_def by (intro pool_step.worker worker_step.act w)
  have own: "frames task (Act f p)" "msg task = m \<Longrightarrow> handoff task (Act f p) \<or> secured s0 s"
    using assms(2) w by (auto simp: hand_inv_def)
  have mine: "secured s0 s' \<or> keeps (spv s) (f (spv s)) \<and> handoff task (p (spv s))" if "msg task = m"
  proof (cases "secured s0 s")
    case True
    then show ?thesis using secured_step [OF _ step] by simp
  next
    case False
    then have "secures task (spv s) (f (spv s)) \<or> keeps (spv s) (f (spv s)) \<and> handoff task (p (spv s))"
      using own(2) [OF that] by simp
    moreover have "secures task (spv s) (f (spv s)) \<Longrightarrow> secured s0 s'"
      using securedI [OF assms(1) step _ that, of "Act f p"] w by (simp add: s'_def)
    ultimately show ?thesis by blast
  qed
  show "hand_inv s0 s'"
    unfolding hand_inv_def
  proof (intro allI impI)
    fix t' p' assume "(t', p') \<in> set (working s')"
    then consider "t' = task" "p' = p (spv s)" | "(t', p') \<in> set (working s)" by (auto simp: s'_def w)
    then show "frames t' p' \<and> (msg t' = m \<longrightarrow> handoff t' p' \<or> secured s0 s')"
    proof cases
      case 1
      then show ?thesis using mine frames_act(1) [OF own(1)] by blast
    next
      case 2
      then have "frames t' p'" "msg t' = m \<Longrightarrow> handoff t' p' \<or> secured s0 s"
        using assms(2) unfolding hand_inv_def by blast+
      then show ?thesis using secured_step [OF _ step] by blast
    qed
  qed
  show "pend t (world (spv s')) \<or> secured s0 s'" if "msg t = m" "pend t (world (spv s))"
    using that mine frames_act(2) [OF own(1)] by (cases "msg task = m") (auto simp: s'_def)
qed

lemma hand_step:
  assumes "pool_run s0 s" "hand_inv s0 s" and step: "pool_step d cfg others s s'"
  shows "hand_inv s0 s' \<and> (\<forall>t. msg t = m \<longrightarrow> pend t (world (spv s)) \<longrightarrow> pend t (world (spv s')) \<or> secured s0 s')"
  using step
proof (cases rule: pool_step.cases)
  case worker
  then show ?thesis
  proof (cases rule: worker_step.cases)
    case (start xs task ys)
    have "hand_inv s0 s'" using assms(2) secured_step [OF _ step] start
      by (auto simp: hand_inv_def worker_start_def frames_worker worker_prog_handoff)
    then show ?thesis using start by (simp add: worker_start_def)
  next
    case (act xs task f p ys)
    show ?thesis unfolding act(1) using hand_inv_act [OF assms(1,2) act(2)] by blast
  qed (use hand_inv_same [OF assms(2) step] pend_metric in \<open>auto simp: worker_release_def worker_exit_def worker_report_def\<close>)
next
  case (claim ts st)
  then show ?thesis using hand_inv_same [OF assms(2) step] claim_pend by (auto simp: on_world_def split: prod.splits)
next
  case (claim_error er st)
  then show ?thesis using hand_inv_same [OF assms(2) step] claim_pend by (auto simp: on_world_def split: prod.splits)
next
  case (dispatch_done u ts)
  then show ?thesis using hand_inv_same [OF assms(2) step] by (simp add: dispatch_nack_def)
next
  case (meanwhile w)
  then show ?thesis using hand_inv_same [OF assms(2) step] others_pend by auto
qed (use hand_inv_same [OF assms(2) step] in \<open>auto simp: dispatch_go_def\<close>)

lemma hand_run: "pool_run s0 s \<Longrightarrow> working s0 = [] \<Longrightarrow> hand_inv s0 s"
proof (induction rule: rtranclp_induct)
  case base
  then show ?case by (simp add: hand_inv_def)
next
  case (step y z)
  then show ?case using hand_step by blast
qed

lemma pool_handoff:
  assumes "working s0 = []" "pool_run s0 s" "pool_run s s'" "msg t = m" "pend t (world (spv s))" "\<not> pend t (world (spv s'))"
  shows "secured s0 s'"
  using assms(3,6)
proof (induction rule: rtranclp_induct)
  case base
  then show ?case using assms(5) by simp
next
  case (step y z)
  have y: "pool_run s0 y" using assms(2) step.hyps(1) by simp
  show ?case
  proof (cases "pend t (world (spv y))")
    case True
    then show ?thesis using hand_step [OF y hand_run [OF y assms(1)] step.hyps(2)] assms(4) step.prems by blast
  next
    case False
    then show ?thesis using step.IH secured_step step.hyps(2) by blast
  qed
qed

end

subsection \<open>The Redis adapters\<close>

context redis_system begin

abbreviation redis_ports :: "'s deps" where
  "redis_ports \<equiv> redis_deps e cfg scr snd'"

lemma claim_keeps:
  assumes "port_ClaimStale (consumer redis_ports) idle w = (res, w')" and "pending cfg t (ks w)"
  shows "pending cfg t (ks w')"
proof -
  have "ClaimStale e cfg idle w = (res, w')" using assms(1) by (simp add: port_defs)
  then have "pel_keeps (ks w) (ks w')" using claim_streams_spec by (auto simp: ClaimStale_def)
  with assms(2) show ?thesis by (rule pending_keeps)
qed

lemma elsewhere_keeps:
  assumes "elsewhere e cfg t w w'" and "message_of u = message_of t" and "pending cfg u (ks w)"
  shows "pending cfg u (ks w')"
  using assms(1)
proof (cases rule: sends.cases)
  case (command c r)
  show ?thesis
  proof (cases "\<exists>key g i. c = XACK key g i")
    case True
    then obtain key g i where c: "c = XACK key g i" by blast
    then have "ks w' = ks w \<or> ks w' = upd_stream key (upd_pel g (\<lambda>p. p(i := None))) (ks w)"
      using xack_effs client_effs [OF command(1)] by blast
    moreover have "(key, g, i) \<noteq> (metadata_get u metaStreamKey, ConsumerGroup (CfgWorker cfg), metadata_get u metaStreamID)"
      using command(2) c assms(2) by (auto simp: message_of_def)
    ultimately show ?thesis using assms(3) by (auto simp: pending_def pel_of_upd_pel)
  next
    case False
    then show ?thesis using pending_keeps [OF assms(3) client_pel_keeps [OF command(1)]] by blast
  qed
qed (use assms(3) in \<open>auto dest: now_ks ctx_ks rand_ks\<close>)

text \<open>A delivery whose acknowledgement is confirmed takes the message off the list.\<close>

lemma delivered_not_pending:
  assumes "Acknowledge e cfg task (world st) = (None, w1)"
  shows "\<not> pending cfg task (ks (world (delivered redis_ports task k dur st)))"
proof -
  have "\<not> pending cfg task (ks w1)"
    using Acknowledge_spec [OF assms] acked_not_pending [of cfg task "ks (world st)"] by simp
  moreover obtain r w2 where c: "SetCompleted e cfg k w1 = (r, w2)" by fastforce
  ultimately have "\<not> pending cfg task (ks w2)" using SetCompleted_spec [OF c] pending_strs by blast
  then show ?thesis using assms c by (simp add: delivered_def on_world_def port_defs metric_st_def)
qed

end

sublocale redis_system \<subseteq> pool: pool_ports "redis_deps e cfg scr snd'" mail accepted
  "\<lambda>t w. pending cfg t (ks w)" "\<lambda>t w. retry_stored t (ks w)" "\<lambda>x w. dlq_stored x (ks w)"
  "\<lambda>k w. completed_in k (ks w)" message_of cfg "elsewhere e cfg t" "message_of t" for t
  by unfold_locales (auto dest: claim_keeps elsewhere_keeps)

context redis_system begin

lemmas pool_keeps_message = pool.pool_handoff [unfolded pool.secured_def ports.safe_def]

end

subsection \<open>Properties\<close>

text \<open>C2: The pool loses no message: over every interleaving of the single actions of the dispatch loop, the workers, cancellation and
  draining with whatever else is sent to Redis in the meantime (the poll loop, the retry scheduler, the API, other
  machines; only nobody else acknowledges this message), and whatever Redis commands get
  lost or repeated: if a message was pending and no longer is, then some worker on this very message has made
  an action after which the email was accepted, or the attempt completed, or the task in the retry set or in a dead-letter list.\<close>

theorem pool_never_loses:
  assumes "redis_system e ks cfg snd' mail accepted" and "working s0 = []"
    and "(pool_step (redis_deps e cfg scr snd') cfg (elsewhere e cfg t))\<^sup>*\<^sup>* s0 s"
    and "(pool_step (redis_deps e cfg scr snd') cfg (elsewhere e cfg t))\<^sup>*\<^sup>* s s'"
    and "pending cfg t (ks (world (spv s)))" and "\<not> pending cfg t (ks (world (spv s')))"
  shows "\<exists>u u' task p. (pool_step (redis_deps e cfg scr snd') cfg (elsewhere e cfg t))\<^sup>*\<^sup>* s0 u \<and>
    pool_step (redis_deps e cfg scr snd') cfg (elsewhere e cfg t) u u' \<and>
    (pool_step (redis_deps e cfg scr snd') cfg (elsewhere e cfg t))\<^sup>*\<^sup>* u' s' \<and>
    (task, p) \<in> set (working u) \<and> message_of task = message_of t \<and>
    task_safe ks mail accepted (world (spv u)) task (world (spv u'))"
  using redis_system.pool_keeps_message [OF assms(1-4) refl assms(5,6)] by (auto simp: task_safe_def)

subsection \<open>Witnesses\<close>

text \<open>One goroutine launched with the message, a provider that accepts, and no faults.\<close>

definition busy_pool :: "mem_sys pool" where
  "busy_pool = (new_pool (idle_supervisor (sys_world pending_ks [] [])))\<lparr>launched := [stamped_task]\<rparr>"

abbreviation mem_ports :: "mem_sys deps" where
  "mem_ports \<equiv> redis_deps (mem_env True) sample_config sample_scripts mem_sender"

lemma busy_gate:
  "\<exists>st1. idempotency_gate mem_ports sample_config stamped_task k ((spv busy_pool)\<lparr>activeWorkers := n\<rparr>) = (None, st1) \<and>
     mem_faults (world st1) = [] \<and> mem_results (world st1) = []"
  by (auto simp: busy_pool_def new_pool_def idempotency_gate_def port_defs on_world_def idle_supervisor_def
      SetProcessing_def mem_eval sample_scripts_def sys_world_def pending_ks_def
      idempotencyLuaScript_def lua_set_ex_def reply_int_def sample_world_def empty_ks_def Let_def)

lemma mem_ack: "mem_faults w = [] \<Longrightarrow> \<exists>w1. Acknowledge (mem_env True) sample_config t w = (None, w1)"
  by (simp add: Acknowledge_def mem_eval Let_def)

lemma busy_delivers:
  "\<not> pending sample_config stamped_task (mem_ks (world (snd (processTask mem_ports sample_config stamped_task (spv busy_pool)))))"
proof -
  let ?k = "attemptKey (ID stamped_task) (Attempt stamped_task)"
  let ?st = "(spv busy_pool)\<lparr>activeWorkers := activeWorkers (spv busy_pool) + 1\<rparr>"
  obtain st1 where g: "idempotency_gate mem_ports sample_config stamped_task ?k ?st = (None, st1)"
    and f: "mem_faults (world st1) = []" "mem_results (world st1) = []" using busy_gate by blast
  obtain st3 where s3: "on_world (port_Send mem_sender stamped_task) st1 = (Returned None, st3)" and f3: "mem_faults (world st3) = []"
    using f by (simp add: on_world_def mem_sender_def)
  have c: "on_world (clock mem_ports) st = (mem_clock (world st), st)" for st by (simp add: on_world_def port_defs)
  have "sender mem_ports = mem_sender" by (simp add: port_defs)
  then obtain dur where "process_body mem_ports sample_config stamped_task ?st =
      ((Sent, stamped_task), delivered mem_ports stamped_task ?k dur st3)"
    using g s3 by (simp add: process_body_def c)
  moreover obtain w1 where "Acknowledge (mem_env True) sample_config stamped_task (world st3) = (None, w1)" using mem_ack [OF f3] by blast
  moreover have "mem_ks (metrics mem_ports m w) = mem_ks w" for m w by (simp add: port_defs)
  ultimately show ?thesis using mem_system.delivered_not_pending
    by (simp add: processTask_def recover_panic_def release_slot_def metric_st_def Let_def)
qed

theorem pool_never_loses_witness:
  "\<exists>u u' task p. pool_step mem_ports sample_config (elsewhere (mem_env True) sample_config stamped_task) u u' \<and>
     (task, p) \<in> set (working u) \<and> message_of task = message_of stamped_task \<and>
     task_safe mem_ks id mem_accepted (world (spv u)) task (world (spv u'))"
proof -
  let ?s' = "run_alone mem_ports sample_config stamped_task busy_pool"
  let ?step = "pool_step mem_ports sample_config (elsewhere (mem_env True) sample_config stamped_task)"
  have idle: "launched busy_pool = [stamped_task]" "working busy_pool = []" by (simp_all add: busy_pool_def new_pool_def)
  have run: "?step\<^sup>*\<^sup>* busy_pool ?s'"
    using run_alone_steps [OF idle] by (rule rtranclp_mono [THEN predicate2D, rotated]) (auto intro: pool_step.worker)
  have pend: "pending sample_config stamped_task (mem_ks (world (spv busy_pool)))"
    using stamped_task_pending by (simp add: busy_pool_def new_pool_def idle_supervisor_def)
  have "\<not> pending sample_config stamped_task (mem_ks (world (spv ?s')))"
    using busy_delivers by (simp add: run_alone_processTask)
  from pool_never_loses [OF mem_system.redis_system_axioms idle(2) rtranclp.rtrancl_refl run pend this] show ?thesis by blast
qed

end
