(* ===== verification/Command_Inv.thy ===== *)
theory Command_Inv
  imports Pool_Safety
begin

text \<open>
  Invariants from commands: a relation \<open>R\<close> between key spaces that every command the program sends respects is respected
  by every action of the pool, and what \<open>R\<close> preserves of the tasks that are read from the streams (\<open>H\<close>) holds of every
  task the pool has in its hands.
\<close>

text \<open>The tasks in the channel, with the dispatcher, launched, and being worked on.\<close>

definition held_tasks :: "'w pool \<Rightarrow> EmailTask list" where
  "held_tasks s = taskCh s @ launched s @ (case run_at s of Dispatching ts \<Rightarrow> ts | _ \<Rightarrow> [])"

definition pool_tasks :: "'w pool \<Rightarrow> EmailTask list" where
  "pool_tasks s = held_tasks s @ map fst (working s)"

text \<open>First the worker alone.\<close>

locale attempt_invariant = redis_system e ks cfg scr snd' mail accepted + attempt_commands P fit
  for e :: "'s env" and ks :: "'s \<Rightarrow> keyspace" and cfg :: Config and scr :: ScriptRegistry and snd' :: "'s EmailSender"
    and mail :: "EmailTask \<Rightarrow> 'm" and accepted :: "'s \<Rightarrow> 'm list" and P :: "rcmd \<Rightarrow> bool" and fit :: "EmailTask \<Rightarrow> bool" +
  fixes R :: "keyspace \<Rightarrow> keyspace \<Rightarrow> bool"
  assumes R_refl [simp]: "R k k"
    and R_trans: "R k k' \<Longrightarrow> R k' k'' \<Longrightarrow> R k k''"
    and R_cmd: "redis_ok c k r k' \<Longrightarrow> P c \<Longrightarrow> R k k'"
    and fit_failed: "fit t \<Longrightarrow> fit (t\<lparr>LastError := a, Status := b\<rparr>)"
    and fit_attempt: "fit t \<Longrightarrow> fit (t\<lparr>Attempt := n\<rparr>)"
begin

lemma R_effs: "redis_effs c k k' \<Longrightarrow> P c \<Longrightarrow> R k k'"
  by (erule redis_effs_induct [where P = "R k"]) (auto intro: R_trans R_cmd)

lemma R_sends: "sends e P w w' \<Longrightarrow> R (ks w) (ks w')"
  by (induction rule: sends.induct) (auto dest: client_effs now_ks ctx_ks rand_ks intro: R_effs)

lemma R_chain: "chain e P w w' \<Longrightarrow> R (ks w) (ks w')"
  by (induction rule: rtranclp_induct) (auto intro: R_trans R_sends)

definition keeps_R :: "'s Supervisor \<Rightarrow> 's Supervisor \<Rightarrow> bool" where
  "keeps_R st st' \<longleftrightarrow> R (ks (world st)) (ks (world st'))"

lemma keeps_R_chain: "on_world f st = (r, st') \<Longrightarrow> chain e P (world st) (snd (f (world st))) \<Longrightarrow> keeps_R st st'"
  by (auto simp: keeps_R_def on_world_def R_chain split: prod.splits)

lemma keeps_R_same: "on_world f st = (r, st') \<Longrightarrow> ks (snd (f (world st))) = ks (world st) \<Longrightarrow> keeps_R st st'"
  by (auto simp: keeps_R_def on_world_def split: prod.splits)

end

lemma redis_deps_sels:
  "sender (redis_deps e cfg scr snd') = snd'" "clock (redis_deps e cfg scr snd') = time_now e" "random (redis_deps e cfg scr snd') = rand_float e"
  by (simp_all add: redis_deps_def)

sublocale attempt_invariant \<subseteq> keeping: worker_acts "redis_deps e cfg scr snd'" fit keeps_R
proof unfold_locales
  show "fit (t\<lparr>LastError := a, Status := b\<rparr>)" if "fit t" for t a b using that by (rule fit_failed)
  show "fit (t\<lparr>Attempt := n\<rparr>)" if "fit t" for t n using that by (rule fit_attempt)
  show "on_world (port_Acknowledge (consumer redis_ports) t) st = (r1, st') \<Longrightarrow> keeps_R st st'" for t st r1 st'
    by (erule keeps_R_chain) (simp add: port_defs Acknowledge_chain)
  show "on_world (port_Nack (consumer redis_ports) t er) st = (r1, st') \<Longrightarrow> keeps_R st st'" for t er st r1 st'
    by (erule keeps_R_same) (simp add: port_defs Nack_def)
  show "on_world (port_SetProcessing (idempotency redis_ports) k i) st = (r3, st') \<Longrightarrow> keeps_R st st'" for k i st r3 st'
    by (erule keeps_R_chain) (simp add: port_defs SetProcessing_chain)
  show "on_world (port_IsCompleted (idempotency redis_ports) k) st = (r3, st') \<Longrightarrow> keeps_R st st'" for k st r3 st'
    by (erule keeps_R_chain) (simp add: port_defs IsCompleted_chain)
  show "on_world (port_SetCompleted (idempotency redis_ports) k) st = (r1, st') \<Longrightarrow> keeps_R st st'" for k st r1 st'
    by (erule keeps_R_chain) (simp add: port_defs SetCompleted_chain)
  show "on_world (port_TryReclaimStale (idempotency redis_ports) k i age) st = (r3, st') \<Longrightarrow> keeps_R st st'" for k i age st r3 st'
    by (erule keeps_R_chain) (simp add: port_defs TryReclaimStale_chain)
  show "on_world (port_ClearProcessing (idempotency redis_ports) k) st = (r1, st') \<Longrightarrow> keeps_R st st'" for k st r1 st'
    by (erule keeps_R_chain) (simp add: port_defs ClearProcessing_chain)
  show "fit t \<Longrightarrow> on_world (port_ScheduleRetry (retryScheduler redis_ports) t delay) st = (r1, st') \<Longrightarrow> keeps_R st st'" for t delay st r1 st'
    by (erule keeps_R_chain) (simp add: port_defs ScheduleRetry_chain)
  show "Task x = Some t \<Longrightarrow> fit t \<Longrightarrow> on_world (port_SendToDLQ (dlqWriter redis_ports) (Some x)) st = (r1, st') \<Longrightarrow> keeps_R st st'" for x t st r1 st'
    by (erule keeps_R_chain) (auto simp: port_defs intro!: SendToDLQ_chain)
  show "on_world (port_Send (sender redis_ports) t) st = (so, st') \<Longrightarrow> keeps_R st st'" for t st so st'
    by (erule keeps_R_same) (metis send_law redis_deps_sels(1) prod.collapse)
  show "on_world (clock redis_ports) st = (now, st') \<Longrightarrow> keeps_R st st'" for st now st'
    by (erule keeps_R_same) (metis redis_deps_sels(2) now_ks prod.collapse)
  show "on_world (random redis_ports) st = (rn, st') \<Longrightarrow> keeps_R st st'" for st rn st'
    by (erule keeps_R_same) (metis redis_deps_sels(3) rand_ks prod.collapse)
qed (simp_all add: keeps_R_def metric_st_def port_defs)

context attempt_invariant begin

lemma processTask_keeps:
  assumes "processTask redis_ports cfg t st = (r, st')" and "fit t"
  shows "R (ks (world st)) (ks (world st'))"
proof -
  let ?st = "st\<lparr>activeWorkers := activeWorkers st + 1\<rparr>"
  have "keeps_R ?st (snd (run_prog (worker_prog redis_ports cfg t) ?st))"
    by (rule all_acts_run [OF keeping.worker_prog_acts [OF assms(2)]]) (auto simp: keeps_R_def intro: R_trans)
  then show ?thesis using assms(1)
    by (auto simp: keeps_R_def run_worker processTask_def release_slot_def metric_st_def port_defs Let_def split: prod.splits)
qed

end

text \<open>Then the pool, with the tasks it reads.\<close>

locale command_invariant = attempt_invariant e ks cfg scr snd' mail accepted P fit R + worker_commands P fit
  for e :: "'s env" and ks :: "'s \<Rightarrow> keyspace" and cfg :: Config and scr :: ScriptRegistry and snd' :: "'s EmailSender"
    and mail :: "EmailTask \<Rightarrow> 'm" and accepted :: "'s \<Rightarrow> 'm list" and P :: "rcmd \<Rightarrow> bool" and fit :: "EmailTask \<Rightarrow> bool"
    and R :: "keyspace \<Rightarrow> keyspace \<Rightarrow> bool" +
  fixes H :: "keyspace \<Rightarrow> EmailTask \<Rightarrow> bool"
  assumes H_mono: "H k t \<Longrightarrow> R k k' \<Longrightarrow> H k' t"
    and H_fit: "H k t \<Longrightarrow> fit t"
    and H_decoded: "key \<in> set priorityStreams \<Longrightarrow> m \<in> set (entries (streams k key)) \<Longrightarrow> taskFromMessage key m = Inr t \<Longrightarrow> H k t"
begin

lemma parsed_H: "key \<in> set priorityStreams \<Longrightarrow> set ms \<subseteq> set (entries (streams k key)) \<Longrightarrow> t \<in> set (parsed key ms) \<Longrightarrow> H k t"
  by (auto simp: parsed_def intro: H_decoded split: sum.splits)

lemma claim_streams_H:
  "claim_streams e cfg idle keys claimed w = (r, w') \<Longrightarrow> set keys \<subseteq> set priorityStreams \<Longrightarrow> \<forall>t \<in> set claimed. H (ks w) t \<Longrightarrow>
   R (ks w) (ks w') \<and> (\<forall>ts. r = Inr ts \<longrightarrow> (\<forall>t \<in> set ts. H (ks w') t))"
proof (induction keys arbitrary: claimed w)
  case (Cons key keys)
  let ?c = "XAUTOCLAIM key (ConsumerGroup (CfgWorker cfg)) (ConsumerName (CfgWorker cfg)) idle claimBatchSize"
  obtain x w1 where c: "env_client e ?c w = (x, w1)" by fastforce
  have R1: "R (ks w) (ks w1)" by (rule R_effs [OF client_effs [OF c]]) simp
  have old: "\<forall>t \<in> set claimed. H (ks w1) t" using Cons.prems(3) H_mono [OF _ R1] by blast
  have new: "\<forall>t \<in> set (parsed key ms). H (ks w1) t" if "x = Inr (RMsgs ms)" for ms
  proof -
    obtain k where "redis_ok ?c k (RMsgs ms) (ks w1)" using client_ok c \<open>x = Inr (RMsgs ms)\<close> by blast
    then have "set ms \<subseteq> set (entries (streams (ks w1) key))"
      by (auto simp: upd_stream_def upd_pel_def split: option.splits)
    then show ?thesis using parsed_H [of key ms] Cons.prems(2) by auto
  qed
  show ?case
  proof (cases "reply_msgs x")
    case (Inl err)
    then show ?thesis using Cons.prems Cons.IH [OF _ _ old] R1 c by (auto intro: R_trans split: if_splits)
  next
    case (Inr ms)
    then have "\<forall>t \<in> set (claimed @ parsed key ms). H (ks w1) t" using old new by auto
    then show ?thesis using Cons.prems Cons.IH [of "claimed @ parsed key ms" w1] R1 c Inr by (auto intro: R_trans)
  qed
qed auto

lemma claim_H:
  assumes "on_world (port_ClaimStale (consumer redis_ports) idle) st = (r, st')"
  shows "keeps_R st st'" and "r = Inr ts \<Longrightarrow> t \<in> set ts \<Longrightarrow> H (ks (world st')) t"
proof -
  obtain w' where "claim_streams e cfg idle priorityStreams [] (world st) = (r, w')" "world st' = w'"
    using assms(1) by (auto simp: on_world_def port_defs ClaimStale_def split: prod.splits)
  with claim_streams_H [OF this(1)] show "keeps_R st st'" and "r = Inr ts \<Longrightarrow> t \<in> set ts \<Longrightarrow> H (ks (world st')) t"
    by (auto simp: keeps_R_def)
qed

definition held_inv :: "'s pool \<Rightarrow> bool" where
  "held_inv s \<longleftrightarrow> (\<forall>t \<in> set (pool_tasks s). H (ks (world (spv s))) t) \<and> (\<forall>(t, p) \<in> set (working s). all_acts keeps_R p)"

lemma held_invI:
  assumes "held_inv s" and "R (ks (world (spv s))) (ks (world (spv s')))"
    and "\<And>t. t \<in> set (pool_tasks s') \<Longrightarrow> t \<in> set (pool_tasks s) \<or> H (ks (world (spv s'))) t"
    and "\<And>t p. (t, p) \<in> set (working s') \<Longrightarrow> (t, p) \<in> set (working s) \<or> all_acts keeps_R p"
  shows "held_inv s'"
  using assms H_mono unfolding held_inv_def by fast

text \<open>Whatever comes into the channel has \<open>H\<close>: that is up to the poll loop.\<close>

lemma held_inv_step:
  assumes step: "pool_step redis_ports cfg (sends e P) s s'" and inv: "held_inv s"
    and fed: "\<And>t. t \<in> set (taskCh s') \<Longrightarrow> t \<in> set (taskCh s) \<or> H (ks (world (spv s))) t"
  shows "R (ks (world (spv s))) (ks (world (spv s'))) \<and> held_inv s'"
proof -
  have fit: "fit t" if "t \<in> set (pool_tasks s)" for t using that inv H_fit by (auto simp: held_inv_def)
  have R: "R (ks (world (spv s))) (ks (world (spv s')))"
    using step
  proof (cases rule: pool_step.cases)
    case worker
    then show ?thesis
    proof (cases rule: worker_step.cases)
      case (act xs t f p ys)
      then show ?thesis using inv by (auto simp: held_inv_def keeps_R_def)
    qed (simp_all add: worker_start_def worker_release_def worker_exit_def worker_report_def metric_st_def port_defs)
  next
    case (claim ts st)
    then show ?thesis using claim_H(1) [OF claim(3)] by (simp add: keeps_R_def)
  next
    case (claim_error er st)
    then show ?thesis using claim_H(1) [OF claim_error(3)] by (simp add: keeps_R_def)
  next
    case (dispatch_done t ts)
    then show ?thesis by (simp add: dispatch_nack_def on_world_def port_defs Nack_def)
  next
    case (meanwhile w)
    then show ?thesis by (simp add: R_sends)
  qed (simp_all add: dispatch_go_def)
  have tasks: "t \<in> set (pool_tasks s) \<or> H (ks (world (spv s'))) t" if "t \<in> set (pool_tasks s')" for t
    using step
  proof (cases rule: pool_step.cases)
    case worker
    then show ?thesis
      by (cases rule: worker_step.cases) (use that in \<open>auto simp: pool_tasks_def held_tasks_def worker_start_def worker_release_def worker_exit_def worker_report_def\<close>)
  next
    case (arrive t')
    then show ?thesis using that fed by (fastforce simp: pool_tasks_def held_tasks_def)
  next
    case (claim ts st)
    then show ?thesis using that claim_H(2) [OF claim(3) refl] by (auto simp: pool_tasks_def held_tasks_def)
  qed (use that in \<open>auto simp: pool_tasks_def held_tasks_def dispatch_go_def dispatch_nack_def wait_poll_def split: if_splits\<close>)
  have acts: "(t, p) \<in> set (working s) \<or> all_acts keeps_R p" if "(t, p) \<in> set (working s')" for t p
    using step
  proof (cases rule: pool_step.cases)
    case worker
    then show ?thesis
    proof (cases rule: worker_step.cases)
      case (start xs u ys)
      then have "fit u" by (intro fit) (auto simp: pool_tasks_def held_tasks_def)
      then show ?thesis using that start by (auto simp: worker_start_def keeping.worker_prog_acts)
    next
      case (act xs u f q ys)
      then show ?thesis using that inv by (auto simp: held_inv_def)
    qed (use that in \<open>auto simp: worker_release_def worker_exit_def worker_report_def\<close>)
  qed (use that in \<open>auto simp: dispatch_go_def dispatch_nack_def\<close>)
  show ?thesis using held_invI [OF inv R tasks acts] R by blast
qed

end

end
