(* ===== verification/Json_Types.thy ===== *)
theory Json_Types
  imports Json
begin

text \<open>
  What JSON text decodes into which Go type: every task, dead-letter entry and record that marshals also unmarshals,
  and what unmarshals is a value of the Go type again.
\<close>

subsection \<open>Values of type any\<close>

text \<open>The numbers of a Go value are float64.\<close>

fun any_f64 :: "go_any \<Rightarrow> bool" where
  "any_f64 (AnyFloat (Fin x)) \<longleftrightarrow> f64_of_rat x = Fin x"
| "any_f64 (AnyList xs) \<longleftrightarrow> (\<forall>x \<in> set xs. any_f64 x)"
| "any_f64 (AnyMap kvs) \<longleftrightarrow> (\<forall>(k, v) \<in> set kvs. any_f64 v)"
| "any_f64 _ \<longleftrightarrow> True"

lemma those_eq_Some: "those xs = Some ys \<longleftrightarrow> xs = map Some ys"
proof (induction xs arbitrary: ys)
  case (Cons x xs)
  then show ?case by (cases ys) (auto split: option.splits)
qed auto

lemma those_map_ex: "(\<exists>ys. those (map f xs) = Some ys) \<longleftrightarrow> (\<forall>x \<in> set xs. f x \<noteq> None)"
  by (induction xs) (auto split: option.splits)

lemma those_map_in: "those (map f xs) = Some ys \<Longrightarrow> y \<in> set ys \<Longrightarrow> \<exists>x \<in> set xs. f x = Some y"
  by (induction xs arbitrary: ys) (auto split: option.splits)

lemma json_any_f64: "json_any j = Some v \<Longrightarrow> any_f64 v"
proof (induction j arbitrary: v rule: json_any.induct)
  case (7 xs)
  then obtain vs where vs: "those (map json_any xs) = Some vs" "v = AnyList vs" by auto
  have "any_f64 y" if "y \<in> set vs" for y using those_map_in [OF vs(1) that] 7(1) by blast
  then show ?case by (simp add: vs)
next
  case (8 kvs)
  then obtain vs where vs: "those (map (\<lambda>(k, v). map_option (Pair k) (json_any v)) kvs) = Some vs" "v = AnyMap vs" by auto
  have "any_f64 (snd y)" if y: "y \<in> set vs" for y
  proof -
    obtain k j where "(k, j) \<in> set kvs" "map_option (Pair k) (json_any j) = Some y" using those_map_in [OF vs(1) y] by auto
    then show ?thesis using 8(1) by auto
  qed
  then show ?case by (auto simp: vs)
qed (auto simp: float_any_def f64_of_rat_twice split: f64.splits)

text \<open>The members of an object all decode.\<close>

abbreviation members_any :: "(string \<times> json) list \<Rightarrow> bool" where
  "members_any kvs \<equiv> \<forall>(k, j) \<in> set kvs. json_any j \<noteq> None"

lemma any_json_decodes: "any_json v = Some j \<Longrightarrow> any_f64 v \<Longrightarrow> json_any j \<noteq> None"
proof (induction v arbitrary: j rule: any_json.induct)
  case (6 xs)
  then obtain js where js: "those (map any_json xs) = Some js" "j = JArr js" by auto
  have "json_any y \<noteq> None" if "y \<in> set js" for y
    using those_map_in [OF js(1) that] 6(1) 6(3) by auto
  then show ?case using those_map_ex [of json_any js] by (auto simp: js)
next
  case (7 kvs)
  then obtain js where js: "those (map (\<lambda>(k, v). map_option (Pair (coerce_utf8 k)) (any_json v)) kvs) = Some js" "j = JObj js" by auto
  have "json_any (snd y) \<noteq> None" if y: "y \<in> set js" for y
  proof -
    obtain k v where "(k, v) \<in> set kvs" "map_option (Pair (coerce_utf8 k)) (any_json v) = Some y"
      using those_map_in [OF js(1) y] by auto
    then show ?thesis using 7(1) 7(3) by fastforce
  qed
  then show ?case using those_map_ex [of "\<lambda>(k, v). map_option (Pair k) (json_any v)" js] by (fastforce simp: js)
qed (auto simp: float_any_def)

subsection \<open>Tasks\<close>

definition go_task :: "EmailTask \<Rightarrow> bool" where
  "go_task t \<longleftrightarrow> (case TemplateData t of None \<Rightarrow> True | Some m \<Rightarrow> list_all (\<lambda>(k, v). any_f64 v) (fm_entries m))"

lemma fm_entries_lookup: "(k, v) \<in> set (fm_entries m) \<longleftrightarrow> fmlookup m k = Some v"
  using map_of_fm_entries [of m k] distinct_fm_entries [of m] map_of_eq_Some_iff [of "fm_entries m" k v] by auto

lemma go_task_iff: "go_task t \<longleftrightarrow> (\<forall>m k v. TemplateData t = Some m \<longrightarrow> fmlookup m k = Some v \<longrightarrow> any_f64 v)"
  by (auto simp: go_task_def list_all_iff fm_entries_lookup split: option.splits)

text \<open>No operation of the program writes the template data of a task.\<close>

lemma go_task_writes [simp]:
  "go_task (t\<lparr>LastError := a, Status := b\<rparr>) = go_task t" "go_task (t\<lparr>Attempt := n\<rparr>) = go_task t"
  "go_task (t\<lparr>ScheduledFor := s\<rparr>) = go_task t" "go_task (t\<lparr>TraceID := x, SpanID := y\<rparr>) = go_task t"
  "go_task (metadata_set k v t) = go_task t"
  by (simp_all add: go_task_def metadata_set_def)

lemma dec_members_all:
  "dec_members f kvs m = Some m' \<Longrightarrow> \<forall>j v. f j = Some v \<longrightarrow> P v \<Longrightarrow> \<forall>k v. fmlookup m k = Some v \<longrightarrow> P v \<Longrightarrow>
   fmlookup m' k = Some v \<Longrightarrow> P v"
proof (induction f kvs m rule: dec_members.induct)
  case (2 f k' j kvs m)
  then obtain u where "f j = Some u" "dec_members f kvs (fmupd k' u m) = Some m'" by (auto split: option.splits)
  with 2 show ?case by simp
qed auto

lemma dec_map_any_f64:
  "dec_map json_any j cur = Some (Some m) \<Longrightarrow> \<forall>c k v. cur = Some c \<longrightarrow> fmlookup c k = Some v \<longrightarrow> any_f64 v \<Longrightarrow>
   fmlookup m k = Some v \<Longrightarrow> any_f64 v"
  by (cases j) (auto dest!: dec_members_all [where P = any_f64] simp: json_any_f64 split: option.splits)

lemma dec_task_field_go: "dec_task_field k j t = Some t' \<Longrightarrow> go_task t \<Longrightarrow> go_task t'"
  by (auto simp: dec_task_field_def Let_def go_task_iff split: if_splits) (blast dest: dec_map_any_f64)+

lemma dec_struct_inv: "dec_struct f kvs x = Some y \<Longrightarrow> (\<And>k j x y. f k j x = Some y \<Longrightarrow> I x \<Longrightarrow> I y) \<Longrightarrow> I x \<Longrightarrow> I y"
  by (induction f kvs x rule: dec_struct.induct) (auto split: option.splits)

lemma go_zero [simp]: "go_task zero_task"
  by (simp add: go_task_def zero_task_def)

lemma json_task_go: "json_task j = Some t \<Longrightarrow> go_task t"
  by (cases j) (auto dest: dec_struct_inv [where I = go_task, OF _ dec_task_field_go])

lemma unmarshal_go: "json_Unmarshal_task m = Inr t \<Longrightarrow> go_task t"
  by (cases m) (auto split: option.splits intro: json_task_go)

text \<open>Decoding is total on what marshalling writes: each member decodes whatever the task holds so far.\<close>

lemma dec_struct_total: "\<forall>(k, j) \<in> set kvs. \<forall>x. f k j x \<noteq> None \<Longrightarrow> dec_struct f kvs x \<noteq> None"
  by (induction f kvs x rule: dec_struct.induct) (auto split: option.splits)

lemma dec_members_total: "\<forall>(k, j) \<in> set kvs. f j \<noteq> None \<Longrightarrow> dec_members f kvs m \<noteq> None"
  by (induction f kvs m rule: dec_members.induct) (auto split: option.splits)

lemma template_decodes:
  assumes "template_json m = Some kvs" and "\<And>k v. fmlookup m k = Some v \<Longrightarrow> any_f64 v"
  shows "dec_map json_any (JObj kvs) cur \<noteq> None"
proof -
  have "json_any j \<noteq> None" if "(k, j) \<in> set kvs" for k j
  proof -
    have "\<exists>kv \<in> set (fm_entries m). map_option (Pair (coerce_utf8 (fst kv))) (any_json (snd kv)) = Some (k, j)"
      using those_map_in [OF assms(1) [unfolded template_json_def] that] by (simp add: case_prod_unfold)
    then obtain k' v where "(k', v) \<in> set (fm_entries m)" "any_json v = Some j" by auto
    then show ?thesis using assms(2) [of k' v] any_json_decodes by (simp add: fm_entries_lookup)
  qed
  then have "\<forall>(k, j) \<in> set kvs. json_any j \<noteq> None" by blast
  from dec_members_total [OF this] show ?thesis by (simp del: not_None_eq)
qed

lemma metadata_decodes: "dec_map (\<lambda>j. dec_string j []) (JObj (metadata_json m)) cur \<noteq> None"
proof -
  have "\<forall>(k, j) \<in> set (metadata_json m). dec_string j [] \<noteq> None" by (auto simp: metadata_json_def)
  from dec_members_total [OF this] show ?thesis by (simp del: not_None_eq)
qed

lemma task_json_decodes:
  assumes "task_json t = Some j" and "go_task t"
  shows "\<exists>kvs. j = JObj kvs \<and> dec_struct dec_task_field kvs x \<noteq> None"
proof -
  obtain tpl where j: "j = JObj (task_members t tpl)"
    and tpl: "\<And>kvs. tpl = Some kvs \<Longrightarrow> \<exists>m. TemplateData t = Some m \<and> template_json m = Some kvs"
    using assms(1) by (fastforce simp: task_json_def split: if_splits option.splits)
  have "dec_task_field k v y \<noteq> None" if "(k, v) \<in> set (omit_map ''template_data'' tpl)" for k v y
  proof -
    have "\<exists>kvs. tpl = Some kvs \<and> k = ''template_data'' \<and> v = JObj kvs"
      using that by (auto simp: omit_map_def split: option.splits if_splits)
    then obtain kvs where "tpl = Some kvs" "k = ''template_data''" "v = JObj kvs" by blast
    moreover from this(1) tpl assms(2) have "dec_map json_any (JObj kvs) (TemplateData y) \<noteq> None"
      by (metis go_task_iff template_decodes)
    ultimately show ?thesis by (simp add: dec_field_maps)
  qed
  moreover have "dec_task_field k v y \<noteq> None" if "(k, v) \<in> set (omit_map ''metadata'' (map_option metadata_json (Metadata t)))" for k v y
  proof -
    have "\<exists>m. k = ''metadata'' \<and> v = JObj (metadata_json m)"
      using that by (auto simp: omit_map_def split: option.splits if_splits)
    then obtain m where "k = ''metadata''" "v = JObj (metadata_json m)" by blast
    then show ?thesis using metadata_decodes [of m "Metadata y"] by (simp only: dec_field_maps option.map_disc_iff not_False_eq_True)
  qed
  ultimately have "dec_struct dec_task_field (task_members t tpl) x \<noteq> None"
    by (intro dec_struct_total)
      (auto simp: task_members_def omit_string_def dec_field_simps dec_field_nums split: option.splits if_splits)
  with j show ?thesis by blast
qed

lemma task_payload_decodes:
  assumes "json_Marshal_task t = Inr m" and "go_task t"
  shows "\<exists>t'. json_Unmarshal_task m = Inr t'"
proof -
  obtain j where j: "task_json t = Some j" "m = Doc j" using assms(1) by (auto simp: json_Marshal_task_def split: option.splits)
  obtain kvs where "j = JObj kvs" "dec_struct dec_task_field kvs zero_task \<noteq> None" using task_json_decodes [OF j(1) assms(2)] by blast
  then show ?thesis by (auto simp: j)
qed

subsection \<open>Dead-letter entries\<close>

lemma attempt_member_decodes:
  "dec_attempt_field ''attempt'' (JInt (sint (n :: i64))) x \<noteq> None"
  "dec_attempt_field ''started_at'' (JTime i) x \<noteq> None" "dec_attempt_field ''failed_at'' (JTime i) x \<noteq> None"
  "dec_attempt_field ''error'' (JStr s) x \<noteq> None" "dec_attempt_field ''worker_id'' (JStr s) x \<noteq> None"
  using sint_i64_bounds [of n] by (simp_all add: dec_attempt_field_def Let_def lower_char_def byte_in_def)

lemma attempt_decodes:
  assumes "attempt_json a = Some j"
  shows "json_attempt j \<noteq> None"
proof -
  let ?kvs = "[(''attempt'', JInt (sint (RecAttempt a))), (''started_at'', JTime (StartedAt a)), (''failed_at'', JTime (FailedAt a))] @
     omit_string ''error'' (RecError a) @ [(''worker_id'', JStr (coerce_utf8 (WorkerID a)))]"
  have "j = JObj ?kvs" using assms by (simp add: attempt_json_def split: if_splits)
  moreover have "dec_struct dec_attempt_field ?kvs zero_attempt \<noteq> None"
    by (rule dec_struct_total) (auto simp: omit_string_def attempt_member_decodes simp del: not_None_eq split: if_splits)
  ultimately show ?thesis by (simp only: json_attempt.simps not_False_eq_True)
qed

lemma history_decodes: "history_json h = Some j \<Longrightarrow> dec_history j \<noteq> None"
  using those_map_ex [of json_attempt] those_map_in [of attempt_json h] attempt_decodes
  by (fastforce simp: history_json_def split: if_splits)

lemma dlq_member_decodes:
  "dec_dlq_field ''dead_at'' (JTime i) e \<noteq> None"
  "dec_dlq_field ''failure_reason'' (JStr s) e \<noteq> None" "dec_dlq_field ''final_error'' (JStr s) e \<noteq> None"
  "dec_history j \<noteq> None \<Longrightarrow> dec_dlq_field ''attempt_history'' j e \<noteq> None"
  "dec_task_ptr j (Task e) \<noteq> None \<Longrightarrow> dec_dlq_field ''task'' j e \<noteq> None"
  by (simp_all add: dec_dlq_field_def Let_def lower_char_def byte_in_def)

definition go_entry :: "DLQEntry \<Rightarrow> bool" where
  "go_entry x \<longleftrightarrow> (case Task x of None \<Rightarrow> True | Some t \<Rightarrow> go_task t)"

lemma dlq_payload_decodes:
  assumes "json_Marshal_dlq x = Inr m" and "go_entry x"
  shows "\<exists>x'. json_Unmarshal_dlq m = Inr x'"
proof -
  obtain tj hj where tj: "(case Task x of None \<Rightarrow> Some JNull | Some t \<Rightarrow> task_json t) = Some tj"
    and hj: "history_json (AttemptHistory x) = Some hj"
    and m: "m = Doc (JObj [(''task'', tj), (''dead_at'', JTime (DeadAt x)),
                 (''failure_reason'', JStr (coerce_utf8 (FailureReason x))),
                 (''final_error'', JStr (coerce_utf8 (FinalError x))), (''attempt_history'', hj)])"
    using assms(1) by (auto simp: json_Marshal_dlq_def dlq_json_def split: option.splits if_splits)
  have "dec_task_ptr tj cur \<noteq> None" for cur
  proof (cases "Task x")
    case (Some t)
    then obtain kvs where "tj = JObj kvs" "\<And>y. dec_struct dec_task_field kvs y \<noteq> None"
      using tj assms(2) task_json_decodes [of t tj] by (simp add: go_entry_def) (metis json.inject(7))
    then show ?thesis by simp
  qed (use tj in simp)
  moreover note history_decodes [OF hj]
  ultimately have "dec_struct dec_dlq_field [(''task'', tj), (''dead_at'', JTime (DeadAt x)),
                 (''failure_reason'', JStr (coerce_utf8 (FailureReason x))),
                 (''final_error'', JStr (coerce_utf8 (FinalError x))), (''attempt_history'', hj)] zero_dlq \<noteq> None"
    by (intro dec_struct_total) (auto simp del: not_None_eq simp: dlq_member_decodes)
  then show ?thesis by (auto simp: m simp del: dec_struct.simps)
qed

end
