(* ===== verification/Typed_Store.thy ===== *)
theory Typed_Store
  imports Command_Inv Json_Types
begin

text \<open>
  A type system for the key space: a stream entry carries a task, a member of a sorted set is a task, an item of a
  dead-letter list is an entry, a string is a lock. Every command the program sends writes values of the right type,
  so what is stored stays readable; and in a typed key space no reader of the program meets a value it cannot read.
\<close>

subsection \<open>Types of stored values\<close>

definition decodes :: "(jtext \<Rightarrow> go_error + 'a) \<Rightarrow> jtext \<Rightarrow> bool" where
  "decodes f v \<longleftrightarrow> (case f v of Inl _ \<Rightarrow> False | Inr _ \<Rightarrow> True)"

lemma decodes_iff: "decodes f v \<longleftrightarrow> (\<exists>x. f v = Inr x)"
  by (simp add: decodes_def split: sum.split)

definition task_values :: "(string, jtext) fmap \<Rightarrow> bool" where
  "task_values vals \<longleftrightarrow> (case fmlookup vals ''payload'' of None \<Rightarrow> False | Some p \<Rightarrow> decodes json_Unmarshal_task p)"

definition lock_text :: "jtext \<Rightarrow> bool" where
  "lock_text v \<longleftrightarrow> lock_of_text v \<noteq> Foreign \<and> decodes json_Unmarshal_idem v"

definition typed_strs :: "kvstore \<Rightarrow> bool" where
  "typed_strs kv \<longleftrightarrow> (\<forall>key v ttl. kv key = Some (v, ttl) \<longrightarrow> lock_text v)"

definition typed_ks :: "keyspace \<Rightarrow> bool" where
  "typed_ks k \<longleftrightarrow>
     (\<forall>key. list_all task_values (map MsgValues (entries (streams k key)))) \<and>
     (\<forall>key. list_all (decodes json_Unmarshal_task) (map fst (zsets k key))) \<and>
     (\<forall>key. HasPrefix key dlqKeyPrefix \<longrightarrow> list_all (decodes json_Unmarshal_dlq) (lists k key)) \<and>
     typed_strs (strs k)"

text \<open>The commands that write values of the right type. The numbers a script gets are numbers.\<close>

fun typed_cmd :: "rcmd \<Rightarrow> bool" where
  "typed_cmd (XADD key vals) \<longleftrightarrow> task_values vals"
| "typed_cmd (ZADD key sc m) \<longleftrightarrow> decodes json_Unmarshal_task m"
| "typed_cmd (ZADD_NX key sc m) \<longleftrightarrow> decodes json_Unmarshal_task m"
| "typed_cmd (RPUSH key v) \<longleftrightarrow> (HasPrefix key dlqKeyPrefix \<longrightarrow> decodes json_Unmarshal_dlq v)"
| "typed_cmd (SET_XX key v d) \<longleftrightarrow> lock_text v"
| "typed_cmd (EVALSHA sha keys args) \<longleftrightarrow> list_all (\<lambda>a. parse_int a \<noteq> None) (drop 1 args)"
| "typed_cmd _ \<longleftrightarrow> True"

subsection \<open>Commands keep the types\<close>

lemma processing_lock: "parse_int s \<noteq> None \<Longrightarrow> lock_text (processing_payload w s)"
  by (auto simp: lock_text_def lock_of_text_def processing_payload_def lua_field_def decodes_def dec_idem_field_def
      Let_def lower_char_def byte_in_def)

lemma completed_lock: "RecStatus r = ''completed'' \<Longrightarrow> lock_text (Doc (idem_json r))"
  by (auto simp: lock_text_def lock_of_completed) (auto simp: decodes_def idem_json_def omit_string_def dec_idem_field_def
      Let_def lower_char_def byte_in_def)

lemma typed_strs_put: "typed_strs kv \<Longrightarrow> lock_text v \<Longrightarrow> typed_strs (kv(key \<mapsto> (v, t)))"
  by (simp add: typed_strs_def)

lemma typed_strs_del: "typed_strs kv \<Longrightarrow> typed_strs (kv(key := None))"
  by (simp add: typed_strs_def)

lemma set_ex_typed:
  "lua_set_ex key (processing_payload w s) ttl kv = Some (n, kv') \<Longrightarrow> parse_int s \<noteq> None \<Longrightarrow> typed_strs kv \<Longrightarrow> typed_strs kv'"
  using processing_lock [of s w] by (auto simp: lua_set_ex_def typed_strs_put split: option.splits if_splits)

lemma script_typed:
  assumes "run_script scr keys args kv = Some (n, kv')" and "list_all (\<lambda>a. parse_int a \<noteq> None) (drop 1 args)" and "typed_strs kv"
  shows "typed_strs kv'"
  using assms
  by (induction scr keys args kv rule: run_script.induct)
    (auto simp: idempotencyLuaScript_def reclaimStaleLuaScript_def Let_def split: option.splits if_splits dest!: set_ex_typed)

lemma entries_of_group [simp]: "entries (read_group g c n st) = entries st" "entries (upd_pel g f st) = entries st"
  by (simp_all add: read_group_def upd_pel_def split: option.split)

lemma zadd_typed: "list_all Q (map fst z) \<Longrightarrow> Q m \<Longrightarrow> list_all Q (map fst (zadd sc m z)) \<and> list_all Q (map fst (zadd_nx sc m z))"
  by (auto simp: list_all_iff zadd_def zadd_nx_def)

lemma zrem_typed: "list_all Q (map fst z) \<Longrightarrow> list_all Q (map fst (zrem ms z))"
  by (auto simp: list_all_iff zrem_def)

lemma typed_stream:
  "typed_ks k \<Longrightarrow> list_all task_values (map MsgValues (entries (f (streams k key)))) \<Longrightarrow> typed_ks (upd_stream key f k)"
  by (simp add: typed_ks_def upd_stream_def)

lemma typed_zset:
  "typed_ks k \<Longrightarrow> list_all (decodes json_Unmarshal_task) (map fst (f (zsets k key))) \<Longrightarrow> typed_ks (upd_zset key f k)"
  by (simp add: typed_ks_def upd_zset_def)

lemma typed_list:
  "typed_ks k \<Longrightarrow> (HasPrefix key dlqKeyPrefix \<Longrightarrow> list_all (decodes json_Unmarshal_dlq) (f (lists k key))) \<Longrightarrow>
   typed_ks (upd_list key f k)"
  by (simp add: typed_ks_def upd_list_def)

lemma typed_ksD:
  assumes "typed_ks k"
  shows "list_all task_values (map MsgValues (entries (streams k key)))" "list_all (decodes json_Unmarshal_task) (map fst (zsets k key))"
    and "HasPrefix key dlqKeyPrefix \<Longrightarrow> list_all (decodes json_Unmarshal_dlq) (lists k key)" "typed_strs (strs k)"
  using assms by (simp_all add: typed_ks_def)

lemma typed_ks_other [simp]:
  "typed_ks (k\<lparr>scripts := x\<rparr>) = typed_ks k" "typed_ks (k\<lparr>list_ttl := y\<rparr>) = typed_ks k"
  by (simp_all add: typed_ks_def)

lemma typed_strs_upd: "typed_ks k \<Longrightarrow> typed_strs kv \<Longrightarrow> typed_ks (k\<lparr>strs := kv\<rparr>)"
  by (simp add: typed_ks_def)

lemma cmd_typed:
  assumes "redis_ok c k r k'" and "typed_cmd c" and "typed_ks k"
  shows "typed_ks k'"
proof (cases c)
  case (SET_XX key v d)
  then show ?thesis using assms typed_ksD(4) [OF assms(3)] by (auto simp: typed_strs_upd typed_strs_put)
next
  case (EVALSHA sha keys args)
  with assms obtain scr n kv where "run_script scr keys args (strs k) = Some (n, kv)" "k' = k\<lparr>strs := kv\<rparr>" by auto
  moreover from this(1) have "typed_strs kv" by (rule script_typed) (use EVALSHA assms(2) typed_ksD(4) [OF assms(3)] in simp_all)
  ultimately show ?thesis using assms(3) by (simp add: typed_strs_upd)
next
  case (DEL key)
  then show ?thesis using assms typed_ksD(4) [OF assms(3)] by (auto simp: typed_strs_upd typed_strs_del)
next
  case (XADD key vals)
  then show ?thesis using assms typed_ksD(1) [OF assms(3)] by (auto intro!: typed_stream)
next
  case (XREADGROUP g cons keys n d)
  then show ?thesis using assms by (auto simp: typed_ks_def)
next
  case (ZADD key sc m)
  then show ?thesis using assms zadd_typed typed_ksD(2) [OF assms(3)] by (auto intro!: typed_zset)
next
  case (ZADD_NX key sc m)
  then show ?thesis using assms zadd_typed typed_ksD(2) [OF assms(3)] by (auto intro!: typed_zset)
next
  case (ZREM key ms)
  then show ?thesis using assms zrem_typed typed_ksD(2) [OF assms(3)] by (auto intro!: typed_zset)
next
  case (RPUSH key v)
  then show ?thesis using assms typed_ksD(3) [OF assms(3)] by (auto intro!: typed_list)
qed (use assms typed_ksD(1) [OF assms(3)] in \<open>auto intro!: typed_stream typed_list\<close>)

lemma cmds_typed: "redis_effs c k k' \<Longrightarrow> typed_cmd c \<Longrightarrow> typed_ks k \<Longrightarrow> typed_ks k'"
  by (erule redis_effs_induct [where P = typed_ks]) (auto intro: cmd_typed)

context redis_env begin

lemma sends_typed: "sends e typed_cmd w w' \<Longrightarrow> typed_ks (ks w) \<Longrightarrow> typed_ks (ks w')"
  by (induction rule: sends.induct) (auto dest: client_effs now_ks ctx_ks rand_ks intro: cmds_typed)

lemma chain_typed: "chain e typed_cmd w w' \<Longrightarrow> typed_ks (ks w) \<Longrightarrow> typed_ks (ks w')"
  by (induction rule: rtranclp_induct) (auto intro: sends_typed)

end

subsection \<open>The program sends typed commands\<close>

lemma set_span_go [simp]: "go_task (set_span sp t) = go_task t"
  by (simp add: set_span_def split: option.split)

lemma xadd_typed: "go_task t \<Longrightarrow> json_Marshal_task t = Inr p \<Longrightarrow> typed_cmd (xadd_cmd t p)"
  by (simp add: xadd_cmd_def task_values_def decodes_iff task_payload_decodes)

lemma dlq_typed: "Task x = Some t \<Longrightarrow> go_task t \<Longrightarrow> json_Marshal_dlq x = Inr p \<Longrightarrow> typed_cmd (RPUSH key p)"
  by (simp add: decodes_iff dlq_payload_decodes go_entry_def)

interpretation typed: worker_commands typed_cmd go_task
proof unfold_locales
  fix c assume "read_only c" then show "typed_cmd c" by (cases c) auto
next
  show "typed_cmd (RPUSH retryPoisonKey v)" for v by (simp add: retryPoisonKey_def dlqKeyPrefix_def)
qed (auto simp: xadd_typed decodes_iff task_payload_decodes unmarshal_go completed_lock acquire_cmd_def reclaim_cmd_def unix_text_def
      simp del: typed_cmd.simps(4) intro: dlq_typed)

subsection \<open>The pool\<close>

text \<open>
  The tasks a goroutine can hold are Go values: the channel only gets what the poll loop decoded.
\<close>

definition fed_step :: "'w deps \<Rightarrow> Config \<Rightarrow> ('w \<Rightarrow> 'w \<Rightarrow> bool) \<Rightarrow> 'w pool \<Rightarrow> 'w pool \<Rightarrow> bool" where
  "fed_step d cfg others s s' \<longleftrightarrow> pool_step d cfg others s s' \<and> list_all go_task (taskCh s')"

lemma worker_step_channel: "worker_step d cfg s s' \<Longrightarrow> taskCh s' = taskCh s"
  by (induction rule: worker_step.induct) (simp_all add: worker_start_def worker_release_def worker_exit_def worker_report_def)

lemma workers_fed: "(worker_step d cfg)\<^sup>*\<^sup>* s s' \<Longrightarrow> list_all go_task (taskCh s) \<Longrightarrow>
   (fed_step d cfg others)\<^sup>*\<^sup>* s s' \<and> list_all go_task (taskCh s')"
proof (induction rule: rtranclp_induct)
  case (step y z)
  then have "fed_step d cfg others y z" by (simp add: fed_step_def worker_step_channel pool_step.worker)
  with step show ?case by (auto simp: worker_step_channel)
qed simp

definition keeps_typed :: "keyspace \<Rightarrow> keyspace \<Rightarrow> bool" where
  "keeps_typed k k' \<longleftrightarrow> (typed_ks k \<longrightarrow> typed_ks k')"

lemma keeps_typedD: "keeps_typed k k' \<Longrightarrow> typed_ks k \<Longrightarrow> typed_ks k'"
  by (simp add: keeps_typed_def)

sublocale redis_system \<subseteq> typing: command_invariant e ks cfg scr snd' mail accepted typed_cmd go_task keeps_typed "\<lambda>_. go_task"
  by unfold_locales (auto simp: keeps_typed_def intro: cmd_typed typed.taskFromMessage_fit)

context redis_system begin

lemma typed_run:
  assumes "(fed_step redis_ports cfg (sends e typed_cmd))\<^sup>*\<^sup>* s0 s"
    and "typed_ks (ks (world (spv s0)))" and "list_all go_task (held_tasks s0)" and "working s0 = []"
  shows "typed_ks (ks (world (spv s)))"
proof -
  have "typing.held_inv s \<and> typed_ks (ks (world (spv s)))"
    using assms(1)
  proof (induction rule: rtranclp_induct)
    case base
    then show ?case using assms(2-4) by (auto simp: typing.held_inv_def pool_tasks_def list_all_iff)
  next
    case (step y z)
    then show ?case using typing.held_inv_step [of y z] by (auto simp: fed_step_def list_all_iff intro: keeps_typedD)
  qed
  then show ?thesis ..
qed

end

subsection \<open>Typed values are understood\<close>

lemma typed_message:
  assumes "typed_ks k" and "m \<in> set (entries (streams k key))"
  shows "\<exists>t. taskFromMessage key m = Inr t"
proof -
  have "task_values (MsgValues m)" using typed_ksD(1) [OF assms(1), of key] assms(2) by (simp add: list_all_iff)
  then show ?thesis by (auto simp: task_values_def taskFromMessage_def decodes_iff split: option.splits)
qed

lemma typed_members: "typed_ks k \<Longrightarrow> set ms \<subseteq> set (map fst (zsets k key)) \<Longrightarrow> corrupt_members ms = []"
  using typed_ksD(2) [of k key] by (fastforce simp: list_all_iff corrupt_members_def decodes_iff)

lemma decode_dlq_total: "list_all (decodes json_Unmarshal_dlq) vs \<Longrightarrow> \<exists>xs. decode_dlq pre i vs = Inr xs"
proof (induction vs arbitrary: i)
  case (Cons v vs)
  then obtain x where "json_Unmarshal_dlq v = Inr x" by (auto simp: decodes_iff)
  moreover obtain xs where "decode_dlq pre (Suc i) vs = Inr xs" using Cons by auto
  ultimately show ?case by simp
qed simp

lemma typed_dlq: "typed_ks k \<Longrightarrow> \<exists>xs. decode_dlq pre i (lists k (dlqKey a b)) = Inr xs"
  using typed_ksD(3) [of k "dlqKey a b"] by (auto intro: decode_dlq_total simp: dlqKey_def HasPrefix_def)

lemma typed_lock: "typed_ks k \<Longrightarrow> lock_of (strs k) key \<noteq> Foreign"
  using typed_ksD(4) [of k] by (auto simp: typed_strs_def lock_of_def lock_text_def split: option.splits)

subsection \<open>Properties\<close>

text \<open>C22: Every operation of the Redis adapters keeps the types: stream entries and members of the sorted sets are tasks, items of the
  dead-letter lists are entries, the string keys are locks, whatever commands get lost or repeated on the way. The tasks
  handed in only have to be Go values: their numbers are float64.\<close>

theorem operations_keep_types:
  assumes "redis_env e ks" and "typed_ks (ks w)" and "go_task t" and "list_all go_task ts" and "go_entry x"
  shows "list_all (\<lambda>w'. typed_ks (ks w'))
    [snd (Enqueue e spanCtx t w), snd (EnqueueBatch e ts w), snd (EnqueueDelayed e t delay w), snd (ScheduleRetry e t delay w),
     snd (FlushReady e cfg w), snd (SendToDLQ e cfg (Some x) w), snd (SetProcessing e cfg scr key owner w),
     snd (SetCompleted e cfg key w), snd (TryReclaimStale e cfg scr key owner age w), snd (ClearProcessing e key w),
     snd (Acknowledge e cfg t w), snd (ClaimStale e cfg idle w)]"
proof -
  obtain r w' where claim: "claim_streams e cfg idle priorityStreams [] w = (r, w')" by fastforce
  have "\<forall>u \<in> set ts. go_task u" "\<And>u. Task x = Some u \<Longrightarrow> go_task u" using assms(4,5) by (simp_all add: list_all_iff go_entry_def)
  then show ?thesis
    using typed.claim_streams_chain [OF claim rtranclp.rtrancl_refl]
    by (simp add: redis_env.chain_typed [OF assms(1) _ assms(2)] assms(3) ClaimStale_def claim typed.Enqueue_chain typed.EnqueueBatch_chain
        typed.EnqueueDelayed_chain typed.ScheduleRetry_chain typed.FlushReady_chain typed.SendToDLQ_chain typed.SetProcessing_chain
        typed.SetCompleted_chain typed.TryReclaimStale_chain typed.ClearProcessing_chain typed.Acknowledge_chain)
qed

text \<open>Well-typed values are understood: while the pool runs, interleaved action by action with anything else that writes typed values,
  every stream entry decodes to a task, no due retry is corrupt (so none goes to the quarantine), every dead-letter
  list can be listed, and no key holds anything but a lock, so the scripts never fail on one.\<close>

theorem stored_values_readable:
  assumes "redis_system e ks cfg snd' mail accepted"
    and "typed_ks (ks (world (spv s0)))" and "list_all go_task (held_tasks s0)" and "working s0 = []"
    and "(fed_step (redis_deps e cfg scr snd') cfg (sends e typed_cmd))\<^sup>*\<^sup>* s0 s"
    and "k = ks (world (spv s))"
  shows "(\<forall>key. \<forall>m \<in> set (entries (streams k key)). \<exists>t. taskFromMessage key m = Inr t) \<and>
    (\<forall>ms. set ms \<subseteq> set (map fst (retry_set k)) \<longrightarrow> corrupt_members ms = []) \<and>
    (\<forall>pre tenant type'. \<exists>xs. decode_dlq pre 0 (lists k (dlqKey tenant type')) = Inr xs) \<and>
    (\<forall>key. lock_of (strs k) key \<noteq> Foreign)"
proof -
  have "typed_ks k" using redis_system.typed_run [OF assms(1,5,2-4)] assms(6) by simp
  then show ?thesis by (simp add: typed_message typed_members typed_dlq typed_lock)
qed

subsection \<open>Witnesses\<close>

lemma go_sample [simp]: "go_task sample_task" "go_task stamped_task"
  by (simp_all add: go_task_def stamped_task_def metadata_set_def)

lemma typed_pending: "typed_ks pending_ks"
proof -
  have "task_values (MsgValues sample_msg)"
    using task_payload_decodes [OF sample_marshal] by (simp add: sample_msg_def task_values_def decodes_iff)
  then show ?thesis by (simp add: typed_ks_def pending_ks_def sample_world_def empty_ks_def empty_stream_def typed_strs_def)
qed

theorem operations_keep_types_witness:
  "typed_ks (mem_ks (snd (SendToDLQ (mem_env True) sample_config
     (Some \<lparr>Task = Some stamped_task, DeadAt = 0, FailureReason = ''non-retryable error'', FinalError = ''bounced'', AttemptHistory = []\<rparr>)
     (sys_world pending_ks [] [Resent, LostReply]))))"
proof -
  have "typed_ks (mem_ks (sys_world pending_ks [] [Resent, LostReply]))" using typed_pending by simp
  moreover have "go_entry \<lparr>Task = Some stamped_task, DeadAt = 0, FailureReason = ''non-retryable error'', FinalError = ''bounced'', AttemptHistory = []\<rparr>"
    by (simp add: go_entry_def)
  ultimately show ?thesis
    using operations_keep_types [OF mem_env.redis_env_axioms, of _ stamped_task "[]"] by fastforce
qed

theorem stored_values_readable_witness:
  "lock_of (strs (mem_ks (world (spv (run_alone mem_ports sample_config stamped_task busy_pool))))) (idempotencyKey ''task-1#0'') \<noteq> Foreign"
proof -
  let ?s = "run_alone mem_ports sample_config stamped_task busy_pool"
  have idle: "launched busy_pool = [stamped_task]" "working busy_pool = []" by (simp_all add: busy_pool_def new_pool_def)
  have run: "(fed_step mem_ports sample_config (sends (mem_env True) typed_cmd))\<^sup>*\<^sup>* busy_pool ?s"
    using workers_fed [OF run_alone_steps [OF idle]] by (simp add: busy_pool_def new_pool_def)
  have "typed_ks (mem_ks (world (spv busy_pool)))" "list_all go_task (held_tasks busy_pool)"
    using typed_pending by (simp_all add: busy_pool_def new_pool_def idle_supervisor_def held_tasks_def)
  then show ?thesis using stored_values_readable [OF mem_system.redis_system_axioms _ _ idle(2) run refl] by blast
qed

end
