(* ===== verification/Process_Safety.thy ===== *)
theory Process_Safety
  imports Lifecycle Typed_Store
begin

text \<open>
  The process of cmd/server/main.go refines the pool: every run of the six goroutines is, for the supervisor, a run of
  \<open>Pool\<close> in which the other goroutines are part of what happens meanwhile. What the pool guarantees
  therefore holds in a service that was booted from its environment.
\<close>

subsection \<open>What the other goroutines do to the world\<close>

inductive beside :: "'s host \<Rightarrow> 's service \<Rightarrow> ('s \<Rightarrow> 's \<Rightarrow> bool) \<Rightarrow> 's \<Rightarrow> 's \<Rightarrow> bool" for h svc others where
  other: "others w w' \<Longrightarrow> beside h svc others w w'"
| consume: "Run_start (svc_deps svc) (svc_cfg svc) st = (r, st') \<Longrightarrow> beside h svc others (world st) (world st')"
| flush: "beside h svc others w (snd (port_FlushReady (retryScheduler (svc_deps svc)) w))"
| scrape: "beside h svc others w (snd (scrape (port_DLQDepth (dlqWriter (svc_deps svc))) (metrics (svc_deps svc))
    (sint (monitor_threshold (svc_cfg svc))) (svc_dlq_keys svc) w))"
| close: "beside h svc others w (snd (Lifecycle_Close (lib_redis h) (svc_redis svc) w))"

lemma Run_start_world: "Run_start d cfg st = (r, st') \<Longrightarrow> st' = st\<lparr>world := world st'\<rparr>"
  by (auto simp: Run_start_def Let_def on_world_def metric_st_def split: prod.splits option.splits if_splits)

lemma pool_step_others:
  assumes "pool_step d cfg others s s'" and "\<And>w w'. others w w' \<Longrightarrow> others' w w'"
  shows "pool_step d cfg others' s s'"
  using assms(1)
proof (cases rule: pool_step.cases)
  case (meanwhile w)
  show ?thesis unfolding meanwhile(1) by (rule pool_step.meanwhile) (rule assms(2) [OF meanwhile(2)])
qed (simp_all add: pool_step.intros)

subsection \<open>The simulation\<close>

definition pool_runs :: "'s host \<Rightarrow> 's service \<Rightarrow> ('s \<Rightarrow> 's \<Rightarrow> bool) \<Rightarrow> 's pool \<Rightarrow> 's pool \<Rightarrow> bool" where
  "pool_runs h svc others = (pool_step (svc_deps svc) (svc_cfg svc) (beside h svc others))\<^sup>*\<^sup>*"

lemma runs_refl [simp]: "pool_runs h svc others p p"
  by (simp add: pool_runs_def)

lemma runs_step: "pool_step (svc_deps svc) (svc_cfg svc) (beside h svc others) p p' \<Longrightarrow> pool_runs h svc others p p'"
  by (simp add: pool_runs_def)

lemma runs_trans: "pool_runs h svc others p p' \<Longrightarrow> pool_runs h svc others p' p'' \<Longrightarrow> pool_runs h svc others p p''"
  unfolding pool_runs_def by (rule rtranclp_trans)

lemma runs_cancel: "pool_runs h svc others (pool_of s) (pool_of (cancel_ctx s))"
  by (simp add: cancel_ctx_def runs_step pool_step.cancel)

lemma runs_return:
  assumes "pool_runs h svc others p (pool_of s)"
  shows "pool_runs h svc others p (pool_of (group_return err s))"
  using assms runs_trans [OF assms runs_cancel]
  by (simp add: group_return_def cancel_ctx_def split: option.split)

lemma runs_world: "beside h svc others (world_of s) w \<Longrightarrow> pool_runs h svc others (pool_of s) (pool_of (put_world w s))"
  by (simp add: put_world_def world_of_def runs_step pool_step.meanwhile)

lemma runs_start:
  assumes "Run_start (svc_deps svc) (svc_cfg svc) (spv (pool_of s)) = (r, st)"
  shows "pool_runs h svc others (pool_of s) (pool_of (put_spv st s))"
proof -
  have "put_spv st s = put_world (world st) s" using Run_start_world [OF assms] by (simp add: put_spv_def put_world_def)
  then show ?thesis using runs_world beside.consume [OF assms] by (metis world_of_def)
qed

lemma live_step_pool:
  assumes "live_step h svc others s s'" and "shutdown_inv s"
  shows "pool_runs h svc others (pool_of s) (pool_of s')"
  using assms(1)
proof (cases rule: live_step.cases)
  case sig_term
  then show ?thesis by (simp add: runs_cancel)
next
  case (elsewhere w)
  then show ?thesis by (simp add: runs_world beside.other)
next
  case (sup_start st)
  then show ?thesis using runs_start by fastforce
next
  case (sup_fails er st)
  show ?thesis unfolding sup_fails(1) by (rule runs_return) (use runs_start [OF sup_fails(3)] in simp)
next
  case (sup_panics msg st)
  then show ?thesis using runs_start [of svc s] by simp
next
  case (pool p)
  have "pool_step (svc_deps svc) (svc_cfg svc) (beside h svc others) (pool_of s) p"
    by (rule pool_step_others [OF pool(3)]) (rule beside.other)
  then show ?thesis by (simp add: pool(1) runs_step)
next
  case sched_tick
  then show ?thesis by (simp add: runs_world beside.flush)
next
  case monitor_tick
  then show ?thesis by (simp add: runs_world beside.scrape)
next
  case (coord_drain expired again)
  then have "ctxDone (pool_of s)" using assms(2) by (simp add: shutdown_inv_def)
  from pool_step.draining [OF this coord_drain(3)] show ?thesis by (simp add: coord_drain(1) put_drain_def runs_step)
next
  case coord_close
  then show ?thesis by (simp add: runs_world beside.close)
qed (simp_all add: runs_return)

lemma proc_run_pool:
  assumes "(proc_step h svc others)\<^sup>*\<^sup>* s s'" and "proc_reachable h svc others s"
  shows "pool_runs h svc others (pool_of s) (pool_of s')"
  using assms(1)
proof (induction rule: rtranclp_induct)
  case (step y z)
  have "proc_reachable h svc others y" using assms(2) step.hyps(1) unfolding proc_reachable_def by (rule rtranclp_trans)
  then have "shutdown_inv y" using reachable_life [of h svc others y] by (simp add: life_inv_def)
  then show ?case using step runs_trans live_step_pool [of h svc others y z] by (auto simp: proc_step_def)
qed simp

lemma proc_start_pool: "proc_reachable h svc others s \<Longrightarrow> pool_runs h svc others (new_pool (svc_supervisor svc)) (pool_of s)"
  using proc_run_pool [of h svc others "start_proc svc" s] by (simp add: proc_reachable_def start_proc_def)

subsection \<open>No message is lost beside the pool\<close>

context redis_system begin

lemma chain_keeps: "chain e (\<lambda>c. c \<noteq> XACK (metadata_get t metaStreamKey) (ConsumerGroup (CfgWorker cfg)) (metadata_get t metaStreamID)) w w' \<Longrightarrow>
    message_of u = message_of t \<Longrightarrow> pending cfg u (ks w) \<Longrightarrow> pending cfg u (ks w')"
  by (induction rule: rtranclp_induct) (blast intro: elsewhere_keeps)+

lemma Run_start_chain:
  assumes "Run_start redis_ports cfg st = (r, st')"
  shows "chain e (\<lambda>c. c \<noteq> XACK key g i) (world st) (world st')"
proof -
  obtain err w1 where c: "Consume e cfg (world st) = (err, w1)" by fastforce
  then have "chain e (\<lambda>c. c \<noteq> XACK key g i) (world st) w1"
    using background.ensureGroups_chain [OF _ rtranclp.rtrancl_refl] by (simp add: Consume_def)
  then show ?thesis using assms c
    by (auto simp: Run_start_def on_world_def metric_st_def port_defs Let_def intro: chain_metric split: option.splits if_splits)
qed

text \<open>Closing the client leaves the data alone.\<close>

lemma beside_keeps:
  assumes "beside h svc (elsewhere e cfg t) w w'" and "svc_deps svc = redis_ports" and "svc_cfg svc = cfg"
    and close: "\<And>w. ks (snd (lib_Close (lib_redis h) (svc_redis svc) w)) = ks w"
    and "message_of u = message_of t" and "pending cfg u (ks w)"
  shows "pending cfg u (ks w')"
  using assms(1)
proof (cases rule: beside.cases)
  case other
  then show ?thesis using elsewhere_keeps assms(5,6) by blast
next
  case (consume st r st')
  then show ?thesis using chain_keeps [OF Run_start_chain assms(5)] assms(2,3,6) by auto
next
  case flush
  then show ?thesis using chain_keeps [OF background.FlushReady_chain assms(5,6)] assms(2) by (simp add: port_defs)
next
  case scrape
  then show ?thesis using chain_keeps [OF background.monitor_chain [OF rtranclp.rtrancl_refl] assms(5,6)] assms(2) by (simp add: port_defs)
next
  case close
  then show ?thesis using assms(4) [of w] assms(6) by (simp add: Lifecycle_Close_def split: prod.splits option.splits)
qed

lemma beside_pool:
  assumes "svc_deps svc = redis_ports" and "svc_cfg svc = cfg" and "\<And>w. ks (snd (lib_Close (lib_redis h) (svc_redis svc) w)) = ks w"
  shows "pool_ports redis_ports mail accepted (\<lambda>t w. pending cfg t (ks w)) (\<lambda>t w. retry_stored t (ks w)) (\<lambda>x w. dlq_stored x (ks w))
    (\<lambda>k w. completed_in k (ks w)) message_of (beside h svc (elsewhere e cfg t)) (message_of t)"
  by (intro pool_ports.intro pool_ports_axioms.intro ports.message_ports_axioms) (auto intro: claim_keeps beside_keeps [OF _ assms])

lemma process_handoff:
  assumes svc: "svc_deps svc = redis_ports" "svc_cfg svc = cfg" and close: "\<And>w. ks (snd (lib_Close (lib_redis h) (svc_redis svc) w)) = ks w"
    and run: "proc_reachable h svc (elsewhere e cfg t) s" "(proc_step h svc (elsewhere e cfg t))\<^sup>*\<^sup>* s s'"
    and pend: "pending cfg t (ks (world_of s))" "\<not> pending cfg t (ks (world_of s'))"
  shows "\<exists>u u' task p. pool_runs h svc (elsewhere e cfg t) (new_pool (svc_supervisor svc)) u \<and>
    pool_step redis_ports cfg (beside h svc (elsewhere e cfg t)) u u' \<and>
    pool_runs h svc (elsewhere e cfg t) u' (pool_of s') \<and> (task, p) \<in> set (working u) \<and> message_of task = message_of t \<and>
    task_safe ks mail accepted (world (spv u)) task (world (spv u'))"
proof -
  have idle: "working (new_pool (svc_supervisor svc)) = []" by (simp add: new_pool_def)
  have r1: "(pool_step redis_ports cfg (beside h svc (elsewhere e cfg t)))\<^sup>*\<^sup>* (new_pool (svc_supervisor svc)) (pool_of s)"
    using proc_start_pool [OF run(1)] by (simp add: pool_runs_def svc)
  have r2: "(pool_step redis_ports cfg (beside h svc (elsewhere e cfg t)))\<^sup>*\<^sup>* (pool_of s) (pool_of s')"
    using proc_run_pool [OF run(2,1)] by (simp add: pool_runs_def svc)
  note pred = beside_pool [OF svc close, of t]
  show ?thesis
    using pool_ports.pool_handoff [OF pred idle r1 r2 refl] pend
    unfolding pool_ports.secured_def [OF pred] ports.safe_def pool_runs_def svc task_safe_def world_of_def by blast
qed

end

subsection \<open>Properties\<close>

lemma booted_deps:
  assumes "host_laws h ks" and "main_boot h w = (Up svc, w')"
  shows "svc_deps svc = redis_deps (adapter_env h) (svc_cfg svc) (svc_scripts svc) (sender (svc_deps svc))"
    and "NewSupervisor (svc_cfg svc) w' = Some (svc_supervisor svc)"
  using host_laws.main_boot_up [OF assms] by (auto simp: redis_deps_def)

text \<open>C16: The process refines the pool: in a service that was booted from its environment, whatever the six goroutines, the signal and the
  rest of the world do, the supervisor is in a state the pool can reach, and each step of the process is a
  run of the pool (often an empty one). What holds of the pool in every reachable state therefore holds of the running service.\<close>

theorem process_refines_pool:
  assumes "host_laws h ks" and "main_boot h w = (Up svc, w')" and "proc_reachable h svc others s"
  shows "reachable (svc_deps svc) (svc_cfg svc) (beside h svc others) w' (pool_of s) \<and>
    (\<forall>s'. proc_step h svc others s s' \<longrightarrow>
       (pool_step (svc_deps svc) (svc_cfg svc) (beside h svc others))\<^sup>*\<^sup>* (pool_of s) (pool_of s'))"
proof -
  have "(pool_step (svc_deps svc) (svc_cfg svc) (beside h svc others))\<^sup>*\<^sup>* (pool_of s) (pool_of s')"
    if "proc_step h svc others s s'" for s'
    using proc_run_pool [OF r_into_rtranclp [of "proc_step h svc others", OF that] assms(3)] by (simp add: pool_runs_def)
  moreover have "reachable (svc_deps svc) (svc_cfg svc) (beside h svc others) w' (pool_of s)"
    using proc_start_pool [OF assms(3)] booted_deps(2) [OF assms(1,2)] by (auto simp: reachable_def pool_runs_def)
  ultimately show ?thesis by blast
qed

text \<open>C3: The running service loses no message: from the environment it was booted with to its exit, over all interleavings of its goroutines, the
  shutdown, other machines, and lost and repeated Redis commands, a message that was pending and no longer is has been
  secured before: on the way from the idle pool of the boot to the pool of this very state there is a step during which a worker holds the
  message and after which the email was accepted, the attempt completed, or the task in the retry set or a dead-letter list.\<close>

theorem service_never_loses:
  assumes "host_laws h ks" and "main_boot h w = (Up svc, w')"
    and "redis_system (adapter_env h) ks (svc_cfg svc) (sender (svc_deps svc)) mail accepted"
    and "\<And>v. ks (snd (lib_Close (lib_redis h) (svc_redis svc) v)) = ks v"
    and "proc_reachable h svc (elsewhere (adapter_env h) (svc_cfg svc) t) s"
    and "(proc_step h svc (elsewhere (adapter_env h) (svc_cfg svc) t))\<^sup>*\<^sup>* s s'"
    and "pending (svc_cfg svc) t (ks (world_of s))" and "\<not> pending (svc_cfg svc) t (ks (world_of s'))"
  shows "\<exists>u u' task p. reachable (svc_deps svc) (svc_cfg svc) (beside h svc (elsewhere (adapter_env h) (svc_cfg svc) t)) w' u \<and>
    pool_step (svc_deps svc) (svc_cfg svc) (beside h svc (elsewhere (adapter_env h) (svc_cfg svc) t)) u u' \<and>
    (pool_step (svc_deps svc) (svc_cfg svc) (beside h svc (elsewhere (adapter_env h) (svc_cfg svc) t)))\<^sup>*\<^sup>* u' (pool_of s') \<and>
    (task, p) \<in> set (working u) \<and> message_of task = message_of t \<and>
    task_safe ks mail accepted (world (spv u)) task (world (spv u'))"
proof -
  note up = booted_deps [OF assms(1,2)]
  obtain u u' task p where u: "pool_runs h svc (elsewhere (adapter_env h) (svc_cfg svc) t) (new_pool (svc_supervisor svc)) u"
    and rest: "pool_step (svc_deps svc) (svc_cfg svc) (beside h svc (elsewhere (adapter_env h) (svc_cfg svc) t)) u u'"
      "(pool_step (svc_deps svc) (svc_cfg svc) (beside h svc (elsewhere (adapter_env h) (svc_cfg svc) t)))\<^sup>*\<^sup>* u' (pool_of s')"
      "(task, p) \<in> set (working u)" "message_of task = message_of t"
      "task_safe ks mail accepted (world (spv u)) task (world (spv u'))"
    using redis_system.process_handoff [OF assms(3) up(1) refl assms(4-8)] up(1) by (auto simp: pool_runs_def)
  have "reachable (svc_deps svc) (svc_cfg svc) (beside h svc (elsewhere (adapter_env h) (svc_cfg svc) t)) w' u"
    using u up(2) by (auto simp: reachable_def pool_runs_def)
  with rest show ?thesis by blast
qed

subsection \<open>Witnesses\<close>

text \<open>
  A service with a SendGrid key boots on a Redis in which the message of a completed attempt is still pending; a worker takes
  it and acknowledges it.
\<close>

definition done_record :: idempotencyRecord where
  "done_record = \<lparr>RecStatus = ''completed'', RecWorkerID = [], RecStartedAt = [], RecCompletedAt = []\<rparr>"

definition done_ks :: keyspace where
  "done_ks = pending_ks\<lparr>strs := [idempotencyKey (attemptKey (ID stamped_task) (Attempt stamped_task)) \<mapsto> (Doc (idem_json done_record), None)]\<rparr>"

definition done_in :: "mem_http \<Rightarrow> bool" where
  "done_in w \<longleftrightarrow> mem_faults w = [] \<and> strs (mem_ks w) = strs done_ks \<and>
     scripts (mem_ks w) = [''sha-idem'' \<mapsto> IdempotencyLua, ''sha-reclaim'' \<mapsto> ReclaimStaleLua]"

abbreviation worker_ports :: "Config \<Rightarrow> mem_http EmailSender \<Rightarrow> mem_http deps" where
  "worker_ports c snd' \<equiv> redis_deps (worker_env True) c sample_scripts snd'"

lemma done_script:
  "idempotencyLuaScript (strs done_ks) (idempotencyKey (attemptKey (ID stamped_task) (Attempt stamped_task))) i ttl n = Some (0, strs done_ks)"
  by (simp add: idempotencyLuaScript_def done_ks_def done_record_def idem_json_def omit_string_def lua_field_def utf8_ok_ascii [unfolded utf8_ok_def])

lemma done_gate:
  assumes "done_in (world st)"
  shows "\<exists>st'. idempotency_gate (worker_ports c snd') c stamped_task (attemptKey (ID stamped_task) (Attempt stamped_task)) st = (Some Deduped, st') \<and>
    \<not> pending c stamped_task (mem_ks (world st'))"
proof -
  let ?k = "attemptKey (ID stamped_task) (Attempt stamped_task)"
  have sp: "\<exists>w1. SetProcessing (worker_env True) c sample_scripts ?k i (world st) = ((False, None), w1) \<and> done_in w1" for i
    using assms by (simp add: SetProcessing_def Let_def mem_eval done_in_def sample_scripts_def done_script)
  have ic: "\<exists>w2. IsCompleted (worker_env True) ?k w1 = ((True, None), w2) \<and> done_in w2" if "done_in w1" for w1
    using that by (simp add: IsCompleted_def Let_def mem_eval done_in_def done_ks_def done_record_def idem_json_def omit_string_def
        dec_idem_field_def lower_char_def byte_in_def zero_idem_def utf8_ok_ascii [unfolded utf8_ok_def])
  have ac: "\<exists>w3. Acknowledge (worker_env True) c stamped_task w2 = (None, w3) \<and> \<not> pending c stamped_task (mem_ks w3)" if "done_in w2" for w2
    using that acked_not_pending [of c stamped_task "mem_ks w2"] by (simp add: Acknowledge_def Let_def mem_eval done_in_def)
  obtain w1 where w1: "SetProcessing (worker_env True) c sample_scripts ?k (ConsumerName (CfgWorker c)) (world st) = ((False, None), w1)" "done_in w1"
    using sp by blast
  obtain w2 where w2: "IsCompleted (worker_env True) ?k w1 = ((True, None), w2)" "done_in w2" using ic [OF w1(2)] by blast
  obtain w3 where w3: "Acknowledge (worker_env True) c stamped_task w2 = (None, w3)" "\<not> pending c stamped_task (mem_ks w3)"
    using ac [OF w2(2)] by blast
  show ?thesis using w1(1) w2(1) w3
    by (simp add: idempotency_gate_def on_world_def port_defs metric_st_def)
qed

lemma done_processed:
  assumes "done_in (world st)"
  shows "\<not> pending c stamped_task (mem_ks (world (snd (processTask (worker_ports c snd') c stamped_task st))))"
proof -
  let ?st = "st\<lparr>activeWorkers := activeWorkers st + 1\<rparr>"
  obtain st1 where g: "idempotency_gate (worker_ports c snd') c stamped_task (attemptKey (ID stamped_task) (Attempt stamped_task)) ?st = (Some Deduped, st1)"
    and n: "\<not> pending c stamped_task (mem_ks (world st1))" using done_gate [of ?st] assms by auto
  then show ?thesis
    by (simp add: processTask_def process_body_def recover_panic_def release_slot_def metric_st_def port_defs Let_def)
qed

lemma done_ensure: "done_in w \<Longrightarrow> \<exists>w1. ensureConsumerGroup (worker_env True) key g w = (None, w1) \<and> done_in w1"
  by (auto simp: ensureConsumerGroup_def mem_eval isBusyGroup_def Let_def done_in_def upd_stream_def)

lemma done_ensures: "done_in w \<Longrightarrow> \<exists>w1. ensureGroups (worker_env True) keys g w = (None, w1) \<and> done_in w1"
proof (induction keys arbitrary: w)
  case (Cons key keys)
  obtain w1 where "ensureConsumerGroup (worker_env True) key g w = (None, w1)" "done_in w1" using done_ensure [OF Cons.prems] by blast
  with Cons.IH [of w1] show ?case by simp
qed simp

lemma done_starts:
  assumes "done_in (world st)" and "\<not> ClaimIdleThreshold (CfgWorker c) <=s 0"
  shows "\<exists>st'. Run_start (worker_ports c snd') c st = (Started, st') \<and> done_in (world st')"
proof -
  obtain w1 where "Consume (worker_env True) c (world st) = (None, w1)" "done_in w1"
    using done_ensures [OF assms(1)] by (auto simp: Consume_def)
  then show ?thesis using assms(2) by (simp add: Run_start_def on_world_def metric_st_def port_defs done_in_def)
qed

lemma workers_keep_drain: "(worker_step d cfg)\<^sup>*\<^sup>* p p' \<Longrightarrow>
   (\<lambda>p p'. pool_step d cfg others p p' \<and> drain_at p' = drain_at p)\<^sup>*\<^sup>* p p'"
proof (induction rule: rtranclp_induct)
  case (step y z)
  have "drain_at z = drain_at y" using step.hyps(2)
    by cases (simp_all add: worker_start_def worker_release_def worker_exit_def worker_report_def)
  with step show ?case by (auto intro: rtranclp.rtrancl_into_rtrancl pool_step.worker)
qed simp

text \<open>The service takes a task and a worker runs it to its end.\<close>

definition after_task :: "'s service \<Rightarrow> 's Supervisor \<Rightarrow> EmailTask \<Rightarrow> 's proc" where
  "after_task svc st t =
     (let s1 = (put_spv st (start_proc svc))\<lparr>sup_at := SupRunning\<rparr>
      in s1\<lparr>pool_of := run_alone (svc_deps svc) (svc_cfg svc) t (early_launch t (pool_of s1))\<rparr>)"

lemma after_task_reachable:
  assumes run: "Run_start (svc_deps svc) (svc_cfg svc) (svc_supervisor svc) = (Started, st)"
    and cap: "sem st < capacity (svc_cfg svc)"
  shows "proc_reachable h svc others (after_task svc st t)"
proof -
  let ?s0 = "start_proc svc"
  let ?s1 = "(put_spv st ?s0)\<lparr>sup_at := SupRunning\<rparr>"
  let ?p = "early_launch t (pool_of ?s1)"
  have sel: "exit_status ?s0 = None" "sup_at ?s0 = SupLaunched" "spv (pool_of ?s0) = svc_supervisor svc"
    by (simp_all add: start_proc_def new_pool_def)
  have "proc_reachable h svc others ?s0" by (simp add: proc_reachable_def)
  then have s1: "proc_reachable h svc others ?s1"
    by (rule proc_reachable_step) (use live_step.sup_start [of ?s0 svc st h others] run sel in simp_all)
  let ?q = "\<lambda>p p'. pool_step (svc_deps svc) (svc_cfg svc) others p p' \<and> drain_at p' = drain_at p"
  have "?q\<^sup>*\<^sup>* (pool_of ?s1) ?p"
    by (rule early_launch_run) (use cap in \<open>simp_all add: put_spv_def start_proc_def new_pool_def\<close>)
  moreover have "?q\<^sup>*\<^sup>* ?p (run_alone (svc_deps svc) (svc_cfg svc) t ?p)"
    by (rule workers_keep_drain [OF run_alone_steps]) (simp_all add: early_launch_def put_spv_def start_proc_def new_pool_def)
  ultimately have "?q\<^sup>*\<^sup>* (pool_of ?s1) (run_alone (svc_deps svc) (svc_cfg svc) t ?p)" by (rule rtranclp_trans)
  then have "proc_reachable h svc others (?s1\<lparr>pool_of := run_alone (svc_deps svc) (svc_cfg svc) t ?p\<rparr>)"
    by (rule lift_pool_run [OF _ s1]) (simp_all add: sel)
  then show ?thesis by (simp add: after_task_def Let_def)
qed

lemma after_task_world:
  "world_of (after_task svc st t) = world (snd (processTask (svc_deps svc) (svc_cfg svc) t (st\<lparr>sem := sem st + 1\<rparr>)))"
  by (simp add: after_task_def world_of_def run_alone_processTask early_launch_def put_spv_def start_proc_def new_pool_def Let_def)

lemma sendgrid_idle:
  assumes "Load (sample_os sendgrid_start) = Inr c"
  shows "\<not> ClaimIdleThreshold (CfgWorker c) <=s 0"
  using assms
  by (auto simp: Load_def defaultConsumerName_def parseDuration_def sample_os_def sendgrid_start_def sample_start_def go_second_def word_sle_eq
      split: sum.splits)

text \<open>A booted service with SendGrid as its provider, on any data.\<close>

definition sendgrid_on :: "keyspace \<Rightarrow> mem_http service \<Rightarrow> mem_http \<Rightarrow> SendGridSender \<Rightarrow> bool" where
  "sendgrid_on k svc w sg \<longleftrightarrow>
     main_boot (mem_host (sample_os sendgrid_start)) (http_world k [] [] (newCircuitBreaker 5 1)) = (Up svc, w) \<and>
     sender (svc_deps svc) = SendGridEmailSender (worker_env True) mem_http_env sg"

abbreviation sendgrid_up :: "mem_http service \<Rightarrow> mem_http \<Rightarrow> SendGridSender \<Rightarrow> bool" where
  "sendgrid_up \<equiv> sendgrid_on done_ks"

lemma sendgrid_onD:
  "sendgrid_on k svc w sg \<Longrightarrow> main_boot (mem_host (sample_os sendgrid_start)) (http_world k [] [] (newCircuitBreaker 5 1)) = (Up svc, w)"
  by (simp add: sendgrid_on_def)

lemma sendgrid_boots:
  obtains svc w sg where "sendgrid_on k svc w sg"
    and "redis_system (adapter_env (mem_host (sample_os sendgrid_start))) mem_ks (svc_cfg svc) (sender (svc_deps svc)) (sendgrid_mail sg) mem_confirmed"
    and "svc_deps svc = worker_ports (svc_cfg svc) (sender (svc_deps svc))" and "mem_up (svc_cfg svc) k svc"
    and "\<not> ClaimIdleThreshold (CfgWorker (svc_cfg svc)) <=s 0" and "ConsumerGroup (CfgWorker (svc_cfg svc)) = ''email-workers''"
    and "sem (svc_supervisor svc) = 0" and "0 < capacity (svc_cfg svc)"
proof -
  let ?h = "mem_host (sample_os sendgrid_start)"
  obtain c svc w where b: "main_boot ?h (http_world k [] [] (newCircuitBreaker 5 1)) = (Up svc, w)"
    and l: "Load (sample_os sendgrid_start) = Inr c" and u: "mem_up c k svc"
    using sample_boots [of sendgrid_start k "newCircuitBreaker 5 1"] by blast
  note loaded = sample_loads [OF _ l, simplified]
  have env: "adapter_env ?h = worker_env True" "web ?h = mem_http_env" by (simp_all add: mem_host_def)
  have c: "svc_cfg svc = c" "svc_scripts svc = sample_scripts" using u by (simp_all add: mem_up_def)
  have deps: "svc_deps svc = worker_ports (svc_cfg svc) (sender (svc_deps svc))"
    using booted_deps(1) [OF mem_host.host_laws_axioms b] env c by simp
  have key: "SendGridAPIKey (CfgEmail c) \<noteq> []"
    using l by (auto simp: Load_def defaultConsumerName_def getEnv_def sample_os_def sendgrid_start_def)
  obtain s1 where "svc_deps svc = redis_deps (adapter_env ?h) c sample_scripts (fst (choose_sender ?h c s1))"
    using host_laws.main_boot_up [OF mem_host.host_laws_axioms b] unfolding c by blast
  then obtain sg where sg: "sender (svc_deps svc) = SendGridEmailSender (worker_env True) mem_http_env sg"
    using key env by (auto simp: choose_sender_def redis_deps_def split: prod.splits)
  have "ttl_ok c" using loaded(4) by (simp add: ttl_ok_def)
  then have sys: "redis_system (adapter_env ?h) mem_ks (svc_cfg svc) (sender (svc_deps svc)) (sendgrid_mail sg) mem_confirmed"
    using sendgrid_system.worker_system [OF sendgrid_in_memory] env c sg by simp
  have "sem (svc_supervisor svc) = 0"
    using NewSupervisor_idle [OF booted_deps(2) [OF mem_host.host_laws_axioms b]] by simp
  moreover have "0 < capacity (svc_cfg svc)" using loaded(1) c by (simp add: config_ok_def capacity_def)
  moreover have "sendgrid_on k svc w sg" using b sg by (simp add: sendgrid_on_def)
  ultimately show ?thesis using sys deps u sendgrid_idle [OF l] loaded(3) c(1) by (intro that [of svc w sg]) simp_all
qed

lemma mem_up_world:
  assumes "mem_up c k svc"
  shows "mem_ks (world (svc_supervisor svc)) = k\<lparr>scripts := [''sha-idem'' \<mapsto> IdempotencyLua, ''sha-reclaim'' \<mapsto> ReclaimStaleLua]\<rparr>"
    and "mem_faults (world (svc_supervisor svc)) = []"
  using assms by (simp_all add: mem_up_def)

theorem process_refines_pool_witness:
  "\<exists>svc w sg. sendgrid_up svc w sg \<and>
     reachable (svc_deps svc) (svc_cfg svc) (beside (mem_host (sample_os sendgrid_start)) svc (=)) w (pool_of (start_proc svc))"
proof -
  obtain svc w sg where up: "sendgrid_up svc w sg" using sendgrid_boots by metis
  note b = sendgrid_onD [OF up]
  have "proc_reachable (mem_host (sample_os sendgrid_start)) svc (=) (start_proc svc)" by (simp add: proc_reachable_def)
  from process_refines_pool [OF mem_host.host_laws_axioms b this] up show ?thesis by blast
qed

theorem service_never_loses_witness:
  "\<exists>svc w sg st u u' task p. sendgrid_up svc w sg \<and>
     pool_step (svc_deps svc) (svc_cfg svc)
       (beside (mem_host (sample_os sendgrid_start)) svc
         (elsewhere (adapter_env (mem_host (sample_os sendgrid_start))) (svc_cfg svc) stamped_task)) u u' \<and>
     (pool_step (svc_deps svc) (svc_cfg svc)
       (beside (mem_host (sample_os sendgrid_start)) svc
         (elsewhere (adapter_env (mem_host (sample_os sendgrid_start))) (svc_cfg svc) stamped_task)))\<^sup>*\<^sup>* u' (pool_of (after_task svc st stamped_task)) \<and>
     (task, p) \<in> set (working u) \<and> message_of task = message_of stamped_task \<and>
     task_safe mem_ks (sendgrid_mail sg) mem_confirmed (world (spv u)) task (world (spv u'))"
proof -
  let ?h = "mem_host (sample_os sendgrid_start)"
  obtain svc w sg where up: "sendgrid_up svc w sg"
    and sys: "redis_system (adapter_env ?h) mem_ks (svc_cfg svc) (sender (svc_deps svc)) (sendgrid_mail sg) mem_confirmed"
    and deps: "svc_deps svc = worker_ports (svc_cfg svc) (sender (svc_deps svc))" and u: "mem_up (svc_cfg svc) done_ks svc"
    and idle: "\<not> ClaimIdleThreshold (CfgWorker (svc_cfg svc)) <=s 0" and g: "ConsumerGroup (CfgWorker (svc_cfg svc)) = ''email-workers''"
    and free: "sem (svc_supervisor svc) = 0" "0 < capacity (svc_cfg svc)"
    by (rule sendgrid_boots)
  note b = sendgrid_onD [OF up] and ks = mem_up_world [OF u]
  have "done_in (world (svc_supervisor svc))" by (simp add: done_in_def ks)
  then obtain st where run: "Run_start (svc_deps svc) (svc_cfg svc) (svc_supervisor svc) = (Started, st)" and d: "done_in (world st)"
    using done_starts [of "svc_supervisor svc" "svc_cfg svc" "sender (svc_deps svc)"] idle deps by auto
  have cap: "sem st < capacity (svc_cfg svc)" using arg_cong [where f = sem, OF Run_start_world [OF run]] free by simp
  have pend: "pending (svc_cfg svc) stamped_task (mem_ks (world (svc_supervisor svc)))"
    using g stamped_task_pending by (simp add: ks done_ks_def pending_def pel_of_def)
  let ?others = "elsewhere (adapter_env ?h) (svc_cfg svc) stamped_task"
  have close: "mem_ks (snd (lib_Close (lib_redis ?h) (svc_redis svc) v)) = mem_ks v" for v by (simp add: mem_host_def)
  have s0: "proc_reachable ?h svc ?others (start_proc svc)" by (simp add: proc_reachable_def)
  have run': "(proc_step ?h svc ?others)\<^sup>*\<^sup>* (start_proc svc) (after_task svc st stamped_task)"
    using after_task_reachable [OF run cap] by (simp add: proc_reachable_def)
  have p0: "pending (svc_cfg svc) stamped_task (mem_ks (world_of (start_proc svc)))"
    using pend by (simp add: world_of_def start_proc_def new_pool_def)
  have p1: "\<not> pending (svc_cfg svc) stamped_task (mem_ks (world_of (after_task svc st stamped_task)))"
    using done_processed [of "st\<lparr>sem := sem st + 1\<rparr>" "svc_cfg svc" "sender (svc_deps svc)"] d deps by (simp add: after_task_world)
  from service_never_loses [OF mem_host.host_laws_axioms b sys close s0 run' p0 p1] up show ?thesis
    by blast
qed

end
