(* ===== verification/Poll_Steps.thy ===== *)
theory Poll_Steps
  imports Pool Background
begin

text \<open>
  internal/adapters/redis/consumer.go: the goroutine of \<open>pollLoop\<close>, one action at a time, next to the pool whose
  channel it fills. \<open>Consumer\<close> has the same loop as a function; a goroutine that nobody interrupts computes
  that function.
\<close>

subsection \<open>The goroutine\<close>

text \<open>
  Where the goroutine is: not started, at the top of the loop, about to read, looking at an error, recreating the groups,
  handing out the tasks it has read, or returned.
\<close>

datatype poll_pc =
  PollOff
| PollTop
| PollRead
| PollFailed go_error
| Regrouping "string list"
| Handing "EmailTask list"
| PollReturned

text \<open>The tasks of a reply; what cannot be parsed is logged and skipped.\<close>

definition decoded :: "(string \<times> stream_msg list) list \<Rightarrow> EmailTask list" where
  "decoded ss = concat (map (\<lambda>(key, ms). parsed key ms) ss)"

definition pool_world :: "'w \<Rightarrow> 'w pool \<Rightarrow> 'w pool" where
  "pool_world w s = s\<lparr>spv := (spv s)\<lparr>world := w\<rparr>\<rparr>"

definition read_cmd :: "Config \<Rightarrow> rcmd" where
  "read_cmd cfg = XREADGROUP (ConsumerGroup (CfgWorker cfg)) (ConsumerName (CfgWorker cfg)) priorityStreams 10 (BlockTimeout (CfgWorker cfg))"

text \<open>\<open>defer close(ch)\<close>: whoever returns closes the channel.\<close>

definition poll_return :: "'w pool \<Rightarrow> poll_pc \<times> 'w pool" where
  "poll_return s = (PollReturned, s\<lparr>chClosed := True\<rparr>)"

inductive poll_step :: "'w env \<Rightarrow> Config \<Rightarrow> poll_pc \<times> 'w pool \<Rightarrow> poll_pc \<times> 'w pool \<Rightarrow> bool" for e cfg where
  top_done: "ctxDone s \<Longrightarrow> poll_step e cfg (PollTop, s) (poll_return s)"
| top: "\<not> ctxDone s \<Longrightarrow> poll_step e cfg (PollTop, s) (PollRead, s)"
| read: "env_client e (read_cmd cfg) (world (spv s)) = (r, w) \<Longrightarrow> reply_streams r = Inr ss \<Longrightarrow>
    poll_step e cfg (PollRead, s) (Handing (decoded ss), pool_world w s)"
| read_error: "env_client e (read_cmd cfg) (world (spv s)) = (r, w) \<Longrightarrow> reply_streams r = Inl err \<Longrightarrow>
    poll_step e cfg (PollRead, s) (PollFailed err, pool_world w s)"
| failed_done: "ctxDone s \<Longrightarrow> poll_step e cfg (PollFailed err, s) (poll_return s)"
| failed_nogroup: "\<not> ctxDone s \<Longrightarrow> isNoGroup err \<Longrightarrow> poll_step e cfg (PollFailed err, s) (Regrouping priorityStreams, s)"
| failed_other: "\<not> ctxDone s \<Longrightarrow> \<not> isNoGroup err \<Longrightarrow> poll_step e cfg (PollFailed err, s) (PollTop, s)"
| regroup: "ensureConsumerGroup e key (ConsumerGroup (CfgWorker cfg)) (world (spv s)) = (err, w) \<Longrightarrow>
    poll_step e cfg (Regrouping (key # keys), s) (Regrouping keys, pool_world w s)"
| regrouped: "poll_step e cfg (Regrouping [], s) (PollTop, s)"
| hand: "length (taskCh s) < capacity cfg \<Longrightarrow>
    poll_step e cfg (Handing (t # ts), s) (Handing ts, s\<lparr>taskCh := taskCh s @ [t]\<rparr>)"
| hand_done: "ctxDone s \<Longrightarrow> poll_step e cfg (Handing (t # ts), s) (poll_return s)"
| handed: "poll_step e cfg (Handing [], s) (PollTop, s)"

inductive_cases poll_stepE: "poll_step e cfg (pc, s) (pc', s')"

lemma pool_world_sels [simp]:
  "world (spv (pool_world w s)) = w" "ctxDone (pool_world w s) = ctxDone s" "taskCh (pool_world w s) = taskCh s"
  "chClosed (pool_world w s) = chClosed s" "run_at (pool_world w s) = run_at s" "launched (pool_world w s) = launched s"
  "working (pool_world w s) = working s" "drain_at (pool_world w s) = drain_at s"
  "pool_world w (pool_world w' s) = pool_world w s" "pool_world (world (spv s)) s = s"
  by (simp_all add: pool_world_def)

subsection \<open>What the goroutine does to the pool\<close>

text \<open>Its commands read and create groups; for the pool it is one of the others, a sender, or who closes the channel.\<close>

fun poll_cmd :: "rcmd \<Rightarrow> bool" where
  "poll_cmd (XREADGROUP g c keys n d) \<longleftrightarrow> True"
| "poll_cmd (XGROUP_CREATE key g) \<longleftrightarrow> True"
| "poll_cmd _ \<longleftrightarrow> False"

lemma ensure_sends: "ensureConsumerGroup e key g w = (err, w') \<Longrightarrow> sends e poll_cmd w w'"
  by (auto simp: ensureConsumerGroup_def Let_def split: prod.splits option.splits if_splits intro: sends.command)

lemma read_sends: "env_client e (read_cmd cfg) w = (r, w') \<Longrightarrow> sends e poll_cmd w w'"
  by (erule sends.command) (simp add: read_cmd_def)

text \<open>Only a goroutine that has returned has closed the channel, and it is gone then.\<close>

definition closes_once :: "poll_pc \<times> 'w pool \<Rightarrow> bool" where
  "closes_once p \<longleftrightarrow> (chClosed (snd p) \<longleftrightarrow> fst p = PollReturned)"

lemma poll_step_closes: "poll_step e cfg p p' \<Longrightarrow> closes_once p \<Longrightarrow> closes_once p' \<and> \<not> chClosed (snd p)"
  by (induction rule: poll_step.induct) (auto simp: closes_once_def poll_return_def)

lemma meanwhile_pool: "others (world (spv s)) w \<Longrightarrow> pool_step d cfg others s (pool_world w s)"
  unfolding pool_world_def by (rule pool_step.meanwhile)

lemma poll_step_pool:
  assumes "poll_step e cfg (pc, s) (pc', s')" and "closes_once (pc, s)"
  shows "s' = s \<or> pool_step d cfg (sends e poll_cmd) s s'"
  using assms(1)
proof (rule poll_stepE)
  fix t ts assume "length (taskCh s) < capacity cfg" "s' = s\<lparr>taskCh := taskCh s @ [t]\<rparr>" "pc = Handing (t # ts)"
  then show ?thesis using assms(2) by (auto simp: closes_once_def intro: pool_step.arrive)
qed (auto simp: poll_return_def intro: pool_step.close meanwhile_pool read_sends ensure_sends)

subsection \<open>The goroutine alone\<close>

text \<open>The surroundings of the loop, with the pool as its world: the context is the context of the group.\<close>

definition pool_env :: "'w env \<Rightarrow> 'w pool env" where
  "pool_env e =
     \<lparr>env_client = (\<lambda>c s. let (r, w) = env_client e c (world (spv s)) in (r, pool_world w s)),
      record_metric = (\<lambda>m s. pool_world (record_metric e m (world (spv s))) s),
      time_now = (\<lambda>s. let (t, w) = time_now e (world (spv s)) in (t, pool_world w s)),
      ctx_err = (\<lambda>s. (if ctxDone s then Some (ESentinel ErrCanceled) else None, s)),
      rand_float = (\<lambda>s. let (x, w) = rand_float e (world (spv s)) in (x, pool_world w s))\<rparr>"

lemma pool_env_sels:
  "env_client (pool_env e) = (\<lambda>c s. let (r, w) = env_client e c (world (spv s)) in (r, pool_world w s))"
  "ctx_err (pool_env e) = (\<lambda>s. (if ctxDone s then Some (ESentinel ErrCanceled) else None, s))"
  by (simp_all add: pool_env_def)

definition chan_send :: "Config \<Rightarrow> EmailTask \<Rightarrow> 'w pool \<Rightarrow> bool \<times> 'w pool" where
  "chan_send cfg t s = (if length (taskCh s) < capacity cfg then (True, s\<lparr>taskCh := taskCh s @ [t]\<rparr>) else (False, s))"

abbreviation poll_run :: "'w env \<Rightarrow> Config \<Rightarrow> poll_pc \<times> 'w pool \<Rightarrow> poll_pc \<times> 'w pool \<Rightarrow> bool" where
  "poll_run e cfg \<equiv> (poll_step e cfg)\<^sup>*\<^sup>*"

lemma ensure_pool:
  "ensureConsumerGroup (pool_env e) key g s =
     (let (err, w) = ensureConsumerGroup e key g (world (spv s)) in (err, pool_world w s))"
  by (simp add: ensureConsumerGroup_def pool_env_sels Let_def case_prod_unfold split: option.split)

lemma poll_run_step: "poll_step e cfg p p' \<Longrightarrow> poll_run e cfg p' p'' \<Longrightarrow> poll_run e cfg p p''"
  by (rule converse_rtranclp_into_rtranclp)

lemma regroup_run:
  "poll_run e cfg (Regrouping keys, s)
     (PollTop, fold (\<lambda>k s. snd (ensureConsumerGroup (pool_env e) k (ConsumerGroup (CfgWorker cfg)) s)) keys s)"
proof (induction keys arbitrary: s)
  case (Cons key keys)
  obtain err w where e: "ensureConsumerGroup e key (ConsumerGroup (CfgWorker cfg)) (world (spv s)) = (err, w)" by fastforce
  with Cons [of "pool_world w s"] show ?case
    by (auto simp: ensure_pool intro: poll_run_step [OF poll_step.regroup])
qed (auto intro: poll_step.regrouped)

lemma hand_msgs:
  "deliver_msgs (chan_send cfg) key ms s = (True, s') \<Longrightarrow> poll_run e cfg (Handing (parsed key ms @ ts), s) (Handing ts, s')"
proof (induction ms arbitrary: s)
  case (Cons m ms)
  then show ?case
    by (auto simp: parsed_def chan_send_def Let_def split: sum.splits if_splits
        intro: poll_run_step [OF poll_step.hand])
qed (simp add: parsed_def)

lemma hand_streams:
  "deliver_streams (chan_send cfg) ss s = (True, s') \<Longrightarrow> poll_run e cfg (Handing (decoded ss), s) (Handing [], s')"
proof (induction ss arbitrary: s)
  case (Cons x ss)
  obtain key ms where x: "x = (key, ms)" by fastforce
  obtain s1 where s1: "deliver_msgs (chan_send cfg) key ms s = (True, s1)" "deliver_streams (chan_send cfg) ss s1 = (True, s')"
    using Cons.prems by (auto simp: x Let_def split: prod.splits if_splits)
  show ?case using rtranclp_trans [OF hand_msgs [OF s1(1), of e "decoded ss"] Cons.IH [OF s1(2)]]
    by (simp add: x decoded_def)
qed (simp add: decoded_def)

lemma round_run:
  assumes "poll_round (pool_env e) cfg (chan_send cfg) s = (True, s')"
  shows "\<not> ctxDone s" and "poll_run e cfg (PollTop, s) (PollTop, s')"
proof -
  show ctx: "\<not> ctxDone s" using assms by (auto simp: poll_round_def pool_env_sels Let_def)
  obtain r w where r: "env_client e (read_cmd cfg) (world (spv s)) = (r, w)" by fastforce
  let ?s = "pool_world w s"
  have top: "poll_run e cfg (PollTop, s) (PollRead, s)" using poll_step.top [OF ctx] by auto
  have body: "(case reply_streams r of
      Inl err \<Rightarrow> if isNoGroup err then (True, fold (\<lambda>k s. snd (ensureConsumerGroup (pool_env e) k (ConsumerGroup (CfgWorker cfg)) s)) priorityStreams ?s)
        else (True, ?s)
    | Inr ss \<Rightarrow> deliver_streams (chan_send cfg) ss ?s) = (True, s')"
    using assms r ctx by (cases "reply_streams r") (simp_all add: poll_round_def pool_env_sels read_cmd_def Let_def)
  have "poll_run e cfg (PollRead, s) (PollTop, s')"
  proof (cases "reply_streams r")
    case (Inl err)
    then have read: "poll_step e cfg (PollRead, s) (PollFailed err, ?s)" by (rule poll_step.read_error [OF r])
    have "poll_run e cfg (PollFailed err, ?s) (PollTop, s')"
    proof (cases "isNoGroup err")
      case True
      then show ?thesis using body Inl ctx
        by (auto intro!: poll_run_step [OF poll_step.failed_nogroup] regroup_run)
    next
      case False
      then show ?thesis using body Inl ctx poll_step.failed_other [of ?s err e cfg] by auto
    qed
    then show ?thesis using read by (rule poll_run_step [rotated])
  next
    case (Inr ss)
    have "poll_run e cfg (Handing (decoded ss), ?s) (Handing [], s')" by (rule hand_streams) (use body Inr in simp)
    then have "poll_run e cfg (PollRead, s) (Handing [], s')" by (rule poll_run_step [OF poll_step.read [OF r Inr]])
    then show ?thesis using poll_step.handed by (rule rtranclp.rtrancl_into_rtrancl)
  qed
  with top show "poll_run e cfg (PollTop, s) (PollTop, s')" by (rule rtranclp_trans)
qed

lemma round_done: "ctxDone s \<Longrightarrow> poll_round (pool_env e) cfg send s = (False, s)"
  by (simp add: poll_round_def pool_env_sels Let_def)

lemma loop_run:
  "pollLoop n (pool_env e) cfg (chan_send cfg) s = (True, s') \<Longrightarrow> poll_run e cfg (PollTop, s) (PollTop, s')"
proof (induction n arbitrary: s)
  case (Suc n)
  then obtain s1 where "poll_round (pool_env e) cfg (chan_send cfg) s = (True, s1)" "pollLoop n (pool_env e) cfg (chan_send cfg) s1 = (True, s')"
    by (auto simp: Let_def split: prod.splits if_splits)
  with Suc.IH show ?case using round_run(2) by (metis rtranclp_trans)
qed simp

text \<open>Without the end of the context, what the goroutine does next is determined.\<close>

lemma poll_step_unique: "poll_step e cfg p p1 \<Longrightarrow> poll_step e cfg p p2 \<Longrightarrow> \<not> ctxDone (snd p) \<Longrightarrow> p1 = p2"
  by (induction rule: poll_step.induct) (auto elim!: poll_stepE poll_step.cases)

subsection \<open>Properties\<close>

text \<open>Adequacy of the actions of the poll goroutine. The poll loop as it runs is the poll loop of the model: the goroutine, action by action and with nobody in between, takes
  the pool to the state the function \<open>pollLoop\<close> computes, for any number of rounds that find room in the channel; and until the
  context ends it can do nothing else.\<close>

theorem lone_poller_is_pollLoop:
  assumes "pollLoop n (pool_env e) cfg (chan_send cfg) s = (True, s')"
  shows "(poll_step e cfg)\<^sup>*\<^sup>* (PollTop, s) (PollTop, s') \<and>
    (\<forall>p p1 p2. poll_step e cfg p p1 \<and> poll_step e cfg p p2 \<and> \<not> ctxDone (snd p) \<longrightarrow> p1 = p2)"
  using loop_run [OF assms] poll_step_unique by blast

lemma error_goes_on:
  assumes "\<not> ctxDone s" and "env_client e (read_cmd cfg) (world (spv s)) = (Inl err, w)"
  shows "pollLoop 1 (pool_env e) cfg send s = (True, snd (pollLoop 1 (pool_env e) cfg send s))"
  using assms by (simp add: poll_round_def pool_env_sels read_cmd_def Let_def)

theorem lone_poller_is_pollLoop_witness:
  "let s = new_pool (idle_supervisor (sys_world pending_ks [] [LostReply])) in
   (poll_step (mem_env True) sample_config)\<^sup>*\<^sup>* (PollTop, s) (PollTop, snd (pollLoop 1 (pool_env (mem_env True)) sample_config (chan_send sample_config) s))"
proof -
  let ?s = "new_pool (idle_supervisor (sys_world pending_ks [] [LostReply]))"
  obtain w where r: "env_client (mem_env True) (read_cmd sample_config) (world (spv ?s)) = (Inl timeout_error, w)"
    by (simp add: new_pool_def idle_supervisor_def sys_world_def mem_client_def mem_apply_def)
  have "\<not> ctxDone ?s" by (simp add: new_pool_def)
  from lone_poller_is_pollLoop [OF error_goes_on [OF this r]] show ?thesis by (simp add: Let_def)
qed

end
