(* ===== verification/Service_Run.thy ===== *)
theory Service_Run
  imports Process_Safety Poll_Steps
begin

text \<open>
  The running service: the process of \<open>Lifecycle\<close> together with the poll goroutine of \<open>Poll_Steps\<close>, which the consumer
  starts when the supervisor does and which alone writes to the task channel and closes it. The service refines the
  process, where anything might come out of the channel; so what is shown of the process holds, and besides, every task in it has been read from a stream.
\<close>

subsection \<open>The machine\<close>

record 's running =
  proc_of :: "'s proc"
  poll_at :: poll_pc

text \<open>What the other goroutines do leaves the channel to its reader.\<close>

definition leaves_channel :: "'w pool \<Rightarrow> 'w pool \<Rightarrow> bool" where
  "leaves_channel p q \<longleftrightarrow> chClosed q = chClosed p \<and> length (taskCh q) \<le> length (taskCh p)"

text \<open>\<open>Consume\<close> launches the poll goroutine once the groups exist.\<close>

definition launch_poll :: "'s proc \<Rightarrow> 's proc \<Rightarrow> poll_pc \<Rightarrow> poll_pc" where
  "launch_poll p q pc = (if sup_at p = SupLaunched \<and> sup_at q = SupRunning then PollTop else pc)"

inductive service_step :: "'s host \<Rightarrow> 's service \<Rightarrow> ('s \<Rightarrow> 's \<Rightarrow> bool) \<Rightarrow> 's running \<Rightarrow> 's running \<Rightarrow> bool" for h svc others where
  proc: "proc_step h svc others (proc_of s) p \<Longrightarrow> leaves_channel (pool_of (proc_of s)) (pool_of p) \<Longrightarrow>
    service_step h svc others s \<lparr>proc_of = p, poll_at = launch_poll (proc_of s) p (poll_at s)\<rparr>"
| poll: "exit_status (proc_of s) = None \<Longrightarrow>
    poll_step (adapter_env h) (svc_cfg svc) (poll_at s, pool_of (proc_of s)) (pc, q) \<Longrightarrow>
    service_step h svc others s \<lparr>proc_of = (proc_of s)\<lparr>pool_of := q\<rparr>, poll_at = pc\<rparr>"

definition start_service :: "'s service \<Rightarrow> 's running" where
  "start_service svc = \<lparr>proc_of = start_proc svc, poll_at = PollOff\<rparr>"

definition service_reachable :: "'s host \<Rightarrow> 's service \<Rightarrow> ('s \<Rightarrow> 's \<Rightarrow> bool) \<Rightarrow> 's running \<Rightarrow> bool" where
  "service_reachable h svc others s \<longleftrightarrow> (service_step h svc others)\<^sup>*\<^sup>* (start_service svc) s"

text \<open>The tasks anywhere in the service, read but not handed over included.\<close>

definition handing :: "poll_pc \<Rightarrow> EmailTask list" where
  "handing pc = (case pc of Handing ts \<Rightarrow> ts | _ \<Rightarrow> [])"

definition service_tasks :: "'s running \<Rightarrow> EmailTask list" where
  "service_tasks s = handing (poll_at s) @ pool_tasks (pool_of (proc_of s))"

lemma handing_simps [simp]:
  "handing (Handing ts) = ts" "handing PollOff = []" "handing PollTop = []" "handing PollRead = []" "handing (PollFailed err) = []"
  "handing (Regrouping keys) = []" "handing PollReturned = []"
  by (simp_all add: handing_def)

subsection \<open>The service refines the process\<close>

lemma live_step_others:
  assumes "live_step h svc others s s'" and "\<And>w w'. others w w' \<Longrightarrow> others' w w'"
  shows "live_step h svc others' s s'"
  using assms(1)
proof (cases rule: live_step.cases)
  case (elsewhere w)
  then show ?thesis using assms(2) live_step.elsewhere by metis
next
  case (pool p)
  show ?thesis unfolding pool(1) by (rule live_step.pool [OF pool(2) pool_step_others [OF pool(3) assms(2)] pool(4)])
qed (auto intro: live_step.intros simp del: group_return_sels)

lemma sup_started: "live_step h svc others s s' \<Longrightarrow> sup_at s \<noteq> SupLaunched \<Longrightarrow> sup_at s' \<noteq> SupLaunched"
  by (erule live_step.cases) simp_all

text \<open>The poll goroutine exists only after a start that worked, and whether the channel is closed is up to it.\<close>

definition poller_inv :: "'s running \<Rightarrow> bool" where
  "poller_inv s \<longleftrightarrow> closes_once (poll_at s, pool_of (proc_of s)) \<and>
     (poll_at s = PollOff \<or> sup_at (proc_of s) = SupRunning \<or> sup_at (proc_of s) = SupReturned \<and> run_at (pool_of (proc_of s)) = Stopped)"

lemma started_kept:
  assumes "live_step h svc others s s'" and "sup_at s = SupRunning \<or> sup_at s = SupReturned \<and> run_at (pool_of s) = Stopped"
  shows "sup_at s' = SupRunning \<or> sup_at s' = SupReturned \<and> run_at (pool_of s') = Stopped"
  using assms(1) by cases (use assms(2) in \<open>auto dest: pool_step_mono\<close>)

lemma poll_drain: "poll_step e cfg (pc, s) (pc', s') \<Longrightarrow> drain_at s' = drain_at s \<and> run_at s' = run_at s"
  by (erule poll_stepE) (auto simp: poll_return_def)

lemma poll_launched: "poll_step e cfg (pc, s) (pc', s') \<Longrightarrow> pc \<noteq> PollOff \<and> pc' \<noteq> PollOff"
  by (erule poll_stepE) (auto simp: poll_return_def)

lemma poller_inv_step:
  assumes "service_step h svc others s s'" and inv: "poller_inv s"
  shows "poller_inv s'"
  using assms(1)
proof (cases rule: service_step.cases)
  case (proc p)
  then have "live_step h svc others (proc_of s) p" by (simp add: proc_step_def)
  with inv proc(3) show ?thesis
    using started_kept [of h svc others "proc_of s" p]
    by (auto simp: proc(1) poller_inv_def closes_once_def launch_poll_def leaves_channel_def)
next
  case (poll pc q)
  then show ?thesis using inv poll_step_closes [OF poll(3)] poll_drain [OF poll(3)] poll_launched [OF poll(3)]
    by (auto simp: poller_inv_def)
qed

text \<open>To the process the poll goroutine is one of the others.\<close>

definition with_poller :: "'s host \<Rightarrow> ('s \<Rightarrow> 's \<Rightarrow> bool) \<Rightarrow> 's \<Rightarrow> 's \<Rightarrow> bool" where
  "with_poller h others w w' \<longleftrightarrow> others w w' \<or> sends (adapter_env h) poll_cmd w w'"

lemma service_step_proc:
  assumes "service_step h svc others s s'" and inv: "poller_inv s"
  shows "proc_of s' = proc_of s \<or> proc_step h svc (with_poller h others) (proc_of s) (proc_of s')"
  using assms(1)
proof (cases rule: service_step.cases)
  case (proc p)
  then have "proc_step h svc (with_poller h others) (proc_of s) p"
    using live_step_others [of h svc others "proc_of s" p "with_poller h others"] by (auto simp: proc_step_def with_poller_def)
  then show ?thesis by (simp add: proc(1))
next
  case (poll pc q)
  have closes: "closes_once (poll_at s, pool_of (proc_of s))" using inv by (simp add: poller_inv_def)
  from poll_step_pool [OF poll(3) closes, of "svc_deps svc"] show ?thesis
  proof
    assume "q = pool_of (proc_of s)"
    then show ?thesis by (simp add: poll(1))
  next
    assume "pool_step (svc_deps svc) (svc_cfg svc) (sends (adapter_env h) poll_cmd) (pool_of (proc_of s)) q"
    then have "pool_step (svc_deps svc) (svc_cfg svc) (with_poller h others) (pool_of (proc_of s)) q"
      by (rule pool_step_others) (simp add: with_poller_def)
    then have "live_step h svc (with_poller h others) (proc_of s) ((proc_of s)\<lparr>pool_of := q\<rparr>)"
      by (intro live_step.pool) (use inv poll_launched [OF poll(3)] poll_drain [OF poll(3)] in \<open>auto simp: poller_inv_def\<close>)
    then show ?thesis using poll(2) by (simp add: poll(1) proc_step_def)
  qed
qed

lemma service_run_proc:
  "(service_step h svc others)\<^sup>*\<^sup>* s s' \<Longrightarrow> poller_inv s \<Longrightarrow>
   poller_inv s' \<and> (proc_step h svc (with_poller h others))\<^sup>*\<^sup>* (proc_of s) (proc_of s')"
proof (induction rule: rtranclp_induct)
  case (step y z)
  then show ?case using poller_inv_step service_step_proc [of h svc others y z] by (auto intro: rtranclp.rtrancl_into_rtrancl)
qed simp

lemma start_poller: "poller_inv (start_service svc)"
  by (simp add: poller_inv_def start_service_def closes_once_def start_proc_def new_pool_def)

lemma service_reachable_proc:
  "service_reachable h svc others s \<Longrightarrow> poller_inv s \<and> proc_reachable h svc (with_poller h others) (proc_of s)"
  unfolding service_reachable_def proc_reachable_def
  by (drule service_run_proc [OF _ start_poller]) (simp add: start_service_def)

subsection \<open>Invariants from commands in the service\<close>

lemma leaves_taskCh:
  assumes "pool_step d cfg others p q" and "leaves_channel p q"
  shows "set (taskCh q) \<subseteq> set (taskCh p)"
  using assms(1)
proof (cases rule: pool_step.cases)
  case worker
  then show ?thesis using worker_step_channel [of d cfg p q] by simp
qed (use assms(2) in \<open>auto simp: leaves_channel_def dispatch_go_def dispatch_nack_def\<close>)

context command_invariant begin

lemma held_inv_same:
  assumes "taskCh q = taskCh p" "launched q = launched p" "run_at q = run_at p" "working q = working p"
    and "R (ks (world (spv p))) (ks (world (spv q)))" and "held_inv p"
  shows "held_inv q"
  by (rule held_invI [OF assms(6,5)]) (use assms(1-4) in \<open>auto simp: pool_tasks_def held_tasks_def\<close>)

lemma held_world: "R (ks (world_of s)) (ks w) \<Longrightarrow> held_inv (pool_of s) \<Longrightarrow> held_inv (pool_of (put_world w s)) \<and> R (ks (world_of s)) (ks (world_of (put_world w s)))"
  by (auto simp: world_of_def put_world_def intro: held_inv_same [of _ "pool_of s"])

lemma held_return: "held_inv (pool_of s) \<Longrightarrow> held_inv (pool_of (group_return err s)) \<and> world_of (group_return err s) = world_of s"
  by (auto simp: group_return_def cancel_ctx_def world_of_def intro: held_inv_same [of _ "pool_of s"] split: option.split)

lemma Run_start_R: "Run_start redis_ports cfg st = (r, st') \<Longrightarrow> R (ks (world st)) (ks (world st'))"
proof -
  assume run: "Run_start redis_ports cfg st = (r, st')"
  obtain err w1 where c: "Consume e cfg (world st) = (err, w1)" by fastforce
  then have "R (ks (world st)) (ks w1)"
    using R_chain [OF ensureGroups_chain [OF _ rtranclp.rtrancl_refl]] by (simp add: Consume_def)
  then show ?thesis using run c
    by (auto simp: Run_start_def on_world_def metric_st_def port_defs Let_def split: option.splits if_splits)
qed

lemma held_start:
  assumes "Run_start redis_ports cfg (spv (pool_of s)) = (r, st)" and "held_inv (pool_of s)"
  shows "held_inv (pool_of (put_spv st s)) \<and> R (ks (world_of s)) (ks (world_of (put_spv st s)))"
  using Run_start_R [OF assms(1)] assms(2)
  by (auto simp: put_spv_def world_of_def intro: held_inv_same [of _ "pool_of s"])

lemma held_live:
  assumes step: "live_step h svc (sends e P) s s'" and leaves: "leaves_channel (pool_of s) (pool_of s')"
    and svc: "svc_deps svc = redis_ports" "svc_cfg svc = cfg"
    and close: "\<And>w. ks (snd (lib_Close (lib_redis h) (svc_redis svc) w)) = ks w" and inv: "held_inv (pool_of s)"
  shows "R (ks (world_of s)) (ks (world_of s')) \<and> held_inv (pool_of s')"
  using step
proof (cases rule: live_step.cases)
  case sig_term
  then show ?thesis using inv by (auto simp: cancel_ctx_def world_of_def intro: held_inv_same [of _ "pool_of s"])
next
  case (elsewhere w)
  then show ?thesis using held_world R_sends inv by auto
next
  case (sup_start st)
  then show ?thesis using held_start inv by (auto simp: svc world_of_def)
next
  case (sup_fails er st)
  then show ?thesis using held_start [of s _ st] held_return inv by (auto simp: svc world_of_def)
next
  case (sup_panics msg st)
  then show ?thesis using held_start inv by (auto simp: svc world_of_def)
next
  case (pool p)
  then have "set (taskCh p) \<subseteq> set (taskCh (pool_of s))" using leaves_taskCh leaves by (metis proc.select_convs(1) proc.surjective proc.update_convs(1))
  then show ?thesis using held_inv_step [of "pool_of s" p] pool inv by (auto simp: svc world_of_def)
next
  case sched_tick
  then show ?thesis using held_world [of s] inv R_chain [OF FlushReady_chain] by (simp add: svc port_defs)
next
  case monitor_tick
  then show ?thesis using held_world [of s] inv R_chain [OF monitor_chain [OF rtranclp.rtrancl_refl]] by (simp add: svc port_defs)
next
  case (coord_drain expired again)
  then show ?thesis using inv by (auto simp: put_drain_def world_of_def intro: held_inv_same [of _ "pool_of s"])
next
  case coord_close
  have "ks (snd (Lifecycle_Close (lib_redis h) (svc_redis svc) (world_of s))) = ks (world_of s)"
    using close [of "world_of s"] by (auto simp: Lifecycle_Close_def split: prod.splits option.splits)
  then show ?thesis using held_world [of s "snd (Lifecycle_Close (lib_redis h) (svc_redis svc) (world_of s))"] inv
    by (simp add: coord_close world_of_def)
qed (use inv held_return in \<open>auto simp: world_of_def\<close>)

text \<open>What the poll goroutine reads.\<close>

lemma read_H:
  assumes "env_client e (read_cmd cfg) w = (r, w')" and "reply_streams r = Inr ss" and "t \<in> set (decoded ss)"
  shows "H (ks w') t"
proof -
  obtain k where k: "redis_ok (read_cmd cfg) k (RStreams ss) (ks w')" using client_ok assms(1,2) by fastforce
  obtain key ms where m: "(key, ms) \<in> set ss" "t \<in> set (parsed key ms)" using assms(3) by (auto simp: decoded_def)
  from k m(1) have "key \<in> set priorityStreams" "ms = take 10 (unread (streams k key) (ConsumerGroup (CfgWorker cfg)))"
    and same: "entries (streams (ks w') key) = entries (streams k key)"
    by (auto simp: read_cmd_def read_group_def split: option.splits)
  moreover from this(2) have "set ms \<subseteq> set (entries (streams k key))"
    by (auto simp: unread_def dest: in_set_takeD in_set_dropD split: option.splits)
  ultimately show ?thesis using parsed_H m(2) by auto
qed

lemma held_poll:
  assumes step: "poll_step e cfg (pc, s) (pc', s')" and inv: "held_inv s" and hand: "\<forall>t \<in> set (handing pc). H (ks (world (spv s))) t"
  shows "R (ks (world (spv s))) (ks (world (spv s'))) \<and> held_inv s' \<and> (\<forall>t \<in> set (handing pc'). H (ks (world (spv s'))) t)"
  using step
proof (rule poll_stepE)
  fix w ss assume r: "env_client e (read_cmd cfg) (world (spv s)) = (Inr (RStreams ss), w)"
    and s': "s' = pool_world w s" "pc' = Handing (decoded ss)"
  have "R (ks (world (spv s))) (ks w)" by (rule R_effs [OF client_effs [OF r(1)]]) (simp add: read_cmd_def)
  then show ?thesis using s' inv read_H [OF r, simplified] by (auto intro: held_inv_same [of _ s])
next
  fix r w err assume r: "env_client e (read_cmd cfg) (world (spv s)) = (r, w)" and s': "s' = pool_world w s" "pc' = PollFailed err"
  have "R (ks (world (spv s))) (ks w)" by (rule R_effs [OF client_effs [OF r(1)]]) (simp add: read_cmd_def)
  then show ?thesis using s' inv by (auto intro: held_inv_same [of _ s])
next
  fix key err w keys assume g: "ensureConsumerGroup e key (ConsumerGroup (CfgWorker cfg)) (world (spv s)) = (err, w)"
    and s': "s' = pool_world w s" "pc' = Regrouping keys"
  have "R (ks (world (spv s))) (ks w)" using R_chain [OF ensure_chain [OF rtranclp.rtrancl_refl]] g by (metis snd_conv)
  then show ?thesis using s' inv by (auto intro: held_inv_same [of _ s])
next
  fix t ts assume h: "pc = Handing (t # ts)" "pc' = Handing ts" "s' = s\<lparr>taskCh := taskCh s @ [t]\<rparr>"
  have "held_inv s'" by (rule held_invI [OF inv]) (use h hand in \<open>auto simp: pool_tasks_def held_tasks_def\<close>)
  then show ?thesis using h hand by simp
qed (use inv hand in \<open>auto simp: poll_return_def intro: held_inv_same [of _ s]\<close>)

text \<open>The service.\<close>

definition service_inv :: "'s running \<Rightarrow> bool" where
  "service_inv s \<longleftrightarrow> held_inv (pool_of (proc_of s)) \<and> (\<forall>t \<in> set (handing (poll_at s)). H (ks (world_of (proc_of s))) t)"

lemma service_inv_step:
  assumes step: "service_step h svc (sends e P) s s'" and env: "adapter_env h = e"
    and svc: "svc_deps svc = redis_ports" "svc_cfg svc = cfg"
    and close: "\<And>w. ks (snd (lib_Close (lib_redis h) (svc_redis svc) w)) = ks w" and inv: "service_inv s"
  shows "R (ks (world_of (proc_of s))) (ks (world_of (proc_of s'))) \<and> service_inv s'"
  using step
proof (cases rule: service_step.cases)
  case (proc p)
  have "R (ks (world_of (proc_of s))) (ks (world_of p)) \<and> held_inv (pool_of p)"
    by (rule held_live [OF _ proc(3) svc close]) (use proc(2) inv in \<open>simp_all add: proc_step_def service_inv_def\<close>)
  then show ?thesis using inv H_mono by (auto simp: proc(1) service_inv_def launch_poll_def)
next
  case (poll pc q)
  then show ?thesis using held_poll [of "poll_at s" "pool_of (proc_of s)" pc q] inv
    by (auto simp: env svc service_inv_def world_of_def)
qed

lemma service_inv_run:
  assumes "(service_step h svc (sends e P))\<^sup>*\<^sup>* (start_service svc) s" and "adapter_env h = e"
    and "svc_deps svc = redis_ports" "svc_cfg svc = cfg"
    and "\<And>w. ks (snd (lib_Close (lib_redis h) (svc_redis svc) w)) = ks w"
  shows "R (ks (world (svc_supervisor svc))) (ks (world_of (proc_of s)))" and "t \<in> set (service_tasks s) \<Longrightarrow> H (ks (world_of (proc_of s))) t"
proof -
  have "R (ks (world (svc_supervisor svc))) (ks (world_of (proc_of s))) \<and> service_inv s"
    using assms(1)
  proof (induction rule: rtranclp_induct)
    case base
    then show ?case by (simp add: service_inv_def held_inv_def start_service_def start_proc_def new_pool_def world_of_def
          pool_tasks_def held_tasks_def)
  next
    case (step y z)
    then show ?case using service_inv_step [OF step.hyps(2) assms(2-5)] R_trans by blast
  qed
  then show "R (ks (world (svc_supervisor svc))) (ks (world_of (proc_of s)))" and "t \<in> set (service_tasks s) \<Longrightarrow> H (ks (world_of (proc_of s))) t"
    by (auto simp: service_inv_def service_tasks_def held_inv_def world_of_def)
qed

end

end
