(* ===== verification/Healthy.thy ===== *)
theory Healthy
  imports Poll_Steps
begin

text \<open>
  What the consumer achieves while Redis answers: the theories so far say what never goes wrong whatever fails; here is
  what goes right when nothing does. \<open>up\<close> is the condition under which Redis answers, once per command and as
  documented, the context is live, and the clock shows a year JSON can print.
\<close>

subsection \<open>The interface\<close>

locale healthy_redis = redis_env e ks for e :: "'s env" and ks :: "'s \<Rightarrow> keyspace" +
  fixes up :: "'s \<Rightarrow> bool"
  assumes answers: "up w \<Longrightarrow> redis_ok c (ks w) r0 k0 \<Longrightarrow> (\<And>s. c \<noteq> SCRIPT_LOAD s) \<Longrightarrow>
      \<exists>r w'. env_client e c w = (Inr r, w') \<and> redis_ok c (ks w) r (ks w') \<and> up w'"
    and refuses: "up w \<Longrightarrow> (\<And>r k. \<not> redis_ok c (ks w) r k) \<Longrightarrow>
      \<exists>er w'. env_client e c w = (Inl er, w') \<and> ks w' = ks w \<and> up w'"
    and up_ctx: "up w \<Longrightarrow> \<exists>w'. ctx_err e w = (None, w') \<and> up w'"
    and up_metric: "up w \<Longrightarrow> up (record_metric e m w)"
    and up_now: "up w \<Longrightarrow> time_now e w = (now, w') \<Longrightarrow> up w' \<and> time_in_range now"
    and up_rand: "up w \<Longrightarrow> rand_float e w = (x, w') \<Longrightarrow> up w'"

locale healthy_channel = healthy_redis e ks up + task_channel e ks send sent
  for e :: "'s env" and ks :: "'s \<Rightarrow> keyspace" and up :: "'s \<Rightarrow> bool"
    and send :: "EmailTask \<Rightarrow> 's \<Rightarrow> bool \<times> 's" and sent :: "'s \<Rightarrow> EmailTask list" +
  assumes taken: "up w \<Longrightarrow> \<exists>w'. send t w = (True, w') \<and> up w'"

subsection \<open>Progress of the groups\<close>

definition groups_ready :: "Config \<Rightarrow> keyspace \<Rightarrow> bool" where
  "groups_ready cfg k \<longleftrightarrow>
     (\<forall>key \<in> set priorityStreams. case groups (streams k key) (ConsumerGroup (CfgWorker cfg)) of
        None \<Rightarrow> False | Some cg \<Rightarrow> last_read cg \<le> length (entries (streams k key)))"

abbreviation waiting_msgs :: "Config \<Rightarrow> keyspace \<Rightarrow> string \<Rightarrow> stream_msg list" where
  "waiting_msgs cfg k key \<equiv> unread (streams k key) (ConsumerGroup (CfgWorker cfg))"

definition off_streams :: "keyspace \<Rightarrow> (string \<Rightarrow> (jtext \<times> f64) list) \<times> (string \<Rightarrow> jtext list) \<times> (string \<Rightarrow> int option) \<times> kvstore \<times> (string \<Rightarrow> lua_script option)" where
  "off_streams k = (zsets k, lists k, list_ttl k, strs k, scripts k)"

definition of_stream :: "string \<Rightarrow> EmailTask \<Rightarrow> bool" where
  "of_stream key t \<longleftrightarrow> metadata_get t metaStreamKey = key"

text \<open>Up to \<open>n\<close> messages of each stream have been read and handed over as \<open>new\<close>, in their order.\<close>

definition read_ahead :: "Config \<Rightarrow> nat \<Rightarrow> keyspace \<Rightarrow> keyspace \<Rightarrow> EmailTask list \<Rightarrow> bool" where
  "read_ahead cfg n k k' new \<longleftrightarrow>
     groups_ready cfg k' \<and> off_streams k' = off_streams k \<and> (\<forall>key. entries (streams k' key) = entries (streams k key)) \<and>
     (\<forall>key \<in> set priorityStreams. waiting_msgs cfg k' key = drop n (waiting_msgs cfg k key) \<and>
        filter (of_stream key) new = parsed key (take n (waiting_msgs cfg k key)))"

lemma groups_readyD:
  assumes "groups_ready cfg k" and "key \<in> set priorityStreams"
  obtains cg where "groups (streams k key) (ConsumerGroup (CfgWorker cfg)) = Some cg" "last_read cg \<le> length (entries (streams k key))"
  using assms by (auto simp: groups_ready_def split: option.splits)

lemma unread_read_group:
  assumes "groups st g = Some cg"
  shows "unread (read_group g c n st) g = drop n (unread st g)"
  using assms by (auto simp: unread_def read_group_def min_def add.commute)

lemma parsed_append: "parsed key (xs @ ys) = parsed key xs @ parsed key ys"
  by (simp add: parsed_def)

lemma filter_parsed: "filter (of_stream key) (parsed key' ms) = (if key' = key then parsed key' ms else [])"
  by (induction ms) (auto simp: parsed_def of_stream_def dest: metadata_taskFromMessage split: sum.splits)

lemma decoded_Cons: "decoded ((key, ms) # ss) = parsed key ms @ decoded ss"
  by (simp add: decoded_def)

lemma filter_decoded:
  "distinct keys \<Longrightarrow> filter (of_stream key) (decoded (filter (\<lambda>(_, ms). ms \<noteq> []) (map (\<lambda>k. (k, f k)) keys))) =
     (if key \<in> set keys then parsed key (f key) else [])"
proof (induction keys)
  case (Cons k keys)
  have nil: "parsed x [] = []" for x by (simp add: parsed_def)
  show ?case using Cons by (auto simp: decoded_Cons filter_parsed nil)
qed (simp add: decoded_def)

lemma distinct_streams: "distinct priorityStreams"
  by (simp add: priorityStreams_def QueueName_def Priority_String_def)

lemma read_ahead_0: "groups_ready cfg k \<Longrightarrow> read_ahead cfg 0 k k []"
  by (simp add: read_ahead_def parsed_def)

lemma read_ahead_add: "read_ahead cfg m k k1 new1 \<Longrightarrow> read_ahead cfg n k1 k2 new2 \<Longrightarrow> read_ahead cfg (m + n) k k2 (new1 @ new2)"
  unfolding read_ahead_def by (auto simp: take_add parsed_append add.commute)

text \<open>Nothing to read: no message waits in any stream.\<close>

lemma read_ahead_idle:
  assumes "groups_ready cfg k" and "\<And>key. key \<in> set priorityStreams \<Longrightarrow> waiting_msgs cfg k key = []"
  shows "read_ahead cfg n k k []"
  using assms by (simp add: read_ahead_def parsed_def)

lemma read_ahead_reply:
  assumes ready: "groups_ready cfg k" and ok: "redis_ok (read_cmd cfg) k (RStreams ss) k'"
  shows "read_ahead cfg 10 k k' (decoded ss)"
proof -
  let ?g = "ConsumerGroup (CfgWorker cfg)"
  have ss: "ss = filter (\<lambda>(_, ms). ms \<noteq> []) (map (\<lambda>key. (key, take 10 (waiting_msgs cfg k key))) priorityStreams)"
    and k': "k' = k\<lparr>streams := (\<lambda>key. if key \<in> set priorityStreams then read_group ?g (ConsumerName (CfgWorker cfg)) 10 (streams k key) else streams k key)\<rparr>"
    using ok by (simp_all add: read_cmd_def)
  have "groups_ready cfg k'"
    using ready by (auto simp: groups_ready_def k' read_group_def split: option.splits)
  moreover have "waiting_msgs cfg k' key = drop 10 (waiting_msgs cfg k key)" if key: "key \<in> set priorityStreams" for key
  proof -
    obtain cg where "groups (streams k key) ?g = Some cg" using groups_readyD [OF ready key] by blast
    from unread_read_group [OF this] key show ?thesis by (simp add: k')
  qed
  moreover have "entries (streams k' key) = entries (streams k key)" for key
    by (simp add: k' read_group_def split: option.split)
  ultimately show ?thesis unfolding read_ahead_def ss filter_decoded [OF distinct_streams] by (simp add: k' off_streams_def)
qed

context healthy_channel begin

lemma healthy_deliver_msgs: "up w \<Longrightarrow> \<exists>w'. deliver_msgs send key ms w = (True, w') \<and> up w' \<and> ks w' = ks w \<and> sent w' = sent w @ parsed key ms"
proof (induction ms arbitrary: w)
  case (Cons m ms)
  show ?case
  proof (cases "taskFromMessage key m")
    case (Inr t)
    obtain w1 where w1: "send t w = (True, w1)" "up w1" using taken [OF Cons.prems] by blast
    with Cons.IH [OF w1(2)] send_spec [OF w1(1)] show ?thesis by (auto simp: Inr parsed_def)
  qed (use Cons in \<open>simp add: parsed_def\<close>)
qed (simp add: parsed_def)

lemma healthy_deliver: "up w \<Longrightarrow> \<exists>w'. deliver_streams send ss w = (True, w') \<and> up w' \<and> ks w' = ks w \<and> sent w' = sent w @ decoded ss"
proof (induction ss arbitrary: w)
  case (Cons x ss)
  obtain key ms where x: "x = (key, ms)" by fastforce
  obtain w1 where w1: "deliver_msgs send key ms w = (True, w1)" "up w1" "ks w1 = ks w" "sent w1 = sent w @ parsed key ms"
    using healthy_deliver_msgs [OF Cons.prems] by blast
  with Cons.IH [OF w1(2)] show ?case by (auto simp: x decoded_Cons)
qed (simp add: decoded_def)

lemma healthy_ensure:
  assumes "up w" and "groups (streams (ks w) key) g \<noteq> None"
  shows "up (snd (ensureConsumerGroup e key g w)) \<and> ks (snd (ensureConsumerGroup e key g w)) = ks w \<and>
    sent (snd (ensureConsumerGroup e key g w)) = sent w"
proof -
  obtain er w' where "env_client e (XGROUP_CREATE key g) w = (Inl er, w')" "ks w' = ks w" "up w'"
    using refuses [OF assms(1), of "XGROUP_CREATE key g"] assms(2) by auto
  then show ?thesis using sent_ensure [of key g w] by (simp add: ensureConsumerGroup_def)
qed

lemma healthy_regroup:
  "up w \<Longrightarrow> (\<And>key. key \<in> set keys \<Longrightarrow> groups (streams (ks w) key) g \<noteq> None) \<Longrightarrow>
   (let w' = fold (\<lambda>k s. snd (ensureConsumerGroup e k g s)) keys w in up w' \<and> ks w' = ks w \<and> sent w' = sent w)"
proof (induction keys arbitrary: w)
  case (Cons key keys)
  let ?w = "snd (ensureConsumerGroup e key g w)"
  have "up ?w \<and> ks ?w = ks w \<and> sent ?w = sent w" using healthy_ensure Cons.prems by simp
  with Cons show ?case by (simp add: Let_def)
qed simp

lemma healthy_round:
  assumes "up w" and ready: "groups_ready cfg (ks w)"
  shows "\<exists>w' new. poll_round e cfg send w = (True, w') \<and> up w' \<and> sent w' = sent w @ new \<and> read_ahead cfg 10 (ks w) (ks w') new"
proof -
  let ?g = "ConsumerGroup (CfgWorker cfg)"
  have grp: "groups (streams (ks w) key) ?g \<noteq> None" if "key \<in> set priorityStreams" for key
    using groups_readyD [OF ready that] by auto
  obtain w1 where c1: "ctx_err e w = (None, w1)" "up w1" using up_ctx [OF assms(1)] by blast
  have k1: "ks w1 = ks w" "sent w1 = sent w" using ctx_ks [OF c1(1)] sent_ctx [OF c1(1)] by simp_all
  show ?thesis
  proof (cases "\<forall>key \<in> set priorityStreams. waiting_msgs cfg (ks w) key = []")
    case True
    have "\<not> redis_ok (read_cmd cfg) (ks w1) r k" for r k using True by (auto simp: read_cmd_def k1 filter_empty_conv)
    then obtain er w2 where r: "env_client e (read_cmd cfg) w1 = (Inl er, w2)" "ks w2 = ks w" "up w2"
      using refuses [OF c1(2), of "read_cmd cfg"] k1 by auto
    obtain w3 where c3: "ctx_err e w2 = (None, w3)" "up w3" using up_ctx [OF r(3)] by blast
    have k3: "ks w3 = ks w" "sent w3 = sent w" using ctx_ks [OF c3(1)] sent_ctx [OF c3(1)] sent_client [OF r(1)] r(2) k1 by simp_all
    have "poll_round e cfg send w =
        (True, if isNoGroup er then fold (\<lambda>k s. snd (ensureConsumerGroup e k ?g s)) priorityStreams w3 else w3)"
      using c1 r(1) c3(1) by (simp add: poll_round_def read_cmd_def Let_def)
    moreover have "read_ahead cfg 10 (ks w) (ks w) []" using ready True by (intro read_ahead_idle) auto
    ultimately show ?thesis using healthy_regroup [OF c3(2), of priorityStreams ?g] grp k3 c3(2) by (auto simp: Let_def)
  next
    case False
    let ?res = "filter (\<lambda>(_, ms). ms \<noteq> []) (map (\<lambda>key. (key, take 10 (waiting_msgs cfg (ks w) key))) priorityStreams)"
    have "?res \<noteq> []" using False by (auto simp: filter_empty_conv)
    then obtain k0 where "redis_ok (read_cmd cfg) (ks w1) (RStreams ?res) k0" using grp by (auto simp: read_cmd_def k1)
    then obtain r w2 where r: "env_client e (read_cmd cfg) w1 = (Inr r, w2)" "redis_ok (read_cmd cfg) (ks w) r (ks w2)" "up w2"
      using answers [OF c1(2), of "read_cmd cfg"] by (auto simp: read_cmd_def k1)
    then obtain ss where ss: "r = RStreams ss" by (auto simp: read_cmd_def)
    obtain w3 where d: "deliver_streams send ss w2 = (True, w3)" "up w3" "ks w3 = ks w2" "sent w3 = sent w2 @ decoded ss"
      using healthy_deliver [OF r(3)] by blast
    have "poll_round e cfg send w = (True, w3)" using c1 r(1) d(1) ss by (simp add: poll_round_def read_cmd_def Let_def)
    moreover have "read_ahead cfg 10 (ks w) (ks w3) (decoded ss)" using read_ahead_reply ready r(2) ss d(3) by simp
    moreover have "sent w2 = sent w" using sent_client [OF r(1)] k1 by simp
    ultimately show ?thesis using d by auto
  qed
qed

lemma healthy_loop:
  assumes "up w" and "groups_ready cfg (ks w)"
  shows "\<exists>w' new. pollLoop n e cfg send w = (True, w') \<and> up w' \<and> sent w' = sent w @ new \<and> read_ahead cfg (10 * n) (ks w) (ks w') new"
  using assms
proof (induction n arbitrary: w)
  case 0
  then show ?case using read_ahead_0 by auto
next
  case (Suc n)
  obtain w1 new1 where r: "poll_round e cfg send w = (True, w1)" "up w1" "sent w1 = sent w @ new1" "read_ahead cfg 10 (ks w) (ks w1) new1"
    using healthy_round [OF Suc.prems] by blast
  then have "groups_ready cfg (ks w1)" by (simp add: read_ahead_def)
  then obtain w2 new2 where "pollLoop n e cfg send w1 = (True, w2)" "up w2" "sent w2 = sent w1 @ new2" "read_ahead cfg (10 * n) (ks w1) (ks w2) new2"
    using Suc.IH [OF r(2)] by blast
  then show ?case using r read_ahead_add [OF r(4)] by auto
qed

end

end
