(* ===== verification/Settled.thy ===== *)
theory Settled
  imports Healthy Command_Inv
begin

text \<open>
  What a worker achieves while Redis answers: an attempt whose lock is free is settled, the message acknowledged and
  the task where the provider's answer sends it; and a task that is enqueued gets there.
\<close>

subsection \<open>Tasks that can be written\<close>

definition marshals :: "EmailTask \<Rightarrow> bool" where
  "marshals t \<longleftrightarrow> times_ok t \<and> (case TemplateData t of None \<Rightarrow> True | Some m \<Rightarrow> template_json m \<noteq> None)"

lemma marshals_iff: "marshals t \<longleftrightarrow> task_json t \<noteq> None"
  by (auto simp: marshals_def task_json_def split: option.splits)

lemma marshalsE: "marshals t \<Longrightarrow> (\<And>p. json_Marshal_task t = Inr p \<Longrightarrow> thesis) \<Longrightarrow> thesis"
  by (auto simp: marshals_iff json_Marshal_task_def)

lemma marshals_upd [simp]:
  "marshals (t\<lparr>LastError := x, Status := y\<rparr>) = marshals t" "marshals (t\<lparr>Attempt := n\<rparr>) = marshals t"
  "marshals (metadata_set k v t) = marshals t" "marshals (set_span sp t) = marshals t"
  by (simp_all add: marshals_def times_ok_def metadata_set_def set_span_def split: option.split)

lemma template_json_empty: "template_json fmempty = Some []"
  using fm_entries_Nil [of "fmempty :: (string, go_any) fmap"] by (simp add: template_json_def)

lemma marshals_norm [simp]: "marshals (norm_task t) = marshals t"
  by (auto simp: marshals_def norm_task_def norm_map_def times_ok_def template_json_empty)

lemma marshals_clean: "task_clean t \<Longrightarrow> marshals t"
  by (rule marshal_clean [of t]) (auto simp: marshals_iff json_Marshal_task_def split: option.splits)

lemma marshals_dlq: "marshals t \<Longrightarrow> time_in_range now \<Longrightarrow>
    \<exists>p. json_Marshal_dlq \<lparr>Task = Some t, DeadAt = now, FailureReason = a, FinalError = b, AttemptHistory = []\<rparr> = Inr p"
  by (auto simp: marshals_iff json_Marshal_dlq_def dlq_json_def history_json_def split: option.splits)

subsection \<open>The operations while Redis answers\<close>

lemma add_entries_fun: "add_entries ms = (\<lambda>st. st\<lparr>entries := entries st @ ms\<rparr>)"
  by (simp add: add_entries_def fun_eq_iff)

context healthy_redis begin

lemma command:
  assumes "up w" and "redis_ok c (ks w) r0 k0" and "\<And>s. c \<noteq> SCRIPT_LOAD s"
  obtains r w' where "env_client e c w = (Inr r, w')" "redis_ok c (ks w) r (ks w')" "up w'"
  using answers [OF assms] by blast

lemma clock_tick:
  assumes "up w"
  obtains now w' where "time_now e w = (now, w')" "up w'" "ks w' = ks w" "time_in_range now"
  using up_now [OF assms] now_ks by (metis surj_pair)

lemma live_ctx:
  assumes "up w"
  obtains w' where "ctx_err e w = (None, w')" "up w'" "ks w' = ks w"
  using up_ctx [OF assms] ctx_ks by metis

lemma healthy_Acknowledge: "up w \<Longrightarrow> \<exists>w'. Acknowledge e cfg t w = (None, w') \<and> up w'"
  by (rule command [of w "XACK (metadata_get t metaStreamKey) (ConsumerGroup (CfgWorker cfg)) (metadata_get t metaStreamID)"])
    (auto simp: Acknowledge_def)

lemma healthy_SetProcessing:
  assumes "up w" and loaded: "scripts_loaded scr (ks w)" and free: "strs (ks w) (idempotencyKey k) = None" and ttl: "ttl_ok cfg"
  shows "\<exists>w'. SetProcessing e cfg scr k i w = ((True, None), w') \<and> up w' \<and> strs (ks w') (idempotencyKey k) \<noteq> None"
proof -
  obtain now w1 where n: "time_now e w = (now, w1)" "up w1" "ks w1 = ks w" by (rule clock_tick [OF assms(1)])
  let ?c = "acquire_cmd scr cfg k i now" and ?kv = "(strs (ks w))(idempotencyKey k \<mapsto>
      (processing_payload i (unix_text now), Some (sint (DLQTTLSeconds (CfgRetry cfg)))))"
  have run: "run_script IdempotencyLua [idempotencyKey k] [i, show_int (sint (DLQTTLSeconds (CfgRetry cfg))), unix_text now] (strs (ks w)) =
      Some (1, ?kv)"
    using free ttl by (simp add: idempotencyLuaScript_def lua_set_ex_def ttl_ok_def)
  have ok: "redis_ok ?c (ks w1) (RNum 1) ((ks w)\<lparr>strs := ?kv\<rparr>)"
    using loaded run n(3) by (auto simp: acquire_cmd_def scripts_loaded_def)
  obtain r w2 where r: "env_client e ?c w1 = (Inr r, w2)" "redis_ok ?c (ks w1) r (ks w2)" "up w2"
    by (rule command [OF n(2) ok]) (auto simp: acquire_cmd_def)
  then have "r = RNum 1" "ks w2 = (ks w)\<lparr>strs := ?kv\<rparr>"
    using loaded run n(3) by (auto simp: acquire_cmd_def scripts_loaded_def)
  then show ?thesis using n(1) r(1,3) by (simp add: SetProcessing_def acquire_cmd_def)
qed

lemma healthy_SetCompleted:
  assumes "up w" and "strs (ks w) (idempotencyKey k) \<noteq> None"
  shows "\<exists>w'. SetCompleted e cfg k w = (None, w') \<and> up w'"
proof -
  obtain now w1 where n: "time_now e w = (now, w1)" "up w1" "ks w1 = ks w" by (rule clock_tick [OF assms(1)])
  let ?c = "SET_XX (idempotencyKey k) (Doc (idem_json (completed_record now))) (DLQTTLSeconds (CfgRetry cfg) * go_second)"
  obtain k' where "redis_ok ?c (ks w1) ROK k'" using assms(2) n(3) by simp
  from command [OF n(2) this] obtain r w2 where "env_client e ?c w1 = (Inr r, w2)" "up w2" by blast
  then show ?thesis using n(1) by (simp add: SetCompleted_def completed_record_def)
qed

lemma healthy_ScheduleRetry:
  assumes "up w" and "marshals t"
  shows "\<exists>w'. ScheduleRetry e t delay w = (None, w') \<and> up w'"
proof -
  obtain p where p: "json_Marshal_task t = Inr p" using assms(2) by (rule marshalsE)
  obtain now w1 where n: "time_now e w = (now, w1)" "up w1" "ks w1 = ks w" by (rule clock_tick [OF assms(1)])
  obtain r w2 where "env_client e (ZADD_NX retryDelayedKey (unix_score (time_add now delay)) p) w1 = (Inr r, w2)" "up w2"
    by (rule command [OF n(2), of "ZADD_NX retryDelayedKey (unix_score (time_add now delay)) p"]) auto
  then show ?thesis using n(1) p by (simp add: ScheduleRetry_def)
qed

lemma healthy_SendToDLQ:
  assumes "up w" and "Task x = Some t" and "json_Marshal_dlq x = Inr p"
  shows "\<exists>w'. SendToDLQ e cfg (Some x) w = (None, w') \<and> up w'"
proof -
  let ?key = "dlqKey (TenantID t) (Type t)" and ?d = "DLQTTLSeconds (CfgRetry cfg) * go_second"
  obtain r1 w1 where 1: "env_client e (RPUSH ?key p) w = (Inr r1, w1)" "up w1"
    by (rule command [OF assms(1), of "RPUSH ?key p"]) auto
  obtain r2 w2 where 2: "env_client e (EXPIRE ?key ?d) w1 = (Inr r2, w2)" "up w2"
    by (rule command [OF 1(2), of "EXPIRE ?key ?d"]) auto
  obtain r3 w3 where 3: "env_client e (LLEN ?key) w2 = (Inr r3, w3)" "up w3"
    by (rule command [OF 2(2), of "LLEN ?key"]) auto
  then show ?thesis using 1 2 assms(2,3) up_metric by (simp add: SendToDLQ_def Let_def split: sum.split)
qed

lemma healthy_Enqueue:
  assumes "up w" and "Validate task = None" and "marshals task"
  shows "\<exists>m w'. Enqueue e sp task w = ((None, set_span sp task), w') \<and> up w' \<and> carries (set_span sp task) m \<and>
    ks w' = upd_stream (QueueName (Priority task)) (add_entries [m]) (ks w)"
proof -
  let ?t = "set_span sp task" and ?key = "QueueName (Priority task)"
  have prio: "Priority ?t = Priority task" by (simp add: set_span_def split: option.split)
  have "marshals ?t" using assms(3) by simp
  then obtain p where p: "json_Marshal_task ?t = Inr p" by (rule marshalsE)
  obtain w1 where c: "ctx_err e w = (None, w1)" "up w1" "ks w1 = ks w" by (rule live_ctx [OF assms(1)])
  have "\<exists>i. i \<notin> MsgID ` set (entries (streams (ks w1) ?key))" by (rule ex_new_if_finite) (simp_all add: infinite_UNIV_listI)
  then obtain i where "i \<notin> MsgID ` set (entries (streams (ks w1) ?key))" ..
  then have ok: "redis_ok (xadd_cmd ?t p) (ks w1) (RText (Raw i))
      (upd_stream ?key (\<lambda>st. st\<lparr>entries := entries st @ [\<lparr>MsgID = i, MsgValues = XAddValuesBuilder ?t p\<rparr>]\<rparr>) (ks w1))"
    by (auto simp: xadd_cmd_def prio)
  obtain r w2 where r: "env_client e (xadd_cmd ?t p) w1 = (Inr r, w2)" "redis_ok (xadd_cmd ?t p) (ks w1) r (ks w2)" "up w2"
    by (rule command [OF c(2) ok]) (auto simp: xadd_cmd_def)
  then obtain j where "ks w2 = upd_stream ?key (add_entries [\<lparr>MsgID = j, MsgValues = XAddValuesBuilder ?t p\<rparr>]) (ks w)"
    by (auto simp: xadd_cmd_def prio c(3) add_entries_fun)
  moreover have "carries ?t \<lparr>MsgID = j, MsgValues = XAddValuesBuilder ?t p\<rparr>" using p by (simp add: carries_def)
  moreover have "Enqueue e sp task w = ((None, ?t), record_metric e (enqueued_metric ?t) w2)"
    using assms(2) c(1) p r(1) by (simp add: Enqueue_def MarshalTaskPayload_def Let_def)
  ultimately show ?thesis using up_metric [OF r(3)] by auto
qed

end

subsection \<open>An attempt\<close>

text \<open>\<open>verdict\<close> is what the provider answers to a task; the queue's side of an attempt depends on nothing else.\<close>

locale healthy_system = healthy_redis e ks up + redis_system e ks cfg scr snd' mail accepted
  for e :: "'s env" and ks :: "'s \<Rightarrow> keyspace" and up :: "'s \<Rightarrow> bool" and cfg :: Config and scr :: ScriptRegistry
    and snd' :: "'s EmailSender" and mail :: "EmailTask \<Rightarrow> 'm" and accepted :: "'s \<Rightarrow> 'm list" +
  fixes verdict :: "EmailTask \<Rightarrow> go_error option"
  assumes answered: "up w \<Longrightarrow> \<exists>w'. port_Send snd' t w = (Returned (verdict t), w') \<and> up w'"

text \<open>Where the task of a settled attempt is.\<close>

definition settled ::
  "('s \<Rightarrow> keyspace) \<Rightarrow> (EmailTask \<Rightarrow> 'm) \<Rightarrow> ('s \<Rightarrow> 'm list) \<Rightarrow> go_error option \<Rightarrow> EmailTask \<Rightarrow> outcome \<Rightarrow> 's \<Rightarrow> 's \<Rightarrow> bool" where
  "settled ks mail accepted v task oc w w' =
     (case v of
        None \<Rightarrow> oc = Sent \<and> accepted w' = accepted w @ [mail task] \<and> completed_in (attemptKey (ID task) (Attempt task)) (ks w')
      | Some er \<Rightarrow>
          let failed = task\<lparr>LastError := Error er, Status := StatusFailed\<rparr> in
          if is_nonretryable er \<or> \<not> IsRetryable task
          then oc = Dead \<and> accepted w' = accepted w \<and> (\<exists>x. dlq_stored x (ks w') \<and> Task x = Some failed \<and> FinalError x = Error er)
          else oc = Retried \<and> accepted w' = accepted w \<and> retry_stored (failed\<lparr>Attempt := Attempt task + 1\<rparr>) (ks w'))"

lemma completed_readable: "\<exists>rec. json_Unmarshal_idem (Doc (idem_json (completed_record now))) = Inr rec \<and> RecStatus rec = ''completed''"
  by (simp add: completed_record_def idem_json_def omit_string_def dec_idem_field_def Let_def lower_char_def byte_in_def zero_idem_def
      utf8_ok_ascii [unfolded utf8_ok_def])

lemma on_world_eq: "f (world st) = (r, w) \<Longrightarrow> on_world f st = (r, st\<lparr>world := w\<rparr>)"
  by (simp add: on_world_def)

context healthy_system begin

lemma healthy_gate:
  assumes "up (world st)" and "scripts_loaded scr (ks (world st))" and "strs (ks (world st)) (idempotencyKey k) = None"
  shows "\<exists>w. idempotency_gate redis_ports cfg task k st = (None, st\<lparr>world := w\<rparr>) \<and> up w \<and> strs (ks w) (idempotencyKey k) \<noteq> None"
proof -
  obtain w where "SetProcessing e cfg scr k (ConsumerName (CfgWorker cfg)) (world st) = ((True, None), w)" "up w"
    "strs (ks w) (idempotencyKey k) \<noteq> None"
    using healthy_SetProcessing [OF assms ttl] by blast
  then show ?thesis by (intro exI [of _ w]) (simp add: idempotency_gate_def on_world_def port_defs)
qed

lemma healthy_delivered:
  assumes "up (world st)" and lock: "strs (ks (world st)) (idempotencyKey k) \<noteq> None"
  shows "\<exists>w. delivered redis_ports task k dur st = st\<lparr>totalProcessed := totalProcessed st + 1, world := w\<rparr> \<and> up w \<and>
    \<not> pending cfg task (ks w) \<and> completed_in k (ks w)"
proof -
  obtain w1 where a: "Acknowledge e cfg task (world st) = (None, w1)" "up w1" using healthy_Acknowledge [OF assms(1)] by blast
  then have k1: "ks w1 = upd_stream (metadata_get task metaStreamKey)
      (upd_pel (ConsumerGroup (CfgWorker cfg)) (\<lambda>p. p(metadata_get task metaStreamID := None))) (ks (world st))"
    using Acknowledge_spec by blast
  then have lock1: "strs (ks w1) (idempotencyKey k) \<noteq> None" using lock by (simp add: upd_stream_def)
  obtain w2 where c: "SetCompleted e cfg k w1 = (None, w2)" "up w2" using healthy_SetCompleted [OF a(2) lock1] by blast
  have "completed_in k (ks w2)"
    using SetCompleted_spec [OF c(1)] lock1 completed_readable by (auto simp: completed_in_def)
  moreover have "\<not> pending cfg task (ks w2)"
    using acked_not_pending [of cfg task "ks (world st)"] SetCompleted_spec [OF c(1)] pending_strs by (simp add: k1) blast
  ultimately show ?thesis using a c up_metric
    by (intro exI [of _ "record_metric e (processed_metric task ''success'' dur) w2"])
      (simp add: delivered_def on_world_def port_defs metric_st_def)
qed

lemma healthy_ack:
  assumes "up w"
  shows "\<exists>w1. Acknowledge e cfg t w = (None, w1) \<and> up w1 \<and> \<not> pending cfg t (ks w1) \<and>
    (\<forall>x. dlq_stored x (ks w) \<longrightarrow> dlq_stored x (ks w1)) \<and> (\<forall>u. retry_stored u (ks w) \<longrightarrow> retry_stored u (ks w1))"
proof -
  obtain w1 where a: "Acknowledge e cfg t w = (None, w1)" "up w1" using healthy_Acknowledge [OF assms] by blast
  then have "ks w1 = upd_stream (metadata_get t metaStreamKey)
      (upd_pel (ConsumerGroup (CfgWorker cfg)) (\<lambda>p. p(metadata_get t metaStreamID := None))) (ks w)"
    using Acknowledge_spec by blast
  then show ?thesis using a acked_not_pending [of cfg t "ks w"]
    by (simp add: dlq_stored_def retry_stored_def) (simp add: upd_stream_def)
qed

lemma healthy_dead:
  assumes "up (world st)" and "marshals t"
  shows "\<exists>w. dead_letter redis_ports t k er nr dur st = (Dead, st\<lparr>world := w\<rparr>) \<and> up w \<and> \<not> pending cfg t (ks w) \<and>
    (\<exists>x. dlq_stored x (ks w) \<and> Task x = Some t \<and> FinalError x = Error er)"
proof -
  obtain now w1 where n: "time_now e (world st) = (now, w1)" "up w1" "time_in_range now" using clock_tick [OF assms(1)] by blast
  let ?x = "\<lparr>Task = Some t, DeadAt = now, FailureReason = (if nr then ''non-retryable error'' else ''max attempts exceeded''),
    FinalError = Error er, AttemptHistory = []\<rparr>"
  obtain p where p: "json_Marshal_dlq ?x = Inr p" using marshals_dlq [OF assms(2) n(3)] by blast
  obtain w2 where d: "SendToDLQ e cfg (Some ?x) w1 = (None, w2)" "up w2" using healthy_SendToDLQ [OF n(2) _ p] by auto
  have x2: "dlq_stored ?x (ks w2)" by (rule SendToDLQ_stored [OF d(1) ttl])
  obtain w3 where a: "Acknowledge e cfg t w2 = (None, w3)" "up w3" "\<not> pending cfg t (ks w3)" and x3: "dlq_stored ?x (ks w3)"
    using healthy_ack [OF d(2), of t] x2 by blast
  have "dead_letter redis_ports t k er nr dur st = (Dead, st\<lparr>world := record_metric e (processed_metric t ''dead'' dur) w3\<rparr>)"
    using n(1) d(1) a(1) by (simp add: dead_letter_def on_world_def port_defs metric_st_def)
  then show ?thesis using up_metric [OF a(2)] a(3) x3
    by (intro exI [of _ "record_metric e (processed_metric t ''dead'' dur) w3"] conjI exI [of _ ?x]) simp_all
qed

lemma healthy_retry:
  assumes "up (world st)" and "marshals t"
  shows "\<exists>w. schedule_retry redis_ports t k dur st =
      ((Retried, t\<lparr>Attempt := Attempt t + 1\<rparr>), st\<lparr>totalRetried := totalRetried st + 1, world := w\<rparr>) \<and>
    up w \<and> \<not> pending cfg t (ks w) \<and> retry_stored (t\<lparr>Attempt := Attempt t + 1\<rparr>) (ks w)"
proof -
  let ?t = "t\<lparr>Attempt := Attempt t + 1\<rparr>"
  obtain x w1 where r: "rand_float e (world st) = (x, w1)" by fastforce
  then have w1: "up w1" using up_rand [OF assms(1)] by blast
  have "marshals ?t" using assms(2) by simp
  then obtain w2 where s: "ScheduleRetry e ?t (NextRetryDelay ?t x) w1 = (None, w2)" "up w2"
    using healthy_ScheduleRetry [OF w1] by blast
  obtain w3 where a: "Acknowledge e cfg ?t w2 = (None, w3)" "up w3" "\<not> pending cfg ?t (ks w3)" and x3: "retry_stored ?t (ks w3)"
    using healthy_ack [OF s(2), of ?t] ScheduleRetry_stored [OF s(1)] by blast
  have "schedule_retry redis_ports t k dur st = ((Retried, ?t),
      st\<lparr>totalRetried := totalRetried st + 1, world := record_metric e (processed_metric ?t ''failed'' dur) w3\<rparr>)"
    using r s(1) a(1) by (simp add: schedule_retry_def on_world_def port_defs metric_st_def Let_def)
  then show ?thesis using up_metric [OF a(2)] a(3) x3
    by (intro exI [of _ "record_metric e (processed_metric ?t ''failed'' dur) w3"]) (simp add: pending_def)
qed

text \<open>The attempt: gate, provider, and what follows from its answer.\<close>

lemma healthy_body:
  assumes "up (world st)" and "scripts_loaded scr (ks (world st))"
    and "strs (ks (world st)) (idempotencyKey (attemptKey (ID task) (Attempt task))) = None" and "marshals task"
    and "process_body redis_ports cfg task st = ((oc, task'), st')"
  shows "up (world st') \<and> \<not> pending cfg task (ks (world st')) \<and>
    (case verdict task of
       None \<Rightarrow> oc = Sent \<and> completed_in (attemptKey (ID task) (Attempt task)) (ks (world st'))
     | Some er \<Rightarrow>
         let failed = task\<lparr>LastError := Error er, Status := StatusFailed\<rparr> in
         if is_nonretryable er \<or> \<not> IsRetryable task
         then oc = Dead \<and> (\<exists>x. dlq_stored x (ks (world st')) \<and> Task x = Some failed \<and> FinalError x = Error er)
         else oc = Retried \<and> retry_stored (failed\<lparr>Attempt := Attempt task + 1\<rparr>) (ks (world st')))"
proof -
  let ?k = "attemptKey (ID task) (Attempt task)"
  obtain w1 where g: "idempotency_gate redis_ports cfg task ?k st = (None, st\<lparr>world := w1\<rparr>)" "up w1"
    and l1: "strs (ks w1) (idempotencyKey ?k) \<noteq> None" using healthy_gate [OF assms(1-3)] by blast
  obtain b w2 where b: "time_now e w1 = (b, w2)" "up w2" "ks w2 = ks w1" by (rule clock_tick [OF g(2)])
  obtain w3 where s: "port_Send snd' task w2 = (Returned (verdict task), w3)" "up w3" using answered [OF b(2)] by blast
  obtain c w4 where c: "time_now e w3 = (c, w4)" "up w4" "ks w4 = ks w3" by (rule clock_tick [OF s(2)])
  have l4: "strs (ks w4) (idempotencyKey ?k) \<noteq> None" using l1 b(3) c(3) send_law [OF s(1)] by simp
  define dur where "dur = duration_seconds (word_of_int (c - b))"
  have body: "process_body redis_ports cfg task st =
      (case verdict task of
         None \<Rightarrow> ((Sent, task), delivered redis_ports task ?k dur (st\<lparr>world := w4\<rparr>))
       | Some err \<Rightarrow> failed_delivery redis_ports task ?k err dur (st\<lparr>world := w4\<rparr>))"
    using g(1) b(1) s(1) c(1) by (simp add: process_body_def on_world_def redis_deps_sels dur_def Let_def split: option.split)
  show ?thesis
  proof (cases "verdict task")
    case None
    then show ?thesis using healthy_delivered [of "st\<lparr>world := w4\<rparr>" ?k task dur] c(2) l4 body assms(5) by auto
  next
    case (Some er)
    let ?t = "task\<lparr>LastError := Error er, Status := StatusFailed\<rparr>" and ?st = "st\<lparr>world := w4, totalFailed := totalFailed st + 1\<rparr>"
    have up: "up (world ?st)" and m: "marshals ?t" using c(2) assms(4) by simp_all
    have fd: "process_body redis_ports cfg task st = failed_delivery redis_ports task ?k er dur (st\<lparr>world := w4\<rparr>)" using body Some by simp
    show ?thesis
    proof (cases "is_nonretryable er \<or> \<not> IsRetryable task")
      case True
      then show ?thesis using healthy_dead [OF up m, of ?k er "is_nonretryable er" dur] fd assms(5) Some
        by (auto simp: failed_delivery_def Let_def pending_def)
    next
      case False
      then show ?thesis using healthy_retry [OF up m, of ?k dur] fd assms(5) Some
        by (auto simp: failed_delivery_def Let_def pending_def)
    qed
  qed
qed

lemma healthy_process:
  assumes "up (world st)" and "scripts_loaded scr (ks (world st))"
    and "strs (ks (world st)) (idempotencyKey (attemptKey (ID task) (Attempt task))) = None" and "marshals task"
    and run: "processTask redis_ports cfg task st = ((oc, task'), st')"
  shows "up (world st') \<and> \<not> pending cfg task (ks (world st')) \<and> settled ks mail accepted (verdict task) task oc (world st) (world st')"
proof -
  obtain oc1 t1 st1 where b: "process_body redis_ports cfg task (st\<lparr>activeWorkers := activeWorkers st + 1\<rparr>) = ((oc1, t1), st1)"
    by (metis prod.exhaust)
  note B = healthy_body [OF _ _ _ assms(4) b, simplified, OF assms(1-3)]
  have np: "oc1 \<noteq> Panic msg" for msg using B by (auto simp: Let_def split: option.splits if_splits)
  then have "recover_panic redis_ports (oc1, t1) st1 = ((oc1, t1), st1)" by (auto simp: recover_panic_def split: outcome.split)
  then have st': "oc = oc1" "\<exists>m. world st' = record_metric e m (world st1)"
    using run b by (auto simp: processTask_def release_slot_def metric_st_def port_defs Let_def)
  moreover have "accepted (world st') = (if oc = Sent then accepted (world st) @ [mail task] else accepted (world st))"
    by (rule worker_sends_once [OF run])
  ultimately show ?thesis using B up_metric by (auto simp: settled_def Let_def split: option.splits if_splits)
qed

end

end
