(* ===== verification/Healthy_Path.thy ===== *)
theory Healthy_Path
  imports Settled
begin

text \<open>
  The way of a task through the whole queue while Redis answers: enqueued, handed to a worker after enough rounds of the poll
  loop, settled by the worker; and if that was a retry, back in its stream once it is due.
\<close>

locale healthy_pipeline = healthy_channel e ks up send sent + healthy_system e ks up cfg scr snd' mail accepted verdict
  for e :: "'s env" and ks :: "'s \<Rightarrow> keyspace" and up :: "'s \<Rightarrow> bool"
    and send :: "EmailTask \<Rightarrow> 's \<Rightarrow> bool \<times> 's" and sent :: "'s \<Rightarrow> EmailTask list"
    and cfg :: Config and scr :: ScriptRegistry and snd' :: "'s EmailSender" and mail :: "EmailTask \<Rightarrow> 'm"
    and accepted :: "'s \<Rightarrow> 'm list" and verdict :: "EmailTask \<Rightarrow> go_error option"

subsection \<open>From the producer to the poll loop\<close>

lemma ready_append:
  fixes m :: stream_msg
  assumes "groups_ready cfg k" and "key \<in> set priorityStreams"
  defines "k' \<equiv> upd_stream key (add_entries [m]) k"
  shows "groups_ready cfg k'" and "waiting_msgs cfg k' key = waiting_msgs cfg k key @ [m]"
proof -
  show "groups_ready cfg k'"
    using assms(1) by (auto simp: groups_ready_def k'_def upd_stream_def add_entries_def split: option.splits)
  obtain cg where "groups (streams k key) (ConsumerGroup (CfgWorker cfg)) = Some cg" "last_read cg \<le> length (entries (streams k key))"
    by (rule groups_readyD [OF assms(1,2)])
  then show "waiting_msgs cfg k' key = waiting_msgs cfg k key @ [m]" by (simp add: k'_def upd_stream_def add_entries_def unread_def)
qed

lemma valid_stream: "Validate t = None \<Longrightarrow> QueueName (Priority t) \<in> set priorityStreams"
  by (auto simp: Validate_None_iff valid_task_def Priority_IsValid_iff priorityStreams_def)

lemma off_streams_upd [simp]: "off_streams (upd_stream key f k) = off_streams k"
  by (simp add: off_streams_def upd_stream_def)

lemma off_streamsD: "off_streams k' = off_streams k \<Longrightarrow> strs k' = strs k" "off_streams k' = off_streams k \<Longrightarrow> scripts k' = scripts k"
  by (simp_all add: off_streams_def)

lemma parsed_mem: "m \<in> set ms \<Longrightarrow> taskFromMessage key m = Inr t \<Longrightarrow> t \<in> set (parsed key ms)"
  by (force simp: parsed_def)

context healthy_channel begin

lemma polled_task:
  assumes "up w" and "groups_ready cfg (ks w)" and "key \<in> set priorityStreams"
    and "m \<in> set (take (10 * n) (waiting_msgs cfg (ks w) key))" and "taskFromMessage key m = Inr t"
  shows "\<exists>w' new. pollLoop n e cfg send w = (True, w') \<and> up w' \<and> sent w' = sent w @ new \<and> t \<in> set new \<and>
    pending cfg t (ks w') \<and> off_streams (ks w') = off_streams (ks w)"
proof -
  obtain w' new where l: "pollLoop n e cfg send w = (True, w')" "up w'" "sent w' = sent w @ new" "read_ahead cfg (10 * n) (ks w) (ks w') new"
    using healthy_loop [OF assms(1,2)] by blast
  have "t \<in> set (filter (of_stream key) new)"
    using l(4) assms(3) parsed_mem [OF assms(4,5)] by (simp add: read_ahead_def)
  then have "t \<in> set new" by simp
  moreover obtain new' where "sent w' = sent w @ new'" "\<forall>t \<in> set new'. pending cfg t (ks w')" using pollLoop_spec [OF l(1)] by blast
  ultimately show ?thesis using l by (auto simp: read_ahead_def)
qed

end

lemma stamped_sels:
  "ID (metadata_set k v t) = ID t" "Attempt (metadata_set k v t) = Attempt t" "ID (norm_task t) = ID t" "Attempt (norm_task t) = Attempt t"
  "ID (set_span sp t) = ID t" "Attempt (set_span sp t) = Attempt t"
  by (simp_all add: metadata_set_def norm_task_def set_span_def split: option.split)

context healthy_pipeline begin

text \<open>A message that waits is handed out and settled.\<close>

lemma waiting_task:
  assumes "up w" and "groups_ready cfg (ks w)" and "key \<in> set priorityStreams"
    and "m \<in> set (take (10 * n) (waiting_msgs cfg (ks w) key))" and "taskFromMessage key m = Inr t" and "marshals t"
    and "scripts_loaded scr (ks w)" and "strs (ks w) (idempotencyKey (attemptKey (ID t) (Attempt t))) = None"
    and loop: "pollLoop n e cfg send w = (go, w')"
  shows "go \<and> (\<exists>new. sent w' = sent w @ new \<and> t \<in> set new) \<and> pending cfg t (ks w') \<and>
    (\<forall>st oc u st'. world st = w' \<longrightarrow> processTask redis_ports cfg t st = ((oc, u), st') \<longrightarrow>
       \<not> pending cfg t (ks (world st')) \<and> settled ks mail accepted (verdict t) t oc w' (world st'))"
proof -
  obtain w1 new where p: "pollLoop n e cfg send w = (True, w1)" "up w1" "sent w1 = sent w @ new" "t \<in> set new"
    "pending cfg t (ks w1)" "off_streams (ks w1) = off_streams (ks w)" using polled_task [OF assms(1-5)] by blast
  have w1: "go" "w' = w1" using loop p(1) by simp_all
  have "scripts_loaded scr (ks w1)" using assms(7) off_streamsD [OF p(6)] by (simp add: scripts_loaded_def)
  moreover have "strs (ks w1) (idempotencyKey (attemptKey (ID t) (Attempt t))) = None" using assms(8) off_streamsD [OF p(6)] by simp
  ultimately have "\<not> pending cfg t (ks (world st')) \<and> settled ks mail accepted (verdict t) t oc w1 (world st')"
    if "world st = w1" "processTask redis_ports cfg t st = ((oc, u), st')" for st oc u st'
    using healthy_process [OF _ _ _ assms(6) that(2)] that(1) p(2) by simp
  then show ?thesis using p w1 by blast
qed

lemma enqueued_task:
  assumes "up w" and ready: "groups_ready cfg (ks w)" and scr: "scripts_loaded scr (ks w)"
    and free: "strs (ks w) (idempotencyKey (attemptKey (ID task) (Attempt task))) = None"
    and valid: "Validate task = None" and clean: "task_clean (set_span sp task)"
    and enq: "Enqueue e sp task w = ((err, task'), w1)"
    and backlog: "length (waiting_msgs cfg (ks w) (QueueName (Priority task))) < 10 * n"
    and loop: "pollLoop n e cfg send w1 = (go, w2)"
  defines "t \<equiv> \<lambda>i. metadata_set metaStreamKey (QueueName (Priority task)) (metadata_set metaStreamID i (norm_task task'))"
  shows "err = None \<and> go \<and> (\<exists>i new. sent w2 = sent w1 @ new \<and> t i \<in> set new \<and> pending cfg (t i) (ks w2) \<and>
    (\<forall>st oc u st'. world st = w2 \<longrightarrow> processTask redis_ports cfg (t i) st = ((oc, u), st') \<longrightarrow>
       \<not> pending cfg (t i) (ks (world st')) \<and> settled ks mail accepted (verdict (t i)) (t i) oc w2 (world st')))"
proof -
  let ?key = "QueueName (Priority task)"
  have m: "marshals task" using marshals_clean [OF clean] by simp
  obtain m w1' where "Enqueue e sp task w = ((None, set_span sp task), w1')" "up w1'" "carries (set_span sp task) m"
    "ks w1' = upd_stream ?key (add_entries [m]) (ks w)"
    using healthy_Enqueue [OF assms(1) valid m] by blast
  then have w1: "err = None" "task' = set_span sp task" "up w1" "carries task' m" "ks w1 = upd_stream ?key (add_entries [m]) (ks w)"
    using enq by auto
  note key = valid_stream [OF valid]
  have msg: "taskFromMessage ?key m = Inr (t (MsgID m))"
    using taskFromMessage_carried [OF clean] w1(2,4) by (simp add: t_def)
  have "m \<in> set (take (10 * n) (waiting_msgs cfg (ks w1) ?key))"
    using ready_append(2) [OF ready key] backlog by (simp add: w1(5))
  note W = waiting_task [OF w1(3) _ key this msg _ _ _ loop]
  have "go \<and> (\<exists>new. sent w2 = sent w1 @ new \<and> t (MsgID m) \<in> set new) \<and> pending cfg (t (MsgID m)) (ks w2) \<and>
    (\<forall>st oc u st'. world st = w2 \<longrightarrow> processTask redis_ports cfg (t (MsgID m)) st = ((oc, u), st') \<longrightarrow>
       \<not> pending cfg (t (MsgID m)) (ks (world st')) \<and>
       settled ks mail accepted (verdict (t (MsgID m))) (t (MsgID m)) oc w2 (world st'))"
  proof (rule W)
    show "groups_ready cfg (ks w1)" using ready_append(1) [OF ready key] by (simp add: w1(5))
    show "marshals (t (MsgID m))" using m by (simp add: t_def w1(2))
    show "scripts_loaded scr (ks w1)" using scr by (simp add: scripts_loaded_def w1(5) upd_stream_def)
    show "strs (ks w1) (idempotencyKey (attemptKey (ID (t (MsgID m))) (Attempt (t (MsgID m))))) = None"
      using free by (simp add: t_def w1(2,5) stamped_sels upd_stream_def)
  qed
  then show ?thesis using w1(1) by blast
qed

end

subsection \<open>Back from the retry set\<close>

fun execs :: "rcmd list \<Rightarrow> keyspace \<Rightarrow> keyspace \<Rightarrow> bool" where
  "execs [] k k' \<longleftrightarrow> k' = k"
| "execs (c # cs) k k' \<longleftrightarrow> (\<exists>r k1. redis_ok c k r k1 \<and> execs cs k1 k')"

lemma execs_append: "execs (xs @ ys) k k' \<longleftrightarrow> (\<exists>k1. execs xs k k1 \<and> execs ys k1 k')"
  by (induction xs arbitrary: k) auto

text \<open>The commands Redis carries out in any state.\<close>

fun always_ok :: "rcmd \<Rightarrow> bool" where
  "always_ok (XADD key vals) \<longleftrightarrow> True"
| "always_ok (RPUSH key v) \<longleftrightarrow> True"
| "always_ok (EXPIRE key d) \<longleftrightarrow> True"
| "always_ok (ZREM key ms) \<longleftrightarrow> ms \<noteq> []"
| "always_ok _ \<longleftrightarrow> False"

lemma fresh_id: "\<exists>i :: string. i \<notin> MsgID ` set ms"
  by (rule ex_new_if_finite) (simp_all add: infinite_UNIV_listI)

lemma always_okD: "always_ok c \<Longrightarrow> (\<exists>r k'. redis_ok c k r k') \<and> (\<forall>s. c \<noteq> SCRIPT_LOAD s)"
  by (cases c) (simp_all add: fresh_id)

context healthy_redis begin

lemma healthy_pipe:
  "up w \<Longrightarrow> \<forall>c \<in> set cs. always_ok c \<Longrightarrow> \<exists>rs w'. pipe_exec e cs w = (map Inr rs, w') \<and> up w' \<and> execs cs (ks w) (ks w')"
proof (induction cs arbitrary: w)
  case (Cons c cs)
  obtain r0 k0 where "redis_ok c (ks w) r0 k0" "\<And>s. c \<noteq> SCRIPT_LOAD s" using always_okD Cons.prems(2) by (metis list.set_intros(1))
  then obtain r w1 where c: "env_client e c w = (Inr r, w1)" "redis_ok c (ks w) r (ks w1)" "up w1" using answers [OF Cons.prems(1)] by blast
  obtain rs w2 where cs: "pipe_exec e cs w1 = (map Inr rs, w2)" "up w2" "execs cs (ks w1) (ks w2)" using Cons.IH [OF c(3)] Cons.prems(2) by auto
  show ?case using c cs by (intro exI [of _ "r # rs"] exI [of _ w2]) auto
qed simp

end

text \<open>Streams only get longer, \<open>key\<close> by the messages of \<open>M\<close> at least; locks and scripts stay.\<close>

definition gains :: "keyspace \<Rightarrow> keyspace \<Rightarrow> string \<Rightarrow> stream_msg set \<Rightarrow> bool" where
  "gains k k' key M \<longleftrightarrow> strs k' = strs k \<and> scripts k' = scripts k \<and>
     (\<forall>x. \<exists>ms. streams k' x = add_entries ms (streams k x) \<and> (x = key \<longrightarrow> M \<subseteq> set ms))"

lemma gains_same: "streams k' = streams k \<Longrightarrow> strs k' = strs k \<Longrightarrow> scripts k' = scripts k \<Longrightarrow> gains k k' key {}"
  by (auto simp: gains_def intro: exI [of _ "[]"])

lemma gains_upd: "gains k (upd_stream key (add_entries ms) k) key' (if key' = key then set ms else {})"
  by (auto simp: gains_def upd_stream_def intro: exI [of _ "[]"])

lemma gains_trans:
  assumes "gains k k1 key M" and "gains k1 k2 key N"
  shows "gains k k2 key (M \<union> N)"
proof -
  have "\<exists>ms. streams k2 x = add_entries ms (streams k x) \<and> (x = key \<longrightarrow> M \<union> N \<subseteq> set ms)" for x
  proof -
    obtain ms ns where "streams k1 x = add_entries ms (streams k x)" "x = key \<longrightarrow> M \<subseteq> set ms"
      "streams k2 x = add_entries ns (streams k1 x)" "x = key \<longrightarrow> N \<subseteq> set ns"
      using assms unfolding gains_def by metis
    then show ?thesis by (intro exI [of _ "ms @ ns"]) (auto simp: add_entries_def)
  qed
  then show ?thesis using assms by (simp add: gains_def)
qed

lemma gains_ready: "gains k k' key M \<Longrightarrow> groups_ready cfg k \<Longrightarrow> groups_ready cfg k'"
proof -
  assume g: "gains k k' key M" and ready: "groups_ready cfg k"
  have "groups (streams k' x) = groups (streams k x) \<and> length (entries (streams k x)) \<le> length (entries (streams k' x))" for x
  proof -
    obtain ms where "streams k' x = add_entries ms (streams k x)" using g unfolding gains_def by metis
    then show ?thesis by (simp add: add_entries_def)
  qed
  then show ?thesis using ready unfolding groups_ready_def by (auto split: option.splits intro: order_trans)
qed

lemma gains_waiting:
  assumes "gains k k' key M" and "groups_ready cfg k" and "key \<in> set priorityStreams"
  shows "M \<subseteq> set (waiting_msgs cfg k' key)"
proof -
  obtain ms where "streams k' key = add_entries ms (streams k key)" "M \<subseteq> set ms" using assms(1) unfolding gains_def by metis
  moreover obtain cg where "groups (streams k key) (ConsumerGroup (CfgWorker cfg)) = Some cg" "last_read cg \<le> length (entries (streams k key))"
    by (rule groups_readyD [OF assms(2,3)])
  ultimately show ?thesis by (auto simp: add_entries_def unread_def)
qed

lemma execs_gains: "execs cs k k' \<Longrightarrow> \<forall>c \<in> set cs. always_ok c \<Longrightarrow> gains k k' key {}"
proof (induction cs arbitrary: k)
  case (Cons c cs)
  then obtain r k1 where c: "redis_ok c k r k1" "execs cs k1 k'" by auto
  have "gains k k1 key {}"
  proof (cases c)
    case (XADD key' vals)
    then obtain i where "k1 = upd_stream key' (add_entries [\<lparr>MsgID = i, MsgValues = vals\<rparr>]) k" using c(1) by (auto simp: add_entries_fun)
    then show ?thesis using gains_upd [of k key' "[\<lparr>MsgID = i, MsgValues = vals\<rparr>]" key] by (auto simp: gains_def)
  qed (use c(1) Cons.prems(2) in \<open>auto simp: upd_zset_def upd_list_def intro!: gains_same split: if_splits\<close>)
  moreover have "gains k1 k' key {}" using Cons.IH [OF c(2)] Cons.prems(2) by simp
  ultimately show ?case using gains_trans by fastforce
qed (simp add: gains_same)

lemma xadd_gains:
  assumes "execs cs k k'" and "\<forall>c \<in> set cs. always_ok c" and "xadd_cmd t p \<in> set cs" and "json_Marshal_task t = Inr p"
  shows "\<exists>m. carries t m \<and> gains k k' (QueueName (Priority t)) {m}"
proof -
  obtain xs ys where cs: "cs = xs @ xadd_cmd t p # ys" using assms(3) split_list by fastforce
  then obtain k1 r k2 where x: "execs xs k k1" "redis_ok (xadd_cmd t p) k1 r k2" "execs ys k2 k'"
    using assms(1) by (auto simp: execs_append)
  obtain i where k2: "k2 = upd_stream (QueueName (Priority t)) (add_entries [\<lparr>MsgID = i, MsgValues = XAddValuesBuilder t p\<rparr>]) k1"
    using x(2) by (auto simp: xadd_cmd_def add_entries_fun)
  let ?m = "\<lparr>MsgID = i, MsgValues = XAddValuesBuilder t p\<rparr>" and ?key = "QueueName (Priority t)"
  have "gains k k1 ?key {}" "gains k2 k' ?key {}" using execs_gains x(1,3) assms(2) by (auto simp: cs)
  moreover have "gains k1 k2 ?key {?m}" using gains_upd [of k1 ?key "[?m]" ?key] by (simp add: k2)
  ultimately have "gains k k' ?key ({} \<union> ({?m} \<union> {}))" by (blast intro: gains_trans)
  then show ?thesis using assms(4) by (intro exI [of _ ?m]) (simp add: carries_def)
qed

lemma execs_removed:
  "execs (cs @ [ZREM key ms]) k k' \<Longrightarrow> m \<in> set ms \<Longrightarrow> m \<notin> fst ` set (zsets k' key)"
  by (auto simp: execs_append upd_zset_def zrem_def)

lemma due_batch:
  assumes "zrange_ok z hi 100 ms" and "(p, sc) \<in> set z" and "score_le sc hi" and "length (filter (\<lambda>(_, sc). score_le sc hi) z) \<le> 100"
  shows "p \<in> set ms"
proof -
  obtain z' where z': "mset z' = mset (filter (\<lambda>(_, sc). score_le sc hi) z)" "ms = take 100 (map fst z')"
    using assms(1) by (auto simp: zrange_ok_def)
  then have "length z' \<le> 100" using assms(4) by (metis size_mset)
  then have "ms = map fst z'" using z'(2) by simp
  moreover have "set z' = set (filter (\<lambda>(_, sc). score_le sc hi) z)" using z'(1) by (metis set_mset_mset)
  then have "(p, sc) \<in> set z'" using assms(2,3) by simp
  ultimately show ?thesis by force
qed

lemma valid_mem: "p \<in> set ms \<Longrightarrow> json_Unmarshal_task p = Inr t \<Longrightarrow> (p, t) \<in> set (valid_members ms)"
  by (force simp: valid_members_def)

lemma xadd_mem: "t \<in> set ts \<Longrightarrow> json_Marshal_task t = Inr p \<Longrightarrow> (t, p) \<in> set (xadd_tasks ts)"
  by (force simp: xadd_tasks_def MarshalTaskPayload_def)

lemma flushed_all: "length xs \<le> length rs \<Longrightarrow> flushed_tasks xs (map Inr rs) = map fst xs"
proof (induction xs arbitrary: rs)
  case (Cons x xs)
  then obtain r rs' where "rs = r # rs'" by (cases rs) auto
  with Cons show ?case by (cases x; cases xs) (auto simp: flushed_tasks_def)
qed (simp add: flushed_tasks_def)

context healthy_redis begin

lemma healthy_quarantine:
  assumes "up w"
  shows "up (quarantineCorruptMembers e cfg' cs w) \<and> gains (ks w) (ks (quarantineCorruptMembers e cfg' cs w)) key {}"
proof -
  obtain now w1 where n: "time_now e w = (now, w1)" "up w1" "ks w1 = ks w" by (rule clock_tick [OF assms])
  let ?rm = "poison_entries now cs"
  let ?cmds = "map (\<lambda>(m, entry). RPUSH retryPoisonKey entry) ?rm @ [ZREM retryDelayedKey (map fst ?rm)] @
    (if 0 <s DLQTTLSeconds (CfgRetry cfg') then [EXPIRE retryPoisonKey (DLQTTLSeconds (CfgRetry cfg') * go_second)] else [])"
  show ?thesis
  proof (cases "?rm = []")
    case True
    then show ?thesis using n by (simp add: quarantineCorruptMembers_def gains_same)
  next
    case False
    then have ok: "\<forall>c \<in> set ?cmds. always_ok c" by auto
    obtain rs w2 where p: "pipe_exec e ?cmds w1 = (map Inr rs, w2)" "up w2" "execs ?cmds (ks w1) (ks w2)"
      using healthy_pipe [OF n(2) ok] by blast
    then have "quarantineCorruptMembers e cfg' cs w = w2" using n(1) False by (simp add: quarantineCorruptMembers_def Let_def)
    then show ?thesis using p(2) execs_gains [OF p(3) ok] n(3) by simp
  qed
qed

lemma healthy_flush:
  assumes "up w" and entry: "(p, sc) \<in> set (retry_set (ks w))" and due: "score_le sc (score_limit (show_int (time_unix (fst (time_now e w)))))"
    and few: "length (filter (\<lambda>(_, sc). score_le sc (score_limit (show_int (time_unix (fst (time_now e w)))))) (retry_set (ks w))) \<le> 100"
    and p: "json_Unmarshal_task p = Inr t" "marshals t"
  shows "\<exists>w' ts m. FlushReady e cfg' w = (Inr ts, w') \<and> up w' \<and> t \<in> set ts \<and> carries t m \<and>
    gains (ks w) (ks w') (QueueName (Priority t)) {m} \<and> p \<notin> fst ` set (retry_set (ks w'))"
proof -
  let ?key = "QueueName (Priority t)"
  obtain now w1 where n: "time_now e w = (now, w1)" "up w1" "ks w1 = ks w" by (rule clock_tick [OF assms(1)])
  let ?c = "ZRANGEBYSCORE retryDelayedKey (show_int (time_unix now)) 100"
  have "redis_ok ?c (ks w1) (RTexts (take 100 (map fst (sorted_due (retry_set (ks w1)) (score_limit (show_int (time_unix now))))))) (ks w1)"
    using zrange_ok_sorted_due by auto
  from command [OF n(2) this] obtain r w2 where r: "env_client e ?c w1 = (Inr r, w2)" "redis_ok ?c (ks w1) r (ks w2)" "up w2" by blast
  then obtain ms where ms: "r = RTexts ms" "zrange_ok (retry_set (ks w)) (score_limit (show_int (time_unix now))) 100 ms" "ks w2 = ks w"
    by (auto simp: n(3))
  have mem: "p \<in> set ms" by (rule due_batch [OF ms(2) entry]) (use due few n(1) in simp_all)
  define w3 where "w3 = (if corrupt_members ms \<noteq> [] then quarantineCorruptMembers e cfg' (corrupt_members ms) w2 else w2)"
  have w3: "up w3" "gains (ks w) (ks w3) ?key {}"
    using healthy_quarantine [OF r(3)] r(3) ms(3) by (auto simp: w3_def gains_same)
  define valid where "valid = valid_members ms"
  have v: "(p, t) \<in> set valid" using valid_mem [OF mem p(1)] by (simp add: valid_def)
  define xadds where "xadds = xadd_tasks (map snd valid)"
  obtain q where q: "json_Marshal_task t = Inr q" using p(2) by (rule marshalsE)
  have x: "(t, q) \<in> set xadds" unfolding xadds_def using xadd_mem [OF _ q, of "map snd valid"] v by force
  let ?cmds = "map (\<lambda>(t, p). xadd_cmd t p) xadds @ [ZREM retryDelayedKey (map fst valid)]"
  have ok: "\<forall>c \<in> set ?cmds. always_ok c" using v by (auto simp: xadd_cmd_def)
  obtain rs w4 where w4: "pipe_exec e ?cmds w3 = (map Inr rs, w4)" "up w4" "execs ?cmds (ks w3) (ks w4)"
    using healthy_pipe [OF w3(1) ok] by blast
  obtain m where m: "carries t m" "gains (ks w3) (ks w4) ?key {m}"
    using xadd_gains [OF w4(3) ok _ q] x by force
  have gone: "p \<notin> fst ` set (retry_set (ks w4))" by (rule execs_removed [OF w4(3)]) (use v in force)
  obtain rd w5 where w5: "env_client e (ZCARD retryDelayedKey) w4 = (Inr rd, w5)" "redis_ok (ZCARD retryDelayedKey) (ks w4) rd (ks w5)" "up w5"
    by (rule command [OF w4(2), of "ZCARD retryDelayedKey"]) auto
  obtain w6 where f: "FlushReady e cfg' w = (Inr (flushed_tasks xadds (map Inr rs)), w6)" "up w6" "ks w6 = ks w5"
  proof -
    have "ms \<noteq> []" "valid \<noteq> []" using mem v by auto
    then have "FlushReady e cfg' w = (Inr (flushed_tasks xadds (map Inr rs)),
        case reply_int (Inr rd) of Inl _ \<Rightarrow> w5 | Inr depth \<Rightarrow> record_metric e (RecordQueueDepth ''retry:delayed'' (f64_of_rat (of_int depth))) w5)"
      using n(1) r(1) w4(1) w5(1) by (simp add: FlushReady_def ms(1) Let_def flip: valid_def w3_def xadds_def)
    then show ?thesis using that up_metric w5(3) by (auto split: sum.splits)
  qed
  have "length xadds \<le> length rs" using pipe_exec_length [OF w4(1)] by simp
  then have "t \<in> set (flushed_tasks xadds (map Inr rs))" using flushed_all [of xadds rs] x by force
  moreover have "gains (ks w) (ks w5) ?key {m}"
    using gains_trans [OF w3(2) m(2)] w5(2) by simp
  ultimately show ?thesis using f m(1) gone w5(2) by auto
qed

end

lemma norm_twice [simp]: "norm_task (norm_task t) = norm_task t"
  by (simp add: norm_task_def norm_map_def)

lemma norm_clean: "task_clean t \<Longrightarrow> task_clean (norm_task t)"
  by (auto simp: task_clean_def norm_task_def norm_map_def times_ok_def)

lemma norm_sels [simp]: "Priority (norm_task t) = Priority t"
  by (simp add: norm_task_def)

context healthy_pipeline begin

text \<open>A retry that is due goes back to its stream, and from there to a worker.\<close>

lemma due_retry:
  assumes "up w" and ready: "groups_ready cfg (ks w)" and scr: "scripts_loaded scr (ks w)"
    and free: "strs (ks w) (idempotencyKey (attemptKey (ID task) (Attempt task))) = None"
    and valid: "Validate task = None" and clean: "task_clean task"
    and entry: "json_Marshal_task task = Inr p" "(p, sc) \<in> set (retry_set (ks w))"
    and due: "score_le sc (score_limit (show_int (time_unix (fst (time_now e w)))))"
    and few: "length (filter (\<lambda>(_, sc). score_le sc (score_limit (show_int (time_unix (fst (time_now e w)))))) (retry_set (ks w))) \<le> 100"
    and flush: "FlushReady e cfg w = (res, w1)"
    and backlog: "length (waiting_msgs cfg (ks w1) (QueueName (Priority task))) \<le> 10 * n"
    and loop: "pollLoop n e cfg send w1 = (go, w2)"
  defines "t \<equiv> \<lambda>i. metadata_set metaStreamKey (QueueName (Priority task)) (metadata_set metaStreamID i (norm_task task))"
  shows "go \<and> p \<notin> fst ` set (retry_set (ks w1)) \<and> (\<exists>i new. sent w2 = sent w1 @ new \<and> t i \<in> set new \<and> pending cfg (t i) (ks w2) \<and>
    (\<forall>st oc u st'. world st = w2 \<longrightarrow> processTask redis_ports cfg (t i) st = ((oc, u), st') \<longrightarrow>
       \<not> pending cfg (t i) (ks (world st')) \<and> settled ks mail accepted (verdict (t i)) (t i) oc w2 (world st')))"
proof -
  let ?key = "QueueName (Priority task)"
  have m: "marshals task" by (rule marshals_clean [OF clean])
  have dec: "json_Unmarshal_task p = Inr (norm_task task)" using task_payload_roundtrip [OF clean] entry(1) by auto
  have mn: "marshals (norm_task task)" using m by simp
  obtain w1' ts msg where "FlushReady e cfg w = (Inr ts, w1')" "up w1'" "carries (norm_task task) msg"
    "gains (ks w) (ks w1') ?key {msg}" "p \<notin> fst ` set (retry_set (ks w1'))"
    using healthy_flush [OF assms(1) entry(2) due few dec mn, where cfg' = cfg] by auto
  then have w1: "up w1" "carries (norm_task task) msg" "gains (ks w) (ks w1) ?key {msg}" "p \<notin> fst ` set (retry_set (ks w1))"
    using flush by auto
  note key = valid_stream [OF valid]
  have msg: "taskFromMessage ?key msg = Inr (t (MsgID msg))"
    using taskFromMessage_carried [OF norm_clean [OF clean] w1(2)] by (simp add: t_def)
  have "msg \<in> set (take (10 * n) (waiting_msgs cfg (ks w1) ?key))"
    using gains_waiting [OF w1(3) ready key] backlog by simp
  note W = waiting_task [OF w1(1) gains_ready [OF w1(3) ready] key this msg _ _ _ loop]
  have "go \<and> (\<exists>new. sent w2 = sent w1 @ new \<and> t (MsgID msg) \<in> set new) \<and> pending cfg (t (MsgID msg)) (ks w2) \<and>
    (\<forall>st oc u st'. world st = w2 \<longrightarrow> processTask redis_ports cfg (t (MsgID msg)) st = ((oc, u), st') \<longrightarrow>
       \<not> pending cfg (t (MsgID msg)) (ks (world st')) \<and>
       settled ks mail accepted (verdict (t (MsgID msg))) (t (MsgID msg)) oc w2 (world st'))"
  proof (rule W)
    show "marshals (t (MsgID msg))" using m by (simp add: t_def)
    show "scripts_loaded scr (ks w1)" using scr w1(3) by (simp add: scripts_loaded_def gains_def)
    show "strs (ks w1) (idempotencyKey (attemptKey (ID (t (MsgID msg))) (Attempt (t (MsgID msg))))) = None"
      using free w1(3) by (simp add: t_def stamped_sels gains_def)
  qed
  then show ?thesis using w1(4) by blast
qed

end

end
