(* ===== verification/Liveness.thy ===== *)
theory Liveness
  imports Healthy_Path
begin

text \<open>
  The theorems about the way of a task while Redis answers, and a world in memory that answers: the interpretation of
  the locales of \<open>Healthy\<close>, \<open>Settled\<close> and \<open>Healthy_Path\<close>.
\<close>

subsection \<open>A world that answers\<close>

text \<open>The server in memory numbers the messages of a stream; it answers as long as the numbers are free and no fault is due.\<close>

definition numbered :: "keyspace \<Rightarrow> bool" where
  "numbered k \<longleftrightarrow> (\<forall>key. \<forall>m \<in> set (entries (streams k key)). \<exists>i < length (entries (streams k key)). MsgID m = show_nat i)"

definition mem_healthy :: "'a mem_world_scheme \<Rightarrow> bool" where
  "mem_healthy w \<longleftrightarrow> mem_faults w = [] \<and> mem_ctx w = None \<and> time_in_range (mem_clock w) \<and> numbered (mem_ks w)"

lemma numbered_entries: "(\<And>key. entries (streams k' key) = entries (streams k key)) \<Longrightarrow> numbered k \<Longrightarrow> numbered k'"
  by (simp add: numbered_def)

lemma entries_upd_pel [simp]: "entries (upd_pel g f st) = entries st"
  by (simp add: upd_pel_def split: option.split)

lemma numbered_free: "numbered k \<Longrightarrow> show_nat (length (entries (streams k key))) \<notin> MsgID ` set (entries (streams k key))"
  by (force simp: numbered_def)

lemma mem_exec_numbered:
  assumes "numbered k"
  shows "numbered (snd (mem_exec c k))"
proof (cases c)
  case (XADD key vals)
  then show ?thesis using assms by (auto simp: numbered_def Let_def upd_stream_def less_Suc_eq) (metis less_SucI)
next
  case (XREADGROUP g cons keys n d)
  then show ?thesis using assms
    by (auto simp: Let_def intro!: numbered_entries [OF _ assms] simp: read_group_def split: option.split)
qed (auto intro: numbered_entries [OF _ assms] simp: Let_def upd_stream_def upd_zset_def upd_list_def split: option.splits)

lemma mem_exec_answers:
  assumes "numbered k" and "redis_ok c k r0 k0" and "\<And>s. c \<noteq> SCRIPT_LOAD s"
  shows "\<exists>r. fst (mem_exec c k) = Inr r"
proof (cases c)
  case (XADD key vals)
  then show ?thesis using numbered_free [OF assms(1), of key] by (simp add: Let_def)
next
  case (XREADGROUP g cons keys n d)
  then show ?thesis using assms(2) by (auto simp: Let_def)
qed (use assms in \<open>auto simp: Let_def split: option.splits\<close>)

lemma mem_client_healthy:
  "mem_faults w = [] \<Longrightarrow> mem_client resend c w = (fst (mem_exec c (mem_ks w)), w\<lparr>mem_ks := snd (mem_exec c (mem_ks w)), mem_faults := []\<rparr>)"
  by (simp add: mem_client_def mem_apply_def case_prod_unfold Let_def)

lemma mem_answers:
  assumes "mem_healthy w" and "redis_ok c (mem_ks w) r0 k0" and "\<And>s. c \<noteq> SCRIPT_LOAD s"
  shows "\<exists>r w'. mem_client resend c w = (Inr r, w') \<and> redis_ok c (mem_ks w) r (mem_ks w') \<and> mem_healthy w'"
proof -
  obtain r where r: "fst (mem_exec c (mem_ks w)) = Inr r" using mem_exec_answers assms by (metis mem_healthy_def)
  then have "redis_ok c (mem_ks w) r (snd (mem_exec c (mem_ks w)))" by (intro mem_exec_ok) (metis prod.collapse)
  then show ?thesis using assms(1) r mem_exec_numbered by (auto simp: mem_healthy_def mem_client_healthy)
qed

lemma mem_refuses:
  assumes "mem_healthy w" and "\<And>r k. \<not> redis_ok c (mem_ks w) r k"
  shows "\<exists>er w'. mem_client resend c w = (Inl er, w') \<and> mem_ks w' = mem_ks w \<and> mem_healthy w'"
proof (cases "mem_exec c (mem_ks w)")
  case (Pair res k)
  then obtain er where "res = Inl er" using mem_exec_ok [of c "mem_ks w" _ k] assms(2) by (cases res) auto
  then show ?thesis using Pair assms(1) mem_exec_err [of c "mem_ks w" er k] by (auto simp: mem_healthy_def mem_client_healthy)
qed

interpretation mem_live: healthy_redis "mem_env resend" mem_ks mem_healthy for resend
  by unfold_locales (auto simp: mem_answers mem_refuses, auto simp: mem_healthy_def)

text \<open>A channel whose reader keeps up.\<close>

definition mem_push :: "EmailTask \<Rightarrow> 'a mem_chan_scheme \<Rightarrow> bool \<times> 'a mem_chan_scheme" where
  "mem_push t w = (True, w\<lparr>mem_sent := mem_sent w @ [t]\<rparr>)"

interpretation mem_live_chan: healthy_channel "mem_env resend" mem_ks mem_healthy mem_push mem_sent for resend
  by unfold_locales (auto simp: mem_push_def mem_client_def mem_healthy_def split: list.splits prod.splits)

text \<open>A provider with a fixed answer for each task.\<close>

definition verdict_sender :: "(EmailTask \<Rightarrow> go_error option) \<Rightarrow> 'a mem_sys_scheme EmailSender" where
  "verdict_sender v =
     \<lparr>port_Send = (\<lambda>t w. (Returned (v t), if v t = None then w\<lparr>mem_accepted := mem_accepted w @ [t]\<rparr> else w)),
      port_SendBatch = (\<lambda>ts w. (Returned None, w)), port_HealthCheck = (\<lambda>w. (None, w))\<rparr>"

interpretation mem_verdict: redis_system "mem_env resend" mem_ks sample_config scr "verdict_sender v" id mem_accepted for resend scr v
  by unfold_locales
    (auto simp: sample_ttl_ok verdict_sender_def mem_client_def Let_def split: list.splits prod.splits if_splits)

interpretation mem_live_system: healthy_system "mem_env resend" mem_ks mem_healthy sample_config scr "verdict_sender v" id mem_accepted v
  for resend scr v
  by unfold_locales (simp add: verdict_sender_def mem_healthy_def)

interpretation mem_pipeline: healthy_pipeline "mem_env resend" mem_ks mem_healthy mem_push mem_sent sample_config scr "verdict_sender v" id mem_accepted v
  for resend scr v ..

subsection \<open>Properties\<close>

text \<open>C12: First in, first out, nothing left out: while Redis answers and the workers take what they get, \<open>n\<close> rounds of the poll loop
  hand over of each stream exactly its first \<open>10 n\<close> unread messages (those that parse), each once and in the order they
  were written, whatever the other streams hold.\<close>

theorem pollLoop_fifo:
  assumes "healthy_channel e ks up send sent" and "up w" and "groups_ready cfg (ks w)" and "pollLoop n e cfg send w = (go, w')"
  shows "go \<and> (\<exists>new. sent w' = sent w @ new \<and>
    (\<forall>key. key \<in> set priorityStreams \<longrightarrow>
       filter (of_stream key) new = parsed key (take (10 * n) (waiting_msgs cfg (ks w) key)) \<and>
       waiting_msgs cfg (ks w') key = drop (10 * n) (waiting_msgs cfg (ks w) key)))"
proof -
  obtain w1 new where "pollLoop n e cfg send w = (True, w1)" "sent w1 = sent w @ new" "read_ahead cfg (10 * n) (ks w) (ks w1) new"
    using healthy_channel.healthy_loop [OF assms(1-3)] by blast
  then show ?thesis using assms(4) by (auto simp: read_ahead_def)
qed

text \<open>C11: An attempt is settled: while Redis answers, a worker that gets a task whose attempt is not locked acknowledges its message and leaves
  the task where the answer of the provider says: accepted and marked as completed, or in the dead-letter list with
  its error when the error is final or the budget is used up, or in the retry set with its counter increased.\<close>

theorem healthy_attempt_settles:
  assumes "healthy_system e ks up cfg snd' mail accepted verdict" and "up (world st)" and "scripts_loaded scr (ks (world st))"
    and "strs (ks (world st)) (idempotencyKey (attemptKey (ID task) (Attempt task))) = None" and "marshals task"
    and "processTask (redis_deps e cfg scr snd') cfg task st = ((oc, task'), st')"
  shows "up (world st') \<and> \<not> pending cfg task (ks (world st')) \<and> settled ks mail accepted (verdict task) task oc (world st) (world st')"
  using healthy_system.healthy_process [OF assms] .

text \<open>C5: An enqueued task is processed: while Redis answers, \<open>Enqueue\<close> of a valid task returns nil, and however long the backlog of its
  stream, after enough rounds of the poll loop the task, with the metadata that leads back to its message, has been handed
  over and is pending, and the worker that gets it settles it. The groups exist and the scripts are loaded, as at the end of the
  start; JSON can carry the task, and nobody has locked its attempt.\<close>

theorem enqueued_task_settles:
  assumes "healthy_pipeline e ks up send sent cfg snd' mail accepted verdict"
    and "up w" and "groups_ready cfg (ks w)" and "scripts_loaded scr (ks w)"
    and "strs (ks w) (idempotencyKey (attemptKey (ID task) (Attempt task))) = None"
    and "Validate task = None" and "task_clean (set_span sp task)"
    and "Enqueue e sp task w = ((err, task'), w1)"
    and "length (waiting_msgs cfg (ks w) (QueueName (Priority task))) < 10 * n"
    and "pollLoop n e cfg send w1 = (go, w2)"
  shows "err = None \<and> (\<exists>i t new.
    t = metadata_set metaStreamKey (QueueName (Priority task)) (metadata_set metaStreamID i (norm_task task')) \<and>
    sent w2 = sent w1 @ new \<and> t \<in> set new \<and> pending cfg t (ks w2) \<and>
    (\<forall>st oc u st'. world st = w2 \<longrightarrow> processTask (redis_deps e cfg scr snd') cfg t st = ((oc, u), st') \<longrightarrow>
       \<not> pending cfg t (ks (world st')) \<and> settled ks mail accepted (verdict t) t oc w2 (world st')))"
  using healthy_pipeline.enqueued_task [OF assms] by blast

text \<open>C8: A retry comes back: while Redis answers and at most a batch is due, the flush after a task's due time takes it out of the retry set and
  puts it into the stream of its priority; after enough rounds of the poll loop it has been handed over, and the worker
  that gets it settles its next attempt. Again the groups exist and the scripts are loaded, the task is valid and JSON can carry it, and nobody has
  locked its attempt.\<close>

theorem due_retry_settles:
  assumes "healthy_pipeline e ks up send sent cfg snd' mail accepted verdict"
    and "up w" and "groups_ready cfg (ks w)" and "scripts_loaded scr (ks w)"
    and "strs (ks w) (idempotencyKey (attemptKey (ID task) (Attempt task))) = None"
    and "Validate task = None" and "task_clean task"
    and "json_Marshal_task task = Inr p" and "(p, sc) \<in> set (retry_set (ks w))"
    and "score_le sc (score_limit (show_int (time_unix (fst (time_now e w)))))"
    and "length (filter (\<lambda>(_, sc). score_le sc (score_limit (show_int (time_unix (fst (time_now e w)))))) (retry_set (ks w))) \<le> 100"
    and "FlushReady e cfg w = (res, w1)"
    and "length (waiting_msgs cfg (ks w1) (QueueName (Priority task))) \<le> 10 * n"
    and "pollLoop n e cfg send w1 = (go, w2)"
  shows "p \<notin> fst ` set (retry_set (ks w1)) \<and> (\<exists>i t new.
    t = metadata_set metaStreamKey (QueueName (Priority task)) (metadata_set metaStreamID i (norm_task task)) \<and>
    sent w2 = sent w1 @ new \<and> t \<in> set new \<and> pending cfg t (ks w2) \<and>
    (\<forall>st oc u st'. world st = w2 \<longrightarrow> processTask (redis_deps e cfg scr snd') cfg t st = ((oc, u), st') \<longrightarrow>
       \<not> pending cfg t (ks (world st')) \<and> settled ks mail accepted (verdict t) t oc w2 (world st')))"
  using healthy_pipeline.due_retry [OF assms] by blast

subsection \<open>Witnesses\<close>

text \<open>The four groups exist, one stream has a message nobody has read yet, and a retry is due.\<close>

definition live_ks :: keyspace where
  "live_ks = empty_ks
     \<lparr>streams := (\<lambda>key. \<lparr>entries = (if key = ''{queue}:email:normal'' then [sample_msg] else []),
        groups = [''email-workers'' \<mapsto> \<lparr>last_read = 0, pel = (\<lambda>_. None)\<rparr>]\<rparr>),
      zsets := (\<lambda>_. [])(retryDelayedKey := [(Doc (JObj (task_members sample_task None)), Fin 1700000000)])\<rparr>"

definition live_world :: mem_sys where
  "live_world = sys_world live_ks [] []"

lemma live_world_up: "mem_healthy live_world"
  by (simp add: mem_healthy_def live_world_def sys_world_def numbered_def live_ks_def time_in_range_def time_unix_def sample_msg_def empty_ks_def show_nat.simps [of 0] digit_char_def)

lemma live_ready: "groups_ready sample_config (mem_ks live_world)"
  by (simp add: groups_ready_def live_world_def live_ks_def)

lemma live_state:
  "scripts_loaded sample_scripts (mem_ks live_world)" "strs (mem_ks live_world) k = None"
  "waiting_msgs sample_config (mem_ks live_world) key = (if key = ''{queue}:email:normal'' then [sample_msg] else [])"
  "retry_set (mem_ks live_world) = [(Doc (JObj (task_members sample_task None)), Fin 1700000000)]"
  "unread (streams (mem_ks live_world) key) ''email-workers'' = (if key = ''{queue}:email:normal'' then [sample_msg] else [])"
  "time_unix (fst (time_now (mem_env True) live_world)) = 1700000100"
  by (simp_all add: live_world_def live_ks_def scripts_loaded_def sample_scripts_def empty_ks_def unread_def sys_world_def time_unix_def)

lemma sample_valid: "Validate sample_task = None" "task_clean sample_task" "norm_task sample_task = sample_task"
proof -
  show "Validate sample_task = None"
    by (simp add: Validate_None_iff valid_task_def TaskType_IsValid_iff Priority_IsValid_iff)
  have "task_clean (sample_task\<lparr>LastError := []\<rparr>)" by (rule sample_task_clean) (simp add: utf8_ok_ascii)
  then show "task_clean sample_task" by (simp add: sample_task_def)
  show "norm_task sample_task = sample_task" by (simp add: norm_task_def norm_map_def sample_task_def)
qed

lemma sample_decoded: "taskFromMessage ''{queue}:email:normal'' sample_msg = Inr stamped_task"
  using taskFromMessage_carried [OF sample_valid(2) sample_msg_carries, of "''{queue}:email:normal''"]
  by (simp add: stamped_task_def sample_valid(3)) (simp add: sample_msg_def)

lemma normal_stream: "''{queue}:email:normal'' \<in> set priorityStreams"
  by (simp add: priorityStreams_def QueueName_def Priority_String_def)

theorem pollLoop_fifo_witness:
  "filter (of_stream ''{queue}:email:normal'') (mem_sent (snd (pollLoop 1 (mem_env True) sample_config mem_push live_world))) = [stamped_task]"
proof -
  obtain go w' where r: "pollLoop 1 (mem_env True) sample_config mem_push live_world = (go, w')" by fastforce
  have "mem_sent live_world = []" by (simp add: live_world_def sys_world_def)
  then show ?thesis unfolding r snd_conv
    using pollLoop_fifo [OF mem_live_chan.healthy_channel_axioms live_world_up live_ready r] normal_stream
    by (auto simp: live_state parsed_def sample_decoded)
qed

abbreviation verdict_ports :: "(EmailTask \<Rightarrow> go_error option) \<Rightarrow> mem_sys deps" where
  "verdict_ports v \<equiv> redis_deps (mem_env True) sample_config sample_scripts (verdict_sender v)"

theorem healthy_attempt_settles_witness:
  "let st = idle_supervisor live_world; v = (\<lambda>_. Some (ENew ''busy'')); r = processTask (verdict_ports v) sample_config stamped_task st in
   settled mem_ks id mem_accepted (Some (ENew ''busy'')) stamped_task (fst (fst r)) live_world (world (snd r))"
proof -
  let ?v = "\<lambda>_. Some (ENew ''busy'')" and ?st = "idle_supervisor live_world"
  obtain oc u st' where r: "processTask (verdict_ports ?v) sample_config stamped_task ?st = ((oc, u), st')" by (metis prod.exhaust)
  have w: "world ?st = live_world" by (simp add: idle_supervisor_def)
  have "marshals stamped_task" using marshals_clean [OF sample_valid(2)] by (simp add: stamped_task_def)
  from healthy_attempt_settles [OF mem_live_system.healthy_system_axioms _ _ _ this r] live_world_up live_state(1,2)
  show ?thesis by (simp add: w r Let_def)
qed

theorem enqueued_task_settles_witness:
  "let w1 = snd (Enqueue (mem_env True) None sample_task live_world); w2 = snd (pollLoop 1 (mem_env True) sample_config mem_push w1) in
   \<exists>t. t \<in> set (mem_sent w2) \<and> fst (fst (processTask (verdict_ports (\<lambda>_. None)) sample_config t (idle_supervisor w2))) = Sent"
proof -
  let ?v = "\<lambda>_. None"
  obtain err task' w1 where enq: "Enqueue (mem_env True) None sample_task live_world = ((err, task'), w1)" by (metis prod.exhaust)
  obtain go w2 where loop: "pollLoop 1 (mem_env True) sample_config mem_push w1 = (go, w2)" by fastforce
  have span: "task_clean (set_span None sample_task)" using sample_valid(2) by (simp add: set_span_def)
  have backlog: "length (waiting_msgs sample_config (mem_ks live_world) (QueueName (Priority sample_task))) < 10 * 1" by (simp add: live_state)
  obtain t where t: "t \<in> set (mem_sent w2)" and settles: "\<And>st oc u st'. world st = w2 \<Longrightarrow>
      processTask (verdict_ports ?v) sample_config t st = ((oc, u), st') \<Longrightarrow> settled mem_ks id mem_accepted (?v t) t oc w2 (world st')"
    using enqueued_task_settles [OF mem_pipeline.healthy_pipeline_axioms live_world_up live_ready live_state(1,2) sample_valid(1) span enq backlog loop]
    by fastforce
  obtain oc u st' where r: "processTask (verdict_ports ?v) sample_config t (idle_supervisor w2) = ((oc, u), st')" by (metis prod.exhaust)
  have "oc = Sent" using settles [OF _ r] by (simp add: idle_supervisor_def settled_def)
  then show ?thesis using t r unfolding enq snd_conv Let_def loop by (intro exI [of _ t]) simp
qed

theorem due_retry_settles_witness:
  "let w1 = snd (FlushReady (mem_env True) sample_config live_world) in
   \<exists>n t. t \<in> set (mem_sent (snd (pollLoop n (mem_env True) sample_config mem_push w1))) \<and>
     fst (fst (processTask (verdict_ports (\<lambda>_. Some (ESentinel ErrNonRetryable))) sample_config t
       (idle_supervisor (snd (pollLoop n (mem_env True) sample_config mem_push w1))))) = Dead"
proof -
  let ?v = "\<lambda>_. Some (ESentinel ErrNonRetryable)"
  obtain res w1 where flush: "FlushReady (mem_env True) sample_config live_world = (res, w1)" by fastforce
  define n where "n = length (waiting_msgs sample_config (mem_ks w1) (QueueName (Priority sample_task)))"
  obtain go w2 where loop: "pollLoop n (mem_env True) sample_config mem_push w1 = (go, w2)" by fastforce
  have entry: "(Doc (JObj (task_members sample_task None)), Fin 1700000000) \<in> set (retry_set (mem_ks live_world))" by (simp add: live_state)
  have due: "score_le (Fin 1700000000) (score_limit (show_int (time_unix (fst (time_now (mem_env True) live_world)))))"
    using due_score by (simp only: live_state)
  have few: "length (filter (\<lambda>(_, sc). score_le sc (score_limit (show_int (time_unix (fst (time_now (mem_env True) live_world))))))
      (retry_set (mem_ks live_world))) \<le> 100"
    by (simp only: live_state) simp
  have backlog: "length (waiting_msgs sample_config (mem_ks w1) (QueueName (Priority sample_task))) \<le> 10 * n" by (simp add: n_def)
  obtain t where t: "t \<in> set (mem_sent w2)" and settles: "\<And>st oc u st'. world st = w2 \<Longrightarrow>
      processTask (verdict_ports ?v) sample_config t st = ((oc, u), st') \<Longrightarrow> settled mem_ks id mem_accepted (?v t) t oc w2 (world st')"
    using due_retry_settles [OF mem_pipeline.healthy_pipeline_axioms live_world_up live_ready live_state(1,2) sample_valid(1,2) sample_marshal
        entry due few flush backlog loop]
    by fastforce
  obtain oc u st' where r: "processTask (verdict_ports ?v) sample_config t (idle_supervisor w2) = ((oc, u), st')" by (metis prod.exhaust)
  have "oc = Dead" using settles [OF _ r] by (simp add: idle_supervisor_def settled_def is_nonretryable_def Let_def)
  then show ?thesis using t r unfolding flush snd_conv Let_def by (intro exI [of _ n] exI [of _ t]) (simp add: loop)
qed

end
