(* ===== verification/Service_Safety.thy ===== *)
theory Service_Safety
  imports Service_Run Liveness
begin

text \<open>
  What holds of the running service because of where its tasks come from: the poll goroutine is the only writer of the task
  channel, so every task in the hands of any goroutine has been decoded from an entry of a stream, and a service
  that was started on well-typed data never meets a value it cannot read.
\<close>

subsection \<open>Streams only grow\<close>

definition entries_grow :: "keyspace \<Rightarrow> keyspace \<Rightarrow> bool" where
  "entries_grow k k' \<longleftrightarrow> (\<forall>key. set (entries (streams k key)) \<subseteq> set (entries (streams k' key)))"

definition from_stream :: "keyspace \<Rightarrow> EmailTask \<Rightarrow> bool" where
  "from_stream k t \<longleftrightarrow> (\<exists>key \<in> set priorityStreams. \<exists>m \<in> set (entries (streams k key)). taskFromMessage key m = Inr t)"

lemma cmd_entries_grow: "redis_ok c k r k' \<Longrightarrow> entries_grow k k'"
  by (cases c) (auto simp: entries_grow_def upd_stream_def upd_zset_def upd_list_def read_group_def upd_pel_def split: option.splits)

interpretation anything: worker_commands "\<lambda>_. True" "\<lambda>_. True"
  by unfold_locales simp_all

sublocale redis_system \<subseteq> origin: command_invariant e ks cfg scr snd' mail accepted "\<lambda>_. True" "\<lambda>_. True" entries_grow from_stream
proof unfold_locales
  show "entries_grow k k'" if "redis_ok c k r k'" for c k r k' using that by (rule cmd_entries_grow)
  show "from_stream k' t" if "from_stream k t" "entries_grow k k'" for k k' t using that by (fastforce simp: from_stream_def entries_grow_def)
qed (auto simp: entries_grow_def from_stream_def)

context redis_system begin

lemmas service_from_streams = origin.service_inv_run(2)
lemmas service_keeps_typed = typing.service_inv_run(1)
lemmas service_go_tasks = typing.service_inv_run(2)

end

subsection \<open>The poll goroutine in the process\<close>

lemma closed_poller:
  assumes "poller_inv s" and "chClosed (pool_of (proc_of s))"
  shows "\<not> poll_step e cfg (poll_at s, pool_of (proc_of s)) p"
  using assms by (auto simp: poller_inv_def closes_once_def elim: poll_step.cases)

subsection \<open>Properties\<close>

text \<open>C13: The running service refines its process: whatever its goroutines do, the poll goroutine included, the process is in a state it
  can reach with the poll goroutine as part of the world, and every step of the service is a step of the process or leaves
  it alone. The task channel is closed exactly when the poll goroutine has returned, and nothing is put into it then.\<close>

theorem running_service_refines_process:
  assumes "service_reachable h svc others s"
  shows "proc_reachable h svc (with_poller h others) (proc_of s) \<and>
    (\<forall>s'. service_step h svc others s s' \<longrightarrow>
       proc_of s' = proc_of s \<or> proc_step h svc (with_poller h others) (proc_of s) (proc_of s')) \<and>
    (chClosed (pool_of (proc_of s)) \<longleftrightarrow> poll_at s = PollReturned) \<and>
    (chClosed (pool_of (proc_of s)) \<longrightarrow> (\<forall>p. \<not> poll_step (adapter_env h) (svc_cfg svc) (poll_at s, pool_of (proc_of s)) p))"
proof -
  have inv: "poller_inv s" and "proc_reachable h svc (with_poller h others) (proc_of s)"
    using service_reachable_proc [OF assms] by auto
  moreover have "chClosed (pool_of (proc_of s)) \<longleftrightarrow> poll_at s = PollReturned" using inv by (simp add: poller_inv_def closes_once_def)
  ultimately show ?thesis using service_step_proc closed_poller by blast
qed

text \<open>C10: Every task in the service was written to a stream: whatever else happens in Redis, each task that the poll goroutine has read, that waits
  in the channel, that was reclaimed, dispatched or is being worked on is what an entry of one of the four
  priority streams decodes to; no goroutine makes up a task.\<close>

theorem tasks_come_from_streams:
  assumes "host_laws h ks" and "main_boot h w = (Up svc, w')"
    and "redis_system (adapter_env h) ks (svc_cfg svc) (sender (svc_deps svc)) mail accepted"
    and "\<And>v. ks (snd (lib_Close (lib_redis h) (svc_redis svc) v)) = ks v"
    and "service_reachable h svc (sends (adapter_env h) (\<lambda>_. True)) s" and "t \<in> set (service_tasks s)"
  shows "\<exists>key \<in> set priorityStreams. \<exists>m \<in> set (entries (streams (ks (world_of (proc_of s))) key)). taskFromMessage key m = Inr t"
  using redis_system.service_from_streams
    [OF assms(3,5) [unfolded service_reachable_def] refl booted_deps(1) [OF assms(1,2)] refl assms(4,6)]
  by (simp add: from_stream_def)

text \<open>C9: The running service stays well typed: started on data whose values have the right types, with whatever else writes
  such values, it keeps them so, every task it handles is a Go value, and every reader of the program understands what it
  finds: entries decode, no due retry is corrupt, every dead-letter list can be listed, no lock is foreign to the scripts.\<close>

theorem service_stays_typed:
  assumes "host_laws h ks" and "main_boot h w = (Up svc, w')"
    and "redis_system (adapter_env h) ks (svc_cfg svc) (sender (svc_deps svc)) mail accepted"
    and "\<And>v. ks (snd (lib_Close (lib_redis h) (svc_redis svc) v)) = ks v"
    and "service_reachable h svc (sends (adapter_env h) typed_cmd) s" and "typed_ks (ks w')"
  shows "let k = ks (world_of (proc_of s)) in typed_ks k \<and> list_all go_task (service_tasks s) \<and>
    (\<forall>key. \<forall>m \<in> set (entries (streams k key)). \<exists>t. taskFromMessage key m = Inr t) \<and>
    (\<forall>ms. set ms \<subseteq> set (map fst (retry_set k)) \<longrightarrow> corrupt_members ms = []) \<and>
    (\<forall>pre tenant type'. \<exists>xs. decode_dlq pre 0 (lists k (dlqKey tenant type')) = Inr xs) \<and>
    (\<forall>key. lock_of (strs k) key \<noteq> Foreign)"
proof -
  note up = assms(3,5) [unfolded service_reachable_def] refl booted_deps(1) [OF assms(1,2)] refl assms(4)
  have "world (svc_supervisor svc) = w'" using NewSupervisor_idle [OF booted_deps(2) [OF assms(1,2)]] by simp
  then have typed: "typed_ks (ks (world_of (proc_of s)))" using redis_system.service_keeps_typed [OF up] assms(6) keeps_typedD by metis
  then show ?thesis using redis_system.service_go_tasks [OF up] by (simp add: Let_def list_all_iff typed_message typed_members typed_dlq typed_lock)
qed

subsection \<open>Witnesses\<close>

text \<open>A service boots on a Redis with one message nobody has read; its dispatch loop starts, and the poll goroutine reads the message.\<close>

lemma same_faults: "mem_faults w = [] \<Longrightarrow> w\<lparr>mem_faults := []\<rparr> = w"
  by (metis mem_server.surjective mem_server.update_convs(2))

lemma ready_ensures:
  "mem_faults w = [] \<Longrightarrow> (\<And>key. key \<in> set keys \<Longrightarrow> groups (streams (mem_ks w) key) g \<noteq> None) \<Longrightarrow> ensureGroups (worker_env True) keys g w = (None, w)"
  by (induction keys) (simp_all add: ensureConsumerGroup_def isBusyGroup_def Let_def mem_eval same_faults)

lemma ready_starts:
  assumes "mem_faults (world st) = []" and "\<And>key. groups (streams (mem_ks (world st)) key) (ConsumerGroup (CfgWorker c)) \<noteq> None"
    and "\<not> ClaimIdleThreshold (CfgWorker c) <=s 0"
  shows "\<exists>st' ms. Run_start (worker_ports c snd') c st = (Started, st') \<and> world st' = (world st)\<lparr>mem_metrics := ms\<rparr>"
  using ready_ensures [OF assms(1,2), of "priorityStreams"] assms(3)
  by (auto simp: Consume_def Run_start_def on_world_def metric_st_def port_defs)

definition reading :: "'s running \<Rightarrow> 's \<Rightarrow> (string \<times> stream_msg list) list \<Rightarrow> 's running" where
  "reading s w ss = \<lparr>proc_of = (proc_of s)\<lparr>pool_of := pool_world w (pool_of (proc_of s))\<rparr>, poll_at = Handing (decoded ss)\<rparr>"

lemma reading_reachable:
  assumes s: "service_reachable h svc others s" "exit_status (proc_of s) = None" "poll_at s = PollTop" "\<not> ctxDone (pool_of (proc_of s))"
    and r: "env_client (adapter_env h) (read_cmd (svc_cfg svc)) (world_of (proc_of s)) = (Inr (RStreams ss), w)"
  shows "service_reachable h svc others (reading s w ss)"
proof -
  let ?p = "proc_of s" and ?e = "adapter_env h" and ?c = "svc_cfg svc"
  have "service_step h svc others s \<lparr>proc_of = ?p\<lparr>pool_of := pool_of ?p\<rparr>, poll_at = PollRead\<rparr>"
    by (rule service_step.poll) (use s poll_step.top [of "pool_of ?p" ?e ?c] in simp_all)
  then have top: "service_step h svc others s \<lparr>proc_of = ?p, poll_at = PollRead\<rparr>" by simp
  have "poll_step ?e ?c (PollRead, pool_of ?p) (Handing (decoded ss), pool_world w (pool_of ?p))"
    by (rule poll_step.read [of _ _ _ "Inr (RStreams ss)"]) (use r in \<open>simp_all add: world_of_def\<close>)
  then have "service_step h svc others \<lparr>proc_of = ?p, poll_at = PollRead\<rparr> (reading s w ss)"
    using service_step.poll [of "\<lparr>proc_of = ?p, poll_at = PollRead\<rparr>" h svc "Handing (decoded ss)" "pool_world w (pool_of ?p)" others] s(2)
    by (simp add: reading_def)
  with top show ?thesis using s(1) unfolding service_reachable_def by (meson rtranclp.rtrancl_into_rtrancl)
qed

lemma started_reachable:
  assumes "Run_start (svc_deps svc) (svc_cfg svc) (svc_supervisor svc) = (Started, st)"
  shows "service_reachable h svc others \<lparr>proc_of = (put_spv st (start_proc svc))\<lparr>sup_at := SupRunning\<rparr>, poll_at = PollTop\<rparr>"
proof -
  let ?s0 = "start_proc svc" and ?s1 = "(put_spv st (start_proc svc))\<lparr>sup_at := SupRunning\<rparr>"
  have sel: "exit_status ?s0 = None" "sup_at ?s0 = SupLaunched" "spv (pool_of ?s0) = svc_supervisor svc" by (simp_all add: start_proc_def new_pool_def)
  have "proc_step h svc others ?s0 ?s1" using live_step.sup_start [of ?s0 svc st h others] assms sel by (simp add: proc_step_def)
  moreover have "leaves_channel (pool_of ?s0) (pool_of ?s1)" by (simp add: leaves_channel_def put_spv_def)
  ultimately have "service_step h svc others (start_service svc) \<lparr>proc_of = ?s1, poll_at = launch_poll ?s0 ?s1 PollOff\<rparr>"
    using service_step.proc [of h svc others "start_service svc" ?s1] by (simp add: start_service_def)
  then show ?thesis by (auto simp: service_reachable_def launch_poll_def sel)
qed

text \<open>The service in memory after its first read.\<close>

lemma live_reads:
  assumes "mem_faults w = []" and "mem_ks w = live_ks\<lparr>scripts := x\<rparr>" and "ConsumerGroup (CfgWorker c) = ''email-workers''"
  shows "\<exists>ss w'. env_client (worker_env True) (read_cmd c) w = (Inr (RStreams ss), w') \<and> stamped_task \<in> set (decoded ss)"
proof -
  have waiting: "unread (streams (mem_ks w) key) ''email-workers'' = (if key = ''{queue}:email:normal'' then [sample_msg] else [])" for key
    by (simp add: assms(2) live_ks_def unread_def)
  have exists: "groups (streams (mem_ks w) key) ''email-workers'' \<noteq> None" for key by (simp add: assms(2) live_ks_def)
  let ?ss = "filter (\<lambda>(_, ms). ms \<noteq> []) (map (\<lambda>key. (key, take 10 (unread (streams (mem_ks w) key) ''email-workers''))) priorityStreams)"
  have msg: "(''{queue}:email:normal'', [sample_msg]) \<in> set ?ss" using normal_stream by (auto simp: waiting)
  then have "?ss \<noteq> []" by force
  then have "\<exists>w'. env_client (worker_env True) (read_cmd c) w = (Inr (RStreams ?ss), w')"
    using exists assms(1,3) by (simp add: read_cmd_def mem_client_def mem_apply_def Let_def)
  moreover have "stamped_task \<in> set (parsed ''{queue}:email:normal'' [sample_msg])" by (simp add: parsed_def sample_decoded)
  ultimately show ?thesis using msg unfolding decoded_def by fastforce
qed

abbreviation live_host :: "mem_http host" where
  "live_host \<equiv> mem_host (sample_os sendgrid_start)"

lemma live_service:
  obtains svc w sg s where "sendgrid_on live_ks svc w sg"
    and "redis_system (adapter_env live_host) mem_ks (svc_cfg svc) (sender (svc_deps svc)) (sendgrid_mail sg) mem_confirmed"
    and "mem_ks w = live_ks\<lparr>scripts := [''sha-idem'' \<mapsto> IdempotencyLua, ''sha-reclaim'' \<mapsto> ReclaimStaleLua]\<rparr>"
    and "\<forall>others. service_reachable live_host svc others s" and "stamped_task \<in> set (service_tasks s)"
proof -
  obtain svc w sg where up: "sendgrid_on live_ks svc w sg"
    and sys: "redis_system (adapter_env live_host) mem_ks (svc_cfg svc) (sender (svc_deps svc)) (sendgrid_mail sg) mem_confirmed"
    and deps: "svc_deps svc = worker_ports (svc_cfg svc) (sender (svc_deps svc))" and u: "mem_up (svc_cfg svc) live_ks svc"
    and idle: "\<not> ClaimIdleThreshold (CfgWorker (svc_cfg svc)) <=s 0" and g: "ConsumerGroup (CfgWorker (svc_cfg svc)) = ''email-workers''"
    by (rule sendgrid_boots)
  note ks = mem_up_world [OF u]
  have w: "world (svc_supervisor svc) = w"
    using NewSupervisor_idle [OF booted_deps(2) [OF mem_host.host_laws_axioms sendgrid_onD [OF up]]] by simp
  obtain st where run: "Run_start (svc_deps svc) (svc_cfg svc) (svc_supervisor svc) = (Started, st)"
    and st: "mem_ks (world st) = mem_ks w" "mem_faults (world st) = []"
    using ready_starts [of "svc_supervisor svc" "svc_cfg svc" "sender (svc_deps svc)"] idle g deps ks by (fastforce simp: live_ks_def w)
  let ?s = "\<lparr>proc_of = (put_spv st (start_proc svc))\<lparr>sup_at := SupRunning\<rparr>, poll_at = PollTop\<rparr>"
  have env: "adapter_env live_host = worker_env True" by (simp add: mem_host_def)
  obtain ss w2 where read: "env_client (worker_env True) (read_cmd (svc_cfg svc)) (world st) = (Inr (RStreams ss), w2)"
    and t: "stamped_task \<in> set (decoded ss)"
    using live_reads [OF st(2) _ g] st(1) ks(1) w by metis
  have "service_reachable live_host svc others (reading ?s w2 ss)" for others
    by (rule reading_reachable [OF started_reachable [OF run]])
      (use read in \<open>simp_all add: env world_of_def put_spv_def start_proc_def new_pool_def\<close>)
  moreover have "stamped_task \<in> set (service_tasks (reading ?s w2 ss))" using t by (simp add: service_tasks_def reading_def)
  ultimately show ?thesis using up sys ks(1) w that by metis
qed

lemma live_typed: "typed_ks (live_ks\<lparr>scripts := x\<rparr>)"
proof -
  have task: "decodes json_Unmarshal_task (Doc (JObj (task_members sample_task None)))"
    using task_payload_decodes [OF sample_marshal] by (simp add: decodes_iff)
  then have "task_values (MsgValues sample_msg)" by (simp add: sample_msg_def task_values_def)
  with task show ?thesis by (simp add: typed_ks_def live_ks_def empty_ks_def typed_strs_def)
qed

theorem running_service_refines_process_witness:
  "\<exists>svc s. stamped_task \<in> set (service_tasks s) \<and> proc_reachable live_host svc (with_poller live_host (=)) (proc_of s)"
proof -
  obtain svc s where "service_reachable live_host svc (=) s" "stamped_task \<in> set (service_tasks s)" by (rule live_service) blast
  with running_service_refines_process [OF this(1)] show ?thesis by blast
qed

theorem tasks_come_from_streams_witness:
  "\<exists>svc w sg (s :: mem_http running). sendgrid_on live_ks svc w sg \<and> stamped_task \<in> set (service_tasks s) \<and>
     (\<exists>key \<in> set priorityStreams. \<exists>m \<in> set (entries (streams (mem_ks (world_of (proc_of s))) key)). taskFromMessage key m = Inr stamped_task)"
proof -
  obtain svc w sg s where up: "sendgrid_on live_ks svc w sg"
    and sys: "redis_system (adapter_env live_host) mem_ks (svc_cfg svc) (sender (svc_deps svc)) (sendgrid_mail sg) mem_confirmed"
    and s: "\<forall>others. service_reachable live_host svc others s" "stamped_task \<in> set (service_tasks s)"
    by (rule live_service)
  have close: "mem_ks (snd (lib_Close (lib_redis live_host) (svc_redis svc) v)) = mem_ks v" for v by (simp add: mem_host_def)
  from tasks_come_from_streams [OF mem_host.host_laws_axioms sendgrid_onD [OF up] sys close s(1) [rule_format] s(2)] up s(2) show ?thesis by blast
qed

theorem service_stays_typed_witness:
  "\<exists>svc w sg (s :: mem_http running). sendgrid_on live_ks svc w sg \<and> stamped_task \<in> set (service_tasks s) \<and> typed_ks (mem_ks (world_of (proc_of s)))"
proof -
  obtain svc w sg s where up: "sendgrid_on live_ks svc w sg"
    and sys: "redis_system (adapter_env live_host) mem_ks (svc_cfg svc) (sender (svc_deps svc)) (sendgrid_mail sg) mem_confirmed"
    and w: "mem_ks w = live_ks\<lparr>scripts := [''sha-idem'' \<mapsto> IdempotencyLua, ''sha-reclaim'' \<mapsto> ReclaimStaleLua]\<rparr>"
    and s: "\<forall>others. service_reachable live_host svc others s" "stamped_task \<in> set (service_tasks s)"
    by (rule live_service)
  have close: "mem_ks (snd (lib_Close (lib_redis live_host) (svc_redis svc) v)) = mem_ks v" for v by (simp add: mem_host_def)
  have "typed_ks (mem_ks w)" by (simp only: w live_typed)
  from service_stays_typed [OF mem_host.host_laws_axioms sendgrid_onD [OF up] sys close s(1) [rule_format] this] up s(2)
  show ?thesis by (auto simp: Let_def)
qed

end
