(* ===== verification/Service_Live.thy ===== *)
theory Service_Live
  imports Service_Safety
begin

text \<open>
  The running service at work: one that is at rest, with nothing in the hands of any goroutine and nothing unread, can
  take a task that is enqueued through all of them, to the answer of the provider, and is at rest again.
\<close>

subsection \<open>What a worker leaves to the poll goroutine\<close>

text \<open>The commands of a worker neither write to a stream nor read ahead in one.\<close>

fun off_queue :: "rcmd \<Rightarrow> bool" where
  "off_queue (XADD key vals) \<longleftrightarrow> False"
| "off_queue (XGROUP_CREATE key g) \<longleftrightarrow> False"
| "off_queue (XREADGROUP g c keys n d) \<longleftrightarrow> False"
| "off_queue _ \<longleftrightarrow> True"

definition same_reads :: "keyspace \<Rightarrow> keyspace \<Rightarrow> bool" where
  "same_reads k k' \<longleftrightarrow> (\<forall>key. entries (streams k' key) = entries (streams k key) \<and>
     (\<forall>g. map_option last_read (groups (streams k' key) g) = map_option last_read (groups (streams k key) g)))"

lemma cmd_same_reads: "redis_ok c k r k' \<Longrightarrow> off_queue c \<Longrightarrow> same_reads k k'"
  by (cases c) (auto simp: same_reads_def upd_stream_def upd_zset_def upd_list_def upd_pel_def split: option.splits)

interpretation off_queue: attempt_commands off_queue "\<lambda>_. True"
proof unfold_locales
  show "off_queue c" if "read_only c" for c using that by (cases c) auto
qed (simp_all add: acquire_cmd_def reclaim_cmd_def)

sublocale redis_system \<subseteq> calm: attempt_invariant e ks cfg scr snd' mail accepted off_queue "\<lambda>_. True" same_reads
proof unfold_locales
  show "same_reads k k'" if "redis_ok c k r k'" "off_queue c" for c k r k' using that by (rule cmd_same_reads)
qed (auto simp: same_reads_def)

lemma same_reads_ready: "same_reads k k' \<Longrightarrow> groups_ready cfg k \<Longrightarrow> groups_ready cfg k'"
  unfolding groups_ready_def same_reads_def
  by (smt (verit) map_option_eq_Some option.case_eq_if option.collapse option.map_sel option.map_disc_iff)

lemma same_reads_waiting: "same_reads k k' \<Longrightarrow> waiting_msgs cfg k' key = waiting_msgs cfg k key"
  unfolding same_reads_def unread_def
  by (metis (no_types, lifting) option.case_eq_if option.map_disc_iff option.map_sel)

text \<open>Scripts stay loaded.\<close>

definition keeps_scripts :: "ScriptRegistry \<Rightarrow> keyspace \<Rightarrow> keyspace \<Rightarrow> bool" where
  "keeps_scripts scr k k' \<longleftrightarrow> (scripts_loaded scr k \<longrightarrow> scripts_loaded scr k')"

lemma cmd_keeps_scripts: "redis_ok c k r k' \<Longrightarrow> keeps_scripts scr k k'"
  by (cases c) (auto simp: keeps_scripts_def scripts_loaded_def upd_stream_def upd_zset_def upd_list_def split: if_splits)

sublocale redis_system \<subseteq> scripted: command_invariant e ks cfg scr snd' mail accepted "\<lambda>_. True" "\<lambda>_. True" "keeps_scripts scr" "\<lambda>_ _. True"
proof unfold_locales
  show "keeps_scripts scr k k'" if "redis_ok c k r k'" for c k r k' using that by (rule cmd_keeps_scripts)
qed (auto simp: keeps_scripts_def)

context redis_system begin

lemmas task_same_reads = calm.processTask_keeps [OF _ TrueI]
lemmas service_keeps_scripts = scripted.service_inv_run(1)

end

subsection \<open>A service at rest\<close>

text \<open>
  Started and not asked to stop; the poll goroutine at the top of its loop, the dispatch loop at its \<open>select\<close>, nothing in the
  channel, no worker, a place free; and no message that has not been read.
\<close>

definition pool_rests :: "Config \<Rightarrow> 'w pool \<Rightarrow> bool" where
  "pool_rests cfg p \<longleftrightarrow> \<not> ctxDone p \<and> taskCh p = [] \<and> run_at p = AtSelect \<and> launched p = [] \<and> working p = [] \<and> sem (spv p) < capacity cfg"

definition at_rest :: "('s \<Rightarrow> keyspace) \<Rightarrow> 's service \<Rightarrow> 's running \<Rightarrow> bool" where
  "at_rest ks svc s \<longleftrightarrow>
     exit_status (proc_of s) = None \<and> sup_at (proc_of s) = SupRunning \<and> poll_at s = PollTop \<and>
     pool_rests (svc_cfg svc) (pool_of (proc_of s)) \<and> groups_ready (svc_cfg svc) (ks (world_of (proc_of s))) \<and>
     (\<forall>key \<in> set priorityStreams. waiting_msgs (svc_cfg svc) (ks (world_of (proc_of s))) key = [])"

text \<open>The service after the world has changed, and after its pool and poll goroutine have.\<close>

definition in_world :: "'s \<Rightarrow> 's running \<Rightarrow> 's running" where
  "in_world w s = \<lparr>proc_of = put_world w (proc_of s), poll_at = poll_at s\<rparr>"

definition moved :: "poll_pc \<Rightarrow> 's pool \<Rightarrow> 's running \<Rightarrow> 's running" where
  "moved pc p s = \<lparr>proc_of = (proc_of s)\<lparr>pool_of := p\<rparr>, poll_at = pc\<rparr>"

lemma in_world_moved: "in_world w s = moved (poll_at s) (pool_world w (pool_of (proc_of s))) s"
  by (simp add: in_world_def moved_def put_world_def pool_world_def)

lemma moved_sels [simp]:
  "poll_at (moved pc p s) = pc" "pool_of (proc_of (moved pc p s)) = p" "exit_status (proc_of (moved pc p s)) = exit_status (proc_of s)"
  "sup_at (proc_of (moved pc p s)) = sup_at (proc_of s)" "moved pc' p' (moved pc p s) = moved pc' p' s"
  "world_of (proc_of (moved pc p s)) = world (spv p)"
  by (simp_all add: moved_def world_of_def)

abbreviation service_run :: "'s host \<Rightarrow> 's service \<Rightarrow> ('s \<Rightarrow> 's \<Rightarrow> bool) \<Rightarrow> 's running \<Rightarrow> 's running \<Rightarrow> bool" where
  "service_run h svc others \<equiv> (service_step h svc others)\<^sup>*\<^sup>*"

lemma poll_moves:
  assumes "poll_run (adapter_env h) (svc_cfg svc) (pc, p) (pc', p')" and "exit_status (proc_of s) = None"
  shows "service_run h svc others (moved pc p s) (moved pc' p' s)"
  using assms(1)
proof (induction rule: rtranclp_induct2)
  case (step pc1 p1 pc2 p2)
  have "service_step h svc others (moved pc1 p1 s) (moved pc2 p2 s)"
    using service_step.poll [of "moved pc1 p1 s" h svc pc2 p2 others] step.hyps(2) assms(2) by (simp add: moved_def)
  with step.IH show ?case by (rule rtranclp.rtrancl_into_rtrancl)
qed simp

definition inner_step :: "'w deps \<Rightarrow> Config \<Rightarrow> ('w \<Rightarrow> 'w \<Rightarrow> bool) \<Rightarrow> 'w pool \<Rightarrow> 'w pool \<Rightarrow> bool" where
  "inner_step d cfg others p p' \<longleftrightarrow> pool_step d cfg others p p' \<and> drain_at p' = drain_at p \<and> leaves_channel p p'"

lemma pool_moves:
  assumes "(inner_step (svc_deps svc) (svc_cfg svc) others)\<^sup>*\<^sup>* p p'" and "exit_status (proc_of s) = None" "sup_at (proc_of s) = SupRunning"
  shows "service_run h svc others (moved pc p s) (moved pc p' s)"
  using assms(1)
proof (induction rule: rtranclp_induct)
  case (step y z)
  have "live_step h svc others (proc_of (moved pc y s)) ((proc_of (moved pc y s))\<lparr>pool_of := z\<rparr>)"
    by (rule live_step.pool) (use step.hyps(2) assms(3) in \<open>simp_all add: inner_step_def\<close>)
  then have "service_step h svc others (moved pc y s) \<lparr>proc_of = (proc_of s)\<lparr>pool_of := z\<rparr>, poll_at = launch_poll (proc_of s) (proc_of s) pc\<rparr>"
    using service_step.proc [of h svc others "moved pc y s" "(proc_of s)\<lparr>pool_of := z\<rparr>"] step.hyps(2) assms(2)
    by (simp add: proc_step_def inner_step_def moved_def launch_poll_def)
  then have "service_step h svc others (moved pc y s) (moved pc z s)" using assms(3) by (simp add: moved_def launch_poll_def)
  with step.IH show ?case by (rule rtranclp.rtrancl_into_rtrancl)
qed simp

lemma workers_inner: "(worker_step d cfg)\<^sup>*\<^sup>* p p' \<Longrightarrow> (inner_step d cfg others)\<^sup>*\<^sup>* p p'"
proof (induction rule: rtranclp_induct)
  case (step y z)
  have "inner_step d cfg others y z" unfolding inner_step_def leaves_channel_def
    using step.hyps(2) pool_step.worker [OF step.hyps(2)]
    by cases (simp_all add: worker_start_def worker_release_def worker_exit_def worker_report_def)
  with step.IH show ?case by (rule rtranclp.rtrancl_into_rtrancl)
qed simp

text \<open>One task through the channel, the dispatch loop and a worker.\<close>

definition task_served :: "'w deps \<Rightarrow> Config \<Rightarrow> EmailTask \<Rightarrow> 'w pool \<Rightarrow> 'w pool" where
  "task_served d cfg t p = run_alone d cfg t ((dispatch_go t (p\<lparr>taskCh := []\<rparr>))\<lparr>run_at := AtSelect\<rparr>)"

lemma served_sels:
  "spv (task_served d cfg t p) = snd (processTask d cfg t ((spv p)\<lparr>sem := sem (spv p) + 1\<rparr>))"
  "ctxDone (task_served d cfg t p) = ctxDone p" "taskCh (task_served d cfg t p) = []" "run_at (task_served d cfg t p) = AtSelect"
  "launched (task_served d cfg t p) = []" "working (task_served d cfg t p) = []"
  by (simp_all add: task_served_def run_alone_processTask)
    (simp_all add: run_alone_def worker_start_def worker_release_def worker_exit_def worker_report_def dispatch_go_def Let_def split_beta)

lemma task_inner:
  assumes "run_at p = AtSelect" "taskCh p = [t]" "launched p = []" "working p = []" "sem (spv p) < capacity cfg"
  shows "(inner_step d cfg others)\<^sup>*\<^sup>* p (task_served d cfg t p)"
proof -
  let ?p1 = "p\<lparr>taskCh := [], run_at := Dispatching [t]\<rparr>"
  let ?p2 = "(dispatch_go t ?p1)\<lparr>run_at := Dispatching []\<rparr>"
  let ?p3 = "(dispatch_go t (p\<lparr>taskCh := []\<rparr>))\<lparr>run_at := AtSelect\<rparr>"
  have 1: "inner_step d cfg others p ?p1"
    using pool_step.recv [of p t "[]" d cfg others] assms by (simp add: inner_step_def leaves_channel_def)
  have 2: "inner_step d cfg others ?p1 ?p2"
    using pool_step.dispatch [of ?p1 t "[]" cfg d others] assms by (simp add: inner_step_def leaves_channel_def dispatch_go_def)
  have 3: "inner_step d cfg others ?p2 ?p3"
    using pool_step.dispatch_end [of ?p2 d cfg others] by (simp add: inner_step_def leaves_channel_def dispatch_go_def)
  have "(inner_step d cfg others)\<^sup>*\<^sup>* ?p3 (task_served d cfg t p)"
    unfolding task_served_def by (rule workers_inner [OF run_alone_steps]) (simp_all add: dispatch_go_def assms)
  with 1 2 3 show ?thesis by (meson converse_rtranclp_into_rtranclp)
qed

subsection \<open>A task on its way\<close>

lemma only_stream:
  "distinct keys \<Longrightarrow> ms \<noteq> [] \<Longrightarrow> (\<And>k. k \<in> set keys \<Longrightarrow> f k = (if k = key then ms else [])) \<Longrightarrow>
   filter (\<lambda>(_, ms). ms \<noteq> []) (map (\<lambda>k. (k, f k)) keys) = (if key \<in> set keys then [(key, ms)] else [])"
  by (induction keys) auto

lemma settled_since: "accepted w2 = accepted w1 \<Longrightarrow> settled ks mail accepted v t oc w2 w' = settled ks mail accepted v t oc w1 w'"
  by (simp add: settled_def split: option.split)

lemma poll_one:
  assumes "pool_rests cfg p" and "env_client e (read_cmd cfg) (world (spv p)) = (Inr (RStreams ss), w)" and "decoded ss = [t]"
  shows "poll_run e cfg (PollTop, p) (PollTop, (pool_world w p)\<lparr>taskCh := [t]\<rparr>)"
proof -
  note rest = assms(1) [unfolded pool_rests_def]
  have 1: "poll_step e cfg (PollTop, p) (PollRead, p)" using rest by (simp add: poll_step.top)
  have 2: "poll_step e cfg (PollRead, p) (Handing [t], pool_world w p)"
    using poll_step.read [OF assms(2), of ss] assms(3) by simp
  have 3: "poll_step e cfg (Handing [t], pool_world w p) (Handing [], (pool_world w p)\<lparr>taskCh := [t]\<rparr>)"
    using poll_step.hand [of "pool_world w p" cfg e t "[]"] rest by simp
  have 4: "poll_step e cfg (Handing [], (pool_world w p)\<lparr>taskCh := [t]\<rparr>) (PollTop, (pool_world w p)\<lparr>taskCh := [t]\<rparr>)" by (rule poll_step.handed)
  from 1 2 3 4 show ?thesis by (meson converse_rtranclp_into_rtranclp rtranclp.rtrancl_refl)
qed

context healthy_redis begin

lemma reads_one:
  assumes "up w" and ready: "groups_ready cfg (ks w)" and key: "key \<in> set priorityStreams"
    and only: "\<And>k. k \<in> set priorityStreams \<Longrightarrow> waiting_msgs cfg (ks w) k = (if k = key then [m] else [])" and msg: "taskFromMessage key m = Inr t"
  shows "\<exists>ss w'. env_client e (read_cmd cfg) w = (Inr (RStreams ss), w') \<and> decoded ss = [t] \<and> up w' \<and> read_ahead cfg 10 (ks w) (ks w') [t]"
proof -
  let ?ss = "filter (\<lambda>(_, ms). ms \<noteq> []) (map (\<lambda>key. (key, take 10 (waiting_msgs cfg (ks w) key))) priorityStreams)"
  have ss: "?ss = [(key, [m])]" using only_stream [OF distinct_streams, of "[m]" _ key] only key by simp
  have exists: "\<forall>k \<in> set priorityStreams. groups (streams (ks w) k) (ConsumerGroup (CfgWorker cfg)) \<noteq> None"
    using ready by (auto simp: groups_ready_def split: option.splits)
  then have "\<exists>k0. redis_ok (read_cmd cfg) (ks w) (RStreams [(key, [m])]) k0" using ss by (simp add: read_cmd_def)
  then obtain r w' where r: "env_client e (read_cmd cfg) w = (Inr r, w')" "redis_ok (read_cmd cfg) (ks w) r (ks w')" "up w'"
    using command [OF assms(1)] by (metis rcmd.distinct rcmd.simps read_cmd_def)
  then have "r = RStreams [(key, [m])]" using ss by (simp add: read_cmd_def)
  moreover have "decoded [(key, [m])] = [t]" by (simp add: decoded_def parsed_def msg)
  ultimately show ?thesis using r read_ahead_reply [OF ready, of "[(key, [m])]"] by metis
qed

end

context healthy_system begin

lemma rest_serves:
  assumes env: "adapter_env h = e" and svc: "svc_deps svc = redis_ports" "svc_cfg svc = cfg"
    and rest: "at_rest ks svc s" and "up (world_of (proc_of s))" and scr: "scripts_loaded scr (ks (world_of (proc_of s)))"
    and free: "strs (ks (world_of (proc_of s))) (idempotencyKey (attemptKey (ID task) (Attempt task))) = None"
    and valid: "Validate task = None" and clean: "task_clean (set_span sp task)"
    and enq: "Enqueue e sp task (world_of (proc_of s)) = ((err, task'), w1)"
  defines "t \<equiv> \<lambda>i. metadata_set metaStreamKey (QueueName (Priority task)) (metadata_set metaStreamID i (norm_task task'))"
  shows "err = None \<and> (\<exists>i s' oc. service_run h svc others (in_world w1 s) s' \<and> at_rest ks svc s' \<and> up (world_of (proc_of s')) \<and>
    \<not> pending cfg (t i) (ks (world_of (proc_of s'))) \<and> settled ks mail accepted (verdict (t i)) (t i) oc w1 (world_of (proc_of s')))"
proof -
  let ?key = "QueueName (Priority task)" and ?w = "world_of (proc_of s)" and ?p = "pool_of (proc_of s)"
  have m: "marshals task" using marshals_clean [OF clean] by simp
  obtain m w1' where "Enqueue e sp task ?w = ((None, set_span sp task), w1')" "up w1'" "carries (set_span sp task) m"
    "ks w1' = upd_stream ?key (add_entries [m]) (ks ?w)"
    using healthy_Enqueue [OF assms(5) valid m] by blast
  then have w1: "err = None" "task' = set_span sp task" "up w1" "carries task' m" "ks w1 = upd_stream ?key (add_entries [m]) (ks ?w)"
    using enq by auto
  note key = valid_stream [OF valid]
  have R: "groups_ready cfg (ks ?w)" "\<forall>k \<in> set priorityStreams. waiting_msgs cfg (ks ?w) k = []" "pool_rests cfg ?p"
    "exit_status (proc_of s) = None" "sup_at (proc_of s) = SupRunning" "poll_at s = PollTop"
    using rest svc by (simp_all add: at_rest_def)
  let ?t = "t (MsgID m)"
  have msg: "taskFromMessage ?key m = Inr ?t" using taskFromMessage_carried [OF clean] w1(2,4) by (simp add: t_def)
  have ready: "groups_ready cfg (ks w1)" using ready_append(1) [OF R(1) key] by (simp add: w1(5))
  have only: "waiting_msgs cfg (ks w1) k = (if k = ?key then [m] else [])" if "k \<in> set priorityStreams" for k
    using that R(2) ready_append(2) [OF R(1) key, of m] key by (auto simp: w1(5) upd_stream_def)
  obtain ss w2 where r: "env_client e (read_cmd cfg) w1 = (Inr (RStreams ss), w2)" "decoded ss = [?t]" "up w2" "read_ahead cfg 10 (ks w1) (ks w2) [?t]"
    using reads_one [OF w1(3) ready key only msg] by blast
  let ?p1 = "pool_world w1 ?p" and ?q = "(pool_world w2 ?p)\<lparr>taskCh := [?t]\<rparr>"
  let ?p' = "task_served redis_ports cfg ?t ?q"
  have "poll_run e cfg (PollTop, ?p1) (PollTop, ?q)"
    using poll_one [of cfg ?p1 e ss w2 ?t] R(3) r(1,2) by (simp add: pool_rests_def pool_world_def)
  then have "service_run h svc others (in_world w1 s) (moved PollTop ?q s)"
    using poll_moves [of h svc PollTop ?p1 PollTop ?q s others] R(4,6) by (simp add: env svc in_world_moved)
  moreover have "service_run h svc others (moved PollTop ?q s) (moved PollTop ?p' s)"
    by (rule pool_moves) (use R(3-5) in \<open>simp_all add: svc task_inner pool_rests_def pool_world_def\<close>)
  ultimately have run: "service_run h svc others (in_world w1 s) (moved PollTop ?p' s)" by (rule rtranclp_trans)
  let ?st = "(spv ?q)\<lparr>sem := sem (spv ?q) + 1\<rparr>"
  obtain oc u st' where proc: "processTask redis_ports cfg ?t ?st = ((oc, u), st')" by (metis prod.exhaust)
  have w': "spv ?p' = st'" using proc by (simp add: served_sels)
  have off: "off_streams (ks w2) = off_streams (ks ?w)" using r(4) by (simp add: read_ahead_def w1(5))
  have "up (world st') \<and> \<not> pending cfg ?t (ks (world st')) \<and> settled ks mail accepted (verdict ?t) ?t oc w2 (world st')"
    using healthy_process [OF _ _ _ _ proc] r(3) off_streamsD [OF off] scr free m
    by (simp add: scripts_loaded_def t_def w1(2) stamped_sels)
  moreover have "accepted w2 = accepted w1" using acc_client [OF r(1)] .
  moreover have "at_rest ks svc (moved PollTop ?p' s)"
  proof -
    have same: "same_reads (ks w2) (ks (world st'))" using task_same_reads [OF proc] by simp
    have "sem st' = sem (spv ?p)" using processTask_counters [where d = redis_ports and cfg = cfg and task = ?t and st = ?st] proc by (simp add: pool_world_def)
    then have "pool_rests cfg ?p'" using R(3) by (simp add: pool_rests_def served_sels(2-) w')
    moreover have "groups_ready cfg (ks w2)" "\<forall>k \<in> set priorityStreams. waiting_msgs cfg (ks w2) k = []"
      using r(4) only by (simp_all add: read_ahead_def)
    ultimately show ?thesis using R(4,5) same_reads_ready [OF same] same_reads_waiting [OF same] by (simp add: at_rest_def svc w')
  qed
  ultimately show ?thesis using run w1(1) w' settled_since [of accepted w2 w1]
    by (intro conjI exI [of _ "MsgID m"] exI [of _ "moved PollTop ?p' s"] exI [of _ oc]) simp_all
qed

end

lemma chain_in_world:
  assumes "chain e P (world_of (proc_of s)) w" and "exit_status (proc_of s) = None" and "sup_at (proc_of s) = SupRunning"
  shows "service_run h svc (sends e P) s (in_world w s)"
  using assms(1)
proof (induction rule: rtranclp_induct)
  case base
  then show ?case by (cases s) (simp add: in_world_def put_world_def world_of_def)
next
  case (step y z)
  have "live_step h svc (sends e P) (proc_of (in_world y s)) (put_world z (proc_of (in_world y s)))"
    by (rule live_step.elsewhere) (use step.hyps(2) in \<open>simp add: in_world_def world_of_def put_world_def\<close>)
  then have "service_step h svc (sends e P) (in_world y s) (in_world z s)"
    using service_step.proc [of h svc "sends e P" "in_world y s" "put_world z (proc_of (in_world y s))"] assms(2,3)
    by (simp add: proc_step_def leaves_channel_def launch_poll_def in_world_def put_world_def)
  with step.IH show ?case by (rule rtranclp.rtrancl_into_rtrancl)
qed

subsection \<open>Properties\<close>

text \<open>C4: The running service delivers: while Redis answers, a booted service that is at rest can take a valid task from \<open>Enqueue\<close> (which
  returns nil) through its poll goroutine, the channel, the dispatch loop and a worker, until its message is acknowledged and
  the task is where the answer of the provider sends it; and then it is at rest again, ready for the next. (Valid: it passes validation, JSON
  can carry it, and nobody has locked its attempt.)\<close>

theorem resting_service_delivers:
  assumes "host_laws h ks" and "main_boot h w = (Up svc, w')"
    and "healthy_system (adapter_env h) ks up (svc_cfg svc) (sender (svc_deps svc)) mail accepted verdict"
    and "\<And>v. ks (snd (lib_Close (lib_redis h) (svc_redis svc) v)) = ks v"
    and "service_reachable h svc (sends (adapter_env h) (\<lambda>_. True)) s" and "at_rest ks svc s" and "up (world_of (proc_of s))"
    and "strs (ks (world_of (proc_of s))) (idempotencyKey (attemptKey (ID task) (Attempt task))) = None"
    and "Validate task = None" and "task_clean (set_span sp task)"
    and "Enqueue (adapter_env h) sp task (world_of (proc_of s)) = ((err, task'), w1)"
  shows "err = None \<and> (service_step h svc (sends (adapter_env h) (\<lambda>_. True)))\<^sup>*\<^sup>* s (in_world w1 s) \<and>
    (\<exists>i t s' oc. t = metadata_set metaStreamKey (QueueName (Priority task)) (metadata_set metaStreamID i (norm_task task')) \<and>
      (service_step h svc (sends (adapter_env h) (\<lambda>_. True)))\<^sup>*\<^sup>* (in_world w1 s) s' \<and>
      at_rest ks svc s' \<and> up (world_of (proc_of s')) \<and>
      \<not> pending (svc_cfg svc) t (ks (world_of (proc_of s'))) \<and>
      settled ks mail accepted (verdict t) t oc w1 (world_of (proc_of s')))"
proof -
  have sys: "redis_system (adapter_env h) ks (svc_cfg svc) (sender (svc_deps svc)) mail accepted"
    using assms(3) by (simp add: healthy_system_def)
  note deps = booted_deps [OF assms(1,2)]
  have "scripts_loaded (svc_scripts svc) (ks w')" "world (svc_supervisor svc) = w'"
    using host_laws.main_boot_up [OF assms(1,2)] NewSupervisor_idle [OF deps(2)] by simp_all
  then have scr: "scripts_loaded (svc_scripts svc) (ks (world_of (proc_of s)))"
    using redis_system.service_keeps_scripts [OF sys assms(5) [unfolded service_reachable_def] refl deps(1) refl assms(4)]
    by (simp add: keeps_scripts_def)
  have "chain (adapter_env h) (\<lambda>_. True) (world_of (proc_of s)) w1" using anything.Enqueue_chain assms(11) by (metis snd_conv)
  then have "service_run h svc (sends (adapter_env h) (\<lambda>_. True)) s (in_world w1 s)"
    by (rule chain_in_world) (use assms(6) in \<open>simp_all add: at_rest_def\<close>)
  then show ?thesis
    using healthy_system.rest_serves [OF assms(3) refl deps(1) refl assms(6,7) scr assms(8-11), of "sends (adapter_env h) (\<lambda>_. True)"] by blast
qed

subsection \<open>Witnesses\<close>

text \<open>In memory: no fault is due, SendGrid answers 202 and the breaker is closed.\<close>

definition http_healthy :: "'a mem_http_scheme \<Rightarrow> bool" where
  "http_healthy w \<longleftrightarrow> mem_healthy w \<and> mem_answers w = [] \<and> openUntil (mem_breaker w) = zero_time"

definition sendgrid_verdict :: "SendGridSender \<Rightarrow> EmailTask \<Rightarrow> go_error option" where
  "sendgrid_verdict sg t = (case buildRequestBody sg t of Inl er \<Rightarrow> Some (EWrap ''sendgrid: build request'' er) | Inr _ \<Rightarrow> None)"

lemma mem_client_http: "mem_client resend c w = (r, w') \<Longrightarrow> mem_answers w' = mem_answers w \<and> mem_breaker w' = mem_breaker w"
  by (auto simp: mem_client_def Let_def split: prod.splits)

interpretation http_live: healthy_redis "worker_env resend" mem_ks http_healthy for resend
proof unfold_locales
  fix w :: "'a mem_http_scheme" and c r0 k0
  assume "http_healthy w" "redis_ok c (mem_ks w) r0 k0" "\<And>s. c \<noteq> SCRIPT_LOAD s"
  then show "\<exists>r w'. env_client (worker_env resend) c w = (Inr r, w') \<and> redis_ok c (mem_ks w) r (mem_ks w') \<and> http_healthy w'"
    using mem_answers [of w c r0 k0 resend] mem_client_http [of resend c w] by (fastforce simp: http_healthy_def)
next
  fix w :: "'a mem_http_scheme" and c
  assume "http_healthy w" "\<And>r k. \<not> redis_ok c (mem_ks w) r k"
  then show "\<exists>er w'. env_client (worker_env resend) c w = (Inl er, w') \<and> mem_ks w' = mem_ks w \<and> http_healthy w'"
    using mem_refuses [of w c resend] mem_client_http [of resend c w] by (fastforce simp: http_healthy_def)
qed (auto simp: http_healthy_def mem_healthy_def)

lemma http_answered:
  "http_healthy w \<Longrightarrow> \<exists>w'. port_Send (SendGridEmailSender (worker_env resend) mem_http_env sg) t w = (Returned (sendgrid_verdict sg t), w') \<and> http_healthy w'"
  by (auto simp: SendGridEmailSender_def returned_def Send_def breaker_Allow_def Allow_def mem_http_env_def mem_do_def Send_response_def status_2xx_def
      sendgrid_verdict_def breaker_RecordSuccess_def RecordSuccess_def http_healthy_def mem_healthy_def Let_def split: sum.splits)

text \<open>A boot touches none of that.\<close>

definition mem_calm :: "mem_http \<Rightarrow> bool" where
  "mem_calm w \<longleftrightarrow> mem_ctx w = None \<and> time_in_range (mem_clock w) \<and> mem_answers w = [] \<and> openUntil (mem_breaker w) = zero_time"

lemma calm_client: "mem_client resend c w = (r, w') \<Longrightarrow> mem_calm w' = mem_calm w"
  by (auto simp: mem_client_def mem_calm_def Let_def split: prod.splits)

lemma LoadScripts_calm: "LoadScripts (worker_env resend) w = (r, w') \<Longrightarrow> mem_calm w \<Longrightarrow> mem_calm w'"
  by (auto simp: LoadScripts_def Let_def split: prod.splits sum.splits dest!: calm_client)

lemma main_boot_calm:
  assumes "main_boot (mem_host os) w = (Up svc, w')" and "mem_calm w"
  shows "mem_calm w'"
proof -
  have sender: "mem_calm s'" if "choose_sender (mem_host os) c s = (snd', s')" "mem_calm s" for c snd' and s s' :: mem_http
    using that by (auto simp: choose_sender_def NewSendGridSender_def newCircuitBreaker_def mem_host_def mem_http_env_def mem_calm_def split: if_splits)
  have wired: "mem_calm s'" if "wire (mem_host os) c tr opts scr s = (Up svc, s')" "mem_calm s" for c tr opts scr and s s' :: mem_http
    using that sender by (auto simp: wire_def mem_host_def split: prod.splits option.splits)
  have tracer: "\<exists>tr. InitTracer (mem_host os) c s = (tr, s)" for c and s :: mem_http by (simp add: InitTracer_def mem_host_def)
  have client: "NewRedisClient (lib_redis (mem_host os)) c s = (Inr (client_options c), s)" for c and s :: mem_http
    by (simp add: NewRedisClient_def registerPoolMetrics_def mem_host_def)
  have env: "adapter_env (mem_host os) = worker_env True" by (simp add: mem_host_def)
  obtain c where c: "Load os = Inr c" using assms(1) by (auto simp: main_boot_def mem_host_def split: sum.splits)
  obtain t where t: "InitTracer (mem_host os) c w = (t, w)" using tracer by blast
  obtain sc s3 where sc: "LoadScripts (worker_env True) w = (sc, s3)" by fastforce
  have os: "process_env (mem_host os) = os" by (simp add: mem_host_def)
  obtain tr scr where "wire (mem_host os) c tr (client_options c) scr s3 = (Up svc, w')" "sc = Inr scr"
    using assms(1) by (auto simp: main_boot_def os c t client env sc split: sum.splits option.splits)
  then show ?thesis using LoadScripts_calm [OF sc assms(2)] wired by blast
qed

text \<open>The groups exist and nothing is in the streams.\<close>

definition rest_ks :: keyspace where
  "rest_ks = empty_ks\<lparr>streams := (\<lambda>key. \<lparr>entries = [], groups = [''email-workers'' \<mapsto> \<lparr>last_read = 0, pel = (\<lambda>_. None)\<rparr>]\<rparr>)\<rparr>"

lemma rest_service:
  obtains svc w sg s where "sendgrid_on rest_ks svc w sg"
    and "healthy_system (adapter_env live_host) mem_ks http_healthy (svc_cfg svc) (sender (svc_deps svc)) (sendgrid_mail sg) mem_confirmed (sendgrid_verdict sg)"
    and "\<forall>others. service_reachable live_host svc others s" and "at_rest mem_ks svc s" and "http_healthy (world_of (proc_of s))"
    and "strs (mem_ks (world_of (proc_of s))) = (\<lambda>_. None)"
proof -
  obtain svc w sg where up: "sendgrid_on rest_ks svc w sg"
    and sys: "redis_system (adapter_env live_host) mem_ks (svc_cfg svc) (sender (svc_deps svc)) (sendgrid_mail sg) mem_confirmed"
    and deps: "svc_deps svc = worker_ports (svc_cfg svc) (sender (svc_deps svc))" and u: "mem_up (svc_cfg svc) rest_ks svc"
    and idle: "\<not> ClaimIdleThreshold (CfgWorker (svc_cfg svc)) <=s 0" and g: "ConsumerGroup (CfgWorker (svc_cfg svc)) = ''email-workers''"
    and free: "sem (svc_supervisor svc) = 0" "0 < capacity (svc_cfg svc)"
    by (rule sendgrid_boots)
  note ks = mem_up_world [OF u]
  have env: "adapter_env live_host = worker_env True" by (simp add: mem_host_def)
  have sg: "sender (svc_deps svc) = SendGridEmailSender (worker_env True) mem_http_env sg" using up by (simp add: sendgrid_on_def)
  have "world (svc_supervisor svc) = w"
    using NewSupervisor_idle [OF booted_deps(2) [OF mem_host.host_laws_axioms sendgrid_onD [OF up]]] by simp
  moreover have "mem_calm w"
    by (rule main_boot_calm [OF sendgrid_onD [OF up]])
      (simp add: mem_calm_def http_world_def newCircuitBreaker_def time_in_range_def time_unix_def)
  ultimately have "http_healthy (world (svc_supervisor svc))"
    using ks by (simp add: http_healthy_def mem_healthy_def mem_calm_def numbered_def rest_ks_def)
  moreover obtain st ms where run: "Run_start (svc_deps svc) (svc_cfg svc) (svc_supervisor svc) = (Started, st)"
    and st: "world st = (world (svc_supervisor svc))\<lparr>mem_metrics := ms\<rparr>"
    using ready_starts [of "svc_supervisor svc" "svc_cfg svc" "sender (svc_deps svc)"] idle g deps ks by (fastforce simp: rest_ks_def)
  ultimately have healthy: "http_healthy (world st)" by (simp add: http_healthy_def mem_healthy_def)
  let ?s = "\<lparr>proc_of = (put_spv st (start_proc svc))\<lparr>sup_at := SupRunning\<rparr>, poll_at = PollTop\<rparr>"
  have world: "world_of (proc_of ?s) = world st" by (simp add: world_of_def put_spv_def)
  have "sem st = 0" using arg_cong [where f = sem, OF Run_start_world [OF run]] free by simp
  then have "pool_rests (svc_cfg svc) (pool_of (proc_of ?s))"
    using free by (simp add: pool_rests_def put_spv_def start_proc_def new_pool_def)
  moreover have "groups_ready (svc_cfg svc) (mem_ks (world st))" "waiting_msgs (svc_cfg svc) (mem_ks (world st)) key = []" for key
    by (simp_all add: st ks rest_ks_def groups_ready_def unread_def g)
  ultimately have "at_rest mem_ks svc ?s" unfolding at_rest_def world by (simp add: put_spv_def start_proc_def)
  moreover have "healthy_system (adapter_env live_host) mem_ks http_healthy (svc_cfg svc) (sender (svc_deps svc)) (sendgrid_mail sg) mem_confirmed (sendgrid_verdict sg)"
    unfolding healthy_system_def healthy_system_axioms_def sg
    using sys http_live.healthy_redis_axioms http_answered by (auto simp: env sg)
  moreover have "strs (mem_ks (world st)) = (\<lambda>_. None)" by (simp add: st ks rest_ks_def empty_ks_def)
  ultimately show ?thesis using up healthy started_reachable [OF run] world by (intro that [of svc w sg ?s]) simp_all
qed

lemma plain_verdict: "TemplateData t = None \<Longrightarrow> sendgrid_verdict sg t = None"
  by (simp add: sendgrid_verdict_def buildRequestBody_def)

theorem resting_service_delivers_witness:
  "\<exists>svc w sg s s' w1 t. sendgrid_on rest_ks svc w sg \<and> at_rest mem_ks svc s \<and>
     (service_step live_host svc (sends (adapter_env live_host) (\<lambda>_. True)))\<^sup>*\<^sup>* (in_world w1 s) s' \<and> at_rest mem_ks svc s' \<and>
     mem_confirmed (world_of (proc_of s')) = mem_confirmed w1 @ [sendgrid_mail sg t]"
proof -
  obtain svc w sg s where up: "sendgrid_on rest_ks svc w sg"
    and sys: "healthy_system (adapter_env live_host) mem_ks http_healthy (svc_cfg svc) (sender (svc_deps svc)) (sendgrid_mail sg) mem_confirmed (sendgrid_verdict sg)"
    and s: "\<forall>others. service_reachable live_host svc others s" "at_rest mem_ks svc s" "http_healthy (world_of (proc_of s))"
    and free: "strs (mem_ks (world_of (proc_of s))) = (\<lambda>_. None)"
    by (rule rest_service)
  have close: "mem_ks (snd (lib_Close (lib_redis live_host) (svc_redis svc) v)) = mem_ks v" for v by (simp add: mem_host_def)
  have clean: "task_clean (set_span None sample_task)" using sample_valid(2) by (simp add: set_span_def)
  obtain w1 where enq: "Enqueue (adapter_env live_host) None sample_task (world_of (proc_of s)) = ((None, set_span None sample_task), w1)"
    using http_live.healthy_Enqueue [OF s(3) sample_valid(1) marshals_clean [OF sample_valid(2)], of True None] by (auto simp: mem_host_def)
  have unlocked: "strs (mem_ks (world_of (proc_of s))) k = None" for k by (simp add: free)
  obtain i s' oc where run: "(service_step live_host svc (sends (adapter_env live_host) (\<lambda>_. True)))\<^sup>*\<^sup>* (in_world w1 s) s'" "at_rest mem_ks svc s'"
    and result: "settled mem_ks (sendgrid_mail sg) mem_confirmed
        (sendgrid_verdict sg (metadata_set metaStreamKey (QueueName (Priority sample_task)) (metadata_set metaStreamID i (norm_task (set_span None sample_task)))))
        (metadata_set metaStreamKey (QueueName (Priority sample_task)) (metadata_set metaStreamID i (norm_task (set_span None sample_task)))) oc w1 (world_of (proc_of s'))"
    using resting_service_delivers [OF mem_host.host_laws_axioms sendgrid_onD [OF up] sys close s(1) [rule_format] s(2,3) unlocked sample_valid(1) clean enq]
    by blast
  let ?t = "metadata_set metaStreamKey (QueueName (Priority sample_task)) (metadata_set metaStreamID i (norm_task (set_span None sample_task)))"
  have "TemplateData ?t = None" by (simp add: metadata_set_def norm_task_def norm_map_def set_span_def)
  then have "mem_confirmed (world_of (proc_of s')) = mem_confirmed w1 @ [sendgrid_mail sg ?t]"
    using result by (simp add: plain_verdict settled_def)
  with up s(2) run show ?thesis by blast
qed

end
