(* ===== verification/Lock_Race.thy ===== *)
theory Lock_Race
  imports Dedup
begin

text \<open>
  Several workers, on any number of machines, racing for the same attempt of a task: every
  interleaving of their calls of the idempotency store, with lost and repeated commands, with redelivery, with the
  passing of time and with the expiry of the key. The calls are those that \<open>processTask\<close> makes, in its order. The relation allows more than can
  happen: the mark of a completed attempt may expire at any time, and \<open>other\<close> may set the clock. That makes what holds of all its runs
  stronger; what is shown of single steps (\<open>late_clear_breaks_lock\<close>) uses neither.
\<close>

text \<open>
  \<open>Inside t\<close>: past the gate since second \<open>t\<close> of the clock, which is where the provider is called;
  \<open>Refused\<close> and \<open>NotDone\<close> are between the three calls of the gate.
\<close>

datatype phase = Queued | Refused | NotDone | Inside int | Outside

record 's race =
  store :: 's
  phase :: "nat \<Rightarrow> phase"

definition now_of :: "'s env \<Rightarrow> 's \<Rightarrow> int" where
  "now_of e w = time_unix (fst (time_now e w))"

definition move :: "nat \<Rightarrow> phase \<Rightarrow> 's \<Rightarrow> 's race \<Rightarrow> 's race" where
  "move i p w s = s\<lparr>store := w, phase := (phase s)(i := p)\<rparr>"

inductive race_step ::
  "'s env \<Rightarrow> ('s \<Rightarrow> keyspace) \<Rightarrow> Config \<Rightarrow> ScriptRegistry \<Rightarrow> string \<Rightarrow> (nat \<Rightarrow> string) \<Rightarrow> 's race \<Rightarrow> 's race \<Rightarrow> bool"
  for e ks cfg scr k name where
  acquire: "phase s i = Queued \<Longrightarrow> SetProcessing e cfg scr k (name i) (store s) = ((a, er), w) \<Longrightarrow>
    race_step e ks cfg scr k name s (move i (if a then Inside (now_of e (store s)) else Refused) w s)"
| check: "phase s i = Refused \<Longrightarrow> IsCompleted e k (store s) = ((b, er), w) \<Longrightarrow>
    race_step e ks cfg scr k name s (move i (if b then Outside else NotDone) w s)"
| reclaim: "phase s i = NotDone \<Longrightarrow>
    TryReclaimStale e cfg scr k (name i) (ClaimIdleThreshold (CfgWorker cfg)) (store s) = ((a, er), w) \<Longrightarrow>
    race_step e ks cfg scr k name s (move i (if a then Inside (now_of e (store s)) else Outside) w s)"
| complete: "phase s i = Inside t \<Longrightarrow> SetCompleted e cfg k (store s) = (er, w) \<Longrightarrow>
    race_step e ks cfg scr k name s (move i Outside w s)"
| clear: "phase s i = Inside t \<Longrightarrow> ClearProcessing e k (store s) = (er, w) \<Longrightarrow>
    race_step e ks cfg scr k name s (move i Outside w s)"
| leave: "phase s i = Inside t \<Longrightarrow> race_step e ks cfg scr k name s (move i Outside (store s) s)"
| redeliver: "phase s i = Outside \<Longrightarrow> race_step e ks cfg scr k name s (move i Queued (store s) s)"
| expire: "lock_at k (ks (store s)) = Done \<or>
      (\<exists>n t. lock_at k (ks (store s)) = Held n t \<and> sint (DLQTTLSeconds (CfgRetry cfg)) \<le> now_of e (store s) - t) \<Longrightarrow>
    ks w = (ks (store s))\<lparr>strs := (strs (ks (store s)))(idempotencyKey k := None)\<rparr> \<Longrightarrow>
    race_step e ks cfg scr k name s (s\<lparr>store := w\<rparr>)"
| other: "strs (ks w) (idempotencyKey k) = strs (ks (store s)) (idempotencyKey k) \<Longrightarrow>
    scripts (ks w) = scripts (ks (store s)) \<Longrightarrow> race_step e ks cfg scr k name s (s\<lparr>store := w\<rparr>)"

text \<open>Nobody stays past the gate for as long as the idle threshold.\<close>

definition timely :: "'s env \<Rightarrow> Config \<Rightarrow> 's race \<Rightarrow> bool" where
  "timely e cfg s \<longleftrightarrow>
     (\<forall>i t. phase s i = Inside t \<longrightarrow> now_of e (store s) - t < max_age_secs (ClaimIdleThreshold (CfgWorker cfg)))"

definition timely_step ::
  "'s env \<Rightarrow> ('s \<Rightarrow> keyspace) \<Rightarrow> Config \<Rightarrow> ScriptRegistry \<Rightarrow> string \<Rightarrow> (nat \<Rightarrow> string) \<Rightarrow> 's race \<Rightarrow> 's race \<Rightarrow> bool" where
  "timely_step e ks cfg scr k name s s' \<longleftrightarrow> timely e cfg s \<and> race_step e ks cfg scr k name s s'"

definition start_race :: "'s \<Rightarrow> 's race" where
  "start_race w = \<lparr>store = w, phase = (\<lambda>_. Queued)\<rparr>"

definition race_inv :: "('s \<Rightarrow> keyspace) \<Rightarrow> ScriptRegistry \<Rightarrow> string \<Rightarrow> (nat \<Rightarrow> string) \<Rightarrow> 's race \<Rightarrow> bool" where
  "race_inv ks scr k name s \<longleftrightarrow>
     scripts_loaded scr (ks (store s)) \<and> lock_at k (ks (store s)) \<noteq> Foreign \<and>
     (\<forall>i t. phase s i = Inside t \<longrightarrow>
        lock_at k (ks (store s)) = Held (name i) t \<and> (\<forall>j u. phase s j = Inside u \<longrightarrow> j = i))"

lemma race_invE:
  assumes "race_inv ks scr k name s" and "phase s i = Inside t"
  shows "lock_at k (ks (store s)) = Held (name i) t" "\<And>j u. phase s j = Inside u \<Longrightarrow> j = i"
  using assms by (auto simp: race_inv_def)

lemma scripts_same_but: "same_but_str key k k' \<Longrightarrow> scripts_loaded scr k' = scripts_loaded scr k"
  using same_but_str_scripts [of key k k'] by (simp add: scripts_loaded_def)

text \<open>A worker that gets inside when nobody is, and one that goes out, keep the invariant.\<close>

lemma race_inv_enter:
  assumes "scripts_loaded scr (ks w)" and "lock_at k (ks w) = Held (name i) t"
    and "\<And>j u. phase s j \<noteq> Inside u"
  shows "race_inv ks scr k name (move i (Inside t) w s)"
  using assms by (auto simp: race_inv_def move_def)

lemma race_inv_outside:
  assumes "scripts_loaded scr (ks w)" and "lock_at k (ks w) \<noteq> Foreign"
    and "race_inv ks scr k name s" and "\<And>t. p \<noteq> Inside t"
    and "\<And>j u. j \<noteq> i \<Longrightarrow> phase s j = Inside u \<Longrightarrow> lock_at k (ks w) = lock_at k (ks (store s))"
  shows "race_inv ks scr k name (move i p w s)"
  using assms unfolding race_inv_def move_def by simp metis

context redis_env begin

lemma acquire_keeps:
  assumes inv: "race_inv ks scr k name s" and pos: "0 < sint (DLQTTLSeconds (CfgRetry cfg))"
    and q: "phase s i = Queued" and c: "SetProcessing e cfg scr k (name i) (store s) = ((a, er), w)"
  shows "race_inv ks scr k name (move i (if a then Inside (now_of e (store s)) else Refused) w s)"
proof -
  have l: "scripts_loaded scr (ks (store s))" "lock_at k (ks (store s)) \<noteq> Foreign" using inv by (simp_all add: race_inv_def)
  from SetProcessing_spec [OF l pos c] obtain now where n: "now = now_of e (store s)"
    and sb: "same_but_str (idempotencyKey k) (ks (store s)) (ks w)"
    and lk: "lock_at k (ks w) \<in> {lock_at k (ks (store s)), snd (lock_acquire (name i) now (lock_at k (ks (store s))))}"
    and ok: "a \<longrightarrow> lock_at k (ks (store s)) = Free \<and> lock_at k (ks w) = Held (name i) now"
    unfolding now_of_def by blast
  have sc: "scripts_loaded scr (ks w)" using l(1) scripts_same_but [OF sb] by simp
  show ?thesis
  proof (cases a)
    case True
    then have "phase s j \<noteq> Inside u" for j u using race_invE(1) [OF inv, of j u] ok by auto
    then show ?thesis using race_inv_enter [of scr ks w k name i now s] sc ok True n by simp
  next
    case False
    have "race_inv ks scr k name (move i Refused w s)"
      by (rule race_inv_outside [OF sc _ inv])
        (use lk l(2) race_invE(1) [OF inv] in \<open>auto simp: lock_acquire_def split: if_splits\<close>)
    then show ?thesis using False by simp
  qed
qed

lemma reclaim_keeps:
  assumes inv: "race_inv ks scr k name s" and pos: "0 < sint (DLQTTLSeconds (CfgRetry cfg))"
    and tm: "timely e cfg s" and q: "phase s i = NotDone"
    and c: "TryReclaimStale e cfg scr k (name i) (ClaimIdleThreshold (CfgWorker cfg)) (store s) = ((a, er), w)"
  shows "race_inv ks scr k name (move i (if a then Inside (now_of e (store s)) else Outside) w s)"
proof -
  let ?age = "max_age_secs (ClaimIdleThreshold (CfgWorker cfg))"
  have l: "scripts_loaded scr (ks (store s))" "lock_at k (ks (store s)) \<noteq> Foreign" using inv by (simp_all add: race_inv_def)
  from TryReclaimStale_spec [OF l pos c] obtain now where n: "now = now_of e (store s)"
    and sb: "same_but_str (idempotencyKey k) (ks (store s)) (ks w)"
    and lk: "lock_at k (ks w) \<in> {lock_at k (ks (store s)), snd (lock_reclaim (name i) now ?age (lock_at k (ks (store s))))}"
    and ok: "a \<longrightarrow> (\<exists>w0 t0. lock_at k (ks (store s)) = Held w0 t0 \<and> ?age \<le> now - t0) \<and> lock_at k (ks w) = Held (name i) now"
    unfolding now_of_def by blast
  have sc: "scripts_loaded scr (ks w)" using l(1) scripts_same_but [OF sb] by simp
  have young: "now - u < ?age" if "phase s j = Inside u" for j u using tm that n by (auto simp: timely_def)
  show ?thesis
  proof (cases a)
    case True
    then have "phase s j \<noteq> Inside u" for j u using race_invE(1) [OF inv, of j u] ok young [of j u] by auto
    then show ?thesis using race_inv_enter [of scr ks w k name i now s] sc ok True n by simp
  next
    case False
    have "lock_at k (ks w) = lock_at k (ks (store s))" if "phase s j = Inside u" for j u
      using lk race_invE(1) [OF inv that] young [OF that] by (auto simp: lock_reclaim_def)
    moreover have "lock_at k (ks w) \<noteq> Foreign" using lk l(2) by (auto simp: lock_reclaim_def split: lock.splits if_splits)
    ultimately have "race_inv ks scr k name (move i Outside w s)" by (intro race_inv_outside [OF sc _ inv]) auto
    then show ?thesis using False by simp
  qed
qed

text \<open>A worker that is inside is the only one, so whatever it does to the key concerns no other.\<close>

lemma exit_keeps:
  assumes inv: "race_inv ks scr k name s" and q: "phase s i = Inside t"
    and "scripts_loaded scr (ks w)" and "lock_at k (ks w) \<noteq> Foreign"
  shows "race_inv ks scr k name (move i Outside w s)"
  by (rule race_inv_outside [OF assms(3,4) inv]) (use race_invE(2) [OF inv q] in auto)

lemma SetCompleted_lock:
  assumes "SetCompleted e cfg k s = (er, s')"
  shows "lock_at k (ks s') \<in> {lock_at k (ks s), Done}"
proof -
  obtain now t where "strs (ks s') (idempotencyKey k) \<in>
      {strs (ks s) (idempotencyKey k), Some (Doc (idem_json (completed_record now)), t)}"
    using SetCompleted_spec [OF assms] by blast
  then show ?thesis
    using lock_of_completed [of "completed_record now"] by (auto simp: lock_of_def completed_record_def)
qed

lemma race_step_keeps:
  assumes "race_step e ks cfg scr k name s s'" and inv: "race_inv ks scr k name s" and "timely e cfg s"
    and pos: "0 < sint (DLQTTLSeconds (CfgRetry cfg))"
    and ttl: "max_age_secs (ClaimIdleThreshold (CfgWorker cfg)) \<le> sint (DLQTTLSeconds (CfgRetry cfg))"
  shows "race_inv ks scr k name s'"
  using assms(1)
proof (cases rule: race_step.cases)
  case (acquire i a er w)
  then show ?thesis using acquire_keeps [OF inv pos] by simp
next
  case (check i b er w)
  then have "ks w = ks (store s)" using IsCompleted_frame by blast
  then show ?thesis using check inv by (auto simp: race_inv_def move_def)
next
  case (reclaim i a er w)
  then show ?thesis using reclaim_keeps [OF inv pos assms(3)] by simp
next
  case (complete i t er w)
  have "scripts_loaded scr (ks w)" "lock_at k (ks w) \<noteq> Foreign"
    using SetCompleted_spec [OF complete(3)] SetCompleted_lock [OF complete(3)] inv scripts_same_but
    by (auto simp: race_inv_def)
  then show ?thesis using complete exit_keeps [OF inv] by simp
next
  case (clear i t er w)
  have "scripts_loaded scr (ks w)" "lock_at k (ks w) \<noteq> Foreign"
    using ClearProcessing_spec [OF clear(3)] inv scripts_same_but by (auto simp: race_inv_def lock_of_def)
  then show ?thesis using clear exit_keeps [OF inv] by simp
next
  case (leave i t)
  then show ?thesis using inv by (auto simp: race_inv_def move_def)
next
  case (redeliver i)
  then show ?thesis using inv by (auto simp: race_inv_def move_def)
next
  case (expire w)
  have "phase s j \<noteq> Inside u" for j u
    using expire(2) race_invE(1) [OF inv, of j u] assms(3) ttl by (fastforce simp: timely_def)
  then show ?thesis using expire inv by (simp add: race_inv_def scripts_loaded_def lock_of_def)
next
  case (other w)
  then show ?thesis using inv by (simp add: race_inv_def scripts_loaded_def lock_of_def)
qed

lemma race_run_keeps:
  assumes "(timely_step e ks cfg scr k name)\<^sup>*\<^sup>* s s'" and "race_inv ks scr k name s"
    and "0 < sint (DLQTTLSeconds (CfgRetry cfg))"
    and "max_age_secs (ClaimIdleThreshold (CfgWorker cfg)) \<le> sint (DLQTTLSeconds (CfgRetry cfg))"
  shows "race_inv ks scr k name s'"
  using assms by (induction rule: rtranclp_induct) (auto simp: timely_step_def intro: race_step_keeps)

end

subsection \<open>A race in memory\<close>

definition race_world :: "(jtext \<times> int option) option \<Rightarrow> int \<Rightarrow> mem_world" where
  "race_world v c =
     (sample_world (\<lambda>x. if x = idempotencyKey ''t#0'' then v else None) [])\<lparr>mem_clock := c * 1000000000\<rparr>"

abbreviation held_by :: "string \<Rightarrow> int \<Rightarrow> (jtext \<times> int option) option" where
  "held_by n c \<equiv> Some (processing_payload n (show_int c), Some 604800)"

abbreviation race_names :: "nat \<Rightarrow> string" where
  "race_names i \<equiv> (if i = 0 then ''w0'' else if i = 1 then ''w1'' else ''w2'')"

abbreviation mem_race :: "mem_world race \<Rightarrow> mem_world race \<Rightarrow> bool" where
  "mem_race \<equiv> race_step (mem_env True) mem_ks sample_config sample_scripts ''t#0'' race_names"

lemma now_of_race [simp]: "now_of (mem_env True) (race_world v c) = c"
  by (simp add: now_of_def race_world_def time_unix_def)

lemma race_world_ks:
  "strs (mem_ks (race_world v c)) = (\<lambda>x. if x = idempotencyKey ''t#0'' then v else None)"
  "scripts (mem_ks (race_world v c)) = [''sha-idem'' \<mapsto> IdempotencyLua, ''sha-reclaim'' \<mapsto> ReclaimStaleLua]"
  by (simp_all add: race_world_def sample_world_def)

lemma race_world_upd:
  "(race_world v c)\<lparr>mem_ks := (mem_ks (race_world v c))\<lparr>strs := (strs (mem_ks (race_world v c)))(idempotencyKey ''t#0'' := v')\<rparr>, mem_faults := []\<rparr>
     = race_world v' c"
  by (simp add: race_world_def sample_world_def fun_upd_def cong: if_cong)

lemmas race_eval = Let_def mem_eval sample_scripts_def reply_int_def lua_field_def time_unix_def
  unix_text_def lua_set_ex_def

lemma race_acquire:
  "SetProcessing (mem_env True) sample_config sample_scripts ''t#0'' n (race_world None c) =
     ((True, None), race_world (held_by n c) c)"
  by (simp add: SetProcessing_def race_eval race_world_def sample_world_def idempotencyLuaScript_def fun_upd_def cong: if_cong)

lemma race_refuse:
  "SetProcessing (mem_env True) sample_config sample_scripts ''t#0'' n (race_world (held_by m t) c) =
     ((False, None), race_world (held_by m t) c)"
  by (simp add: SetProcessing_def race_eval race_world_def sample_world_def idempotencyLuaScript_def processing_payload_def)

lemma processing_not_completed:
  "\<exists>rec. json_Unmarshal_idem (processing_payload m (show_int t)) = Inr rec \<and> RecStatus rec = ''processing''"
  by (simp add: processing_payload_def dec_idem_field_def zero_idem_def Let_def lower_char_def byte_in_def)

lemma race_get:
  "mem_client True (GET (idempotencyKey ''t#0'')) (race_world (Some (v, x)) c) = (Inr (RText v), race_world (Some (v, x)) c)"
  by (simp add: mem_eval race_world_def sample_world_def)

lemma race_check:
  "IsCompleted (mem_env True) ''t#0'' (race_world (held_by m t) c) = ((False, None), race_world (held_by m t) c)"
  using processing_not_completed [of m t] by (auto simp: IsCompleted_def race_get reply_text_def)

lemma race_reclaim:
  "30 \<le> c - t \<Longrightarrow> TryReclaimStale (mem_env True) sample_config sample_scripts ''t#0'' n 30000000000 (race_world (held_by m t) c) =
     ((True, None), race_world (held_by n c) c)"
  by (simp add: TryReclaimStale_def race_eval race_world_def sample_world_def reclaimStaleLuaScript_def processing_payload_def
      max_age_secs_sample [unfolded max_age_secs_def] fun_upd_def cong: if_cong)

lemma race_clear:
  "ClearProcessing (mem_env True) ''t#0'' (race_world v c) = (None, race_world None c)"
  by (simp add: ClearProcessing_def race_eval race_world_def sample_world_def reply_err_def fun_upd_def cong: if_cong)

definition at_race :: "mem_world \<Rightarrow> phase list \<Rightarrow> mem_world race" where
  "at_race w ps = \<lparr>store = w, phase = (\<lambda>i. if i < length ps then ps ! i else Queued)\<rparr>"

lemma move_at_race: "i < length ps \<Longrightarrow> move i p w (at_race w0 ps) = at_race w (ps[i := p])"
  by (auto simp: move_def at_race_def fun_eq_iff nth_list_update)

lemma start_at_race: "start_race w = at_race w [Queued, Queued, Queued]"
  by (auto simp: start_race_def at_race_def fun_eq_iff nth_Cons split: nat.splits)

lemma at_race_sels [simp]:
  "store (at_race w ps) = w" "phase (at_race w ps) i = (if i < length ps then ps ! i else Queued)"
  by (simp_all add: at_race_def)

lemma at_acquire:
  assumes "i < length ps" "ps ! i = Queued"
    and "SetProcessing (mem_env True) sample_config sample_scripts ''t#0'' (race_names i) w = ((a, er), w')"
  shows "mem_race (at_race w ps) (at_race w' (ps[i := if a then Inside (now_of (mem_env True) w) else Refused]))"
  using race_step.acquire [of "at_race w ps" i "mem_env True" sample_config sample_scripts "''t#0''" race_names a er w' mem_ks] assms
  by (cases a) (simp_all add: move_at_race)

lemma at_check:
  assumes "i < length ps" "ps ! i = Refused" and "IsCompleted (mem_env True) ''t#0'' w = ((b, er), w')"
  shows "mem_race (at_race w ps) (at_race w' (ps[i := if b then Outside else NotDone]))"
  using race_step.check [of "at_race w ps" i "mem_env True" "''t#0''" b er w' mem_ks sample_config sample_scripts race_names] assms
  by (cases b) (simp_all add: move_at_race)

lemma at_reclaim:
  assumes "i < length ps" "ps ! i = NotDone"
    and "TryReclaimStale (mem_env True) sample_config sample_scripts ''t#0'' (race_names i) 30000000000 w = ((a, er), w')"
  shows "mem_race (at_race w ps) (at_race w' (ps[i := if a then Inside (now_of (mem_env True) w) else Outside]))"
  using race_step.reclaim [of "at_race w ps" i "mem_env True" sample_config sample_scripts "''t#0''" race_names a er w' mem_ks] assms
  by (cases a) (simp_all add: move_at_race)

lemma at_waits: "mem_race (at_race (race_world v c) ps) (at_race (race_world v c') ps)"
  using race_step.other [of mem_ks "race_world v c'" "''t#0''" "at_race (race_world v c) ps" "mem_env True" sample_config
      sample_scripts race_names]
  by (simp add: race_world_ks) (simp add: at_race_def)

text \<open>Worker 0 gets in, the clock moves past the idle threshold, worker 1 is refused, finds the attempt not completed and takes the lock over.\<close>

lemma overstay_run:
  assumes "30 \<le> c' - c"
  shows "mem_race\<^sup>*\<^sup>* (start_race (race_world None c)) (at_race (race_world (held_by ''w1'' c') c') [Inside c, Inside c', Queued])"
proof -
  let ?s = "start_race (race_world None c)" and ?h = "race_world (held_by ''w0'' c) c'"
  note step = rtranclp.rtrancl_into_rtrancl
  have "mem_race\<^sup>*\<^sup>* ?s (at_race (race_world (held_by ''w0'' c) c) [Inside c, Queued, Queued])"
    using at_acquire [OF _ _ race_acquire, of 0 "[Queued, Queued, Queued]"] by (simp add: start_at_race r_into_rtranclp)
  then have "mem_race\<^sup>*\<^sup>* ?s (at_race ?h [Inside c, Queued, Queued])" by (rule step) (rule at_waits)
  then have "mem_race\<^sup>*\<^sup>* ?s (at_race ?h [Inside c, Refused, Queued])"
    by (rule step) (use at_acquire [OF _ _ race_refuse, of 1 "[Inside c, Queued, Queued]"] in simp)
  then have "mem_race\<^sup>*\<^sup>* ?s (at_race ?h [Inside c, NotDone, Queued])"
    by (rule step) (use at_check [OF _ _ race_check, of 1 "[Inside c, Refused, Queued]"] in simp)
  then show ?thesis
    by (rule step) (use at_reclaim [OF _ _ race_reclaim [OF assms], of 1 "[Inside c, NotDone, Queued]"] in simp)
qed

subsection \<open>Properties\<close>

text \<open>C7: Mutual exclusion over all interleavings: as long as nobody stays past the gate for the idle threshold and the key's
  time to live is not shorter than that, at most one of any number of workers is past the gate of an attempt at any time, whatever Redis
  commands get lost or repeated and however often the message is redelivered; and that worker still holds the lock.\<close>

theorem one_worker_inside:
  assumes "redis_env e ks" and "scripts_loaded scr (ks w)" and "lock_at k (ks w) \<noteq> Foreign"
    and "0 < sint (DLQTTLSeconds (CfgRetry cfg))"
    and "max_age_secs (ClaimIdleThreshold (CfgWorker cfg)) \<le> sint (DLQTTLSeconds (CfgRetry cfg))"
    and "(timely_step e ks cfg scr k name)\<^sup>*\<^sup>* (start_race w) s"
    and "phase s i = Inside t"
  shows "lock_at k (ks (store s)) = Held (name i) t \<and> (\<forall>j u. phase s j = Inside u \<longrightarrow> j = i)"
proof -
  have "race_inv ks scr k name (start_race w)" using assms(2,3) by (simp add: race_inv_def start_race_def)
  from redis_env.race_run_keeps [OF assms(1) assms(6) this assms(4,5)] show ?thesis
    using race_invE [of ks scr k name s i t] assms(7) by blast
qed

text \<open>C39: What one worker that overstays does to the others. Worker i is still past the gate while worker j has taken the lock over (by C7
  that needs i to have been there for the idle threshold). As long as j holds the lock, \<open>SetProcessing\<close> refuses a third worker l. Now i
  fails and calls \<open>ClearProcessing\<close>, which deletes the key whoever holds it: when it returns nil the attempt is free although j is at
  work, and the next \<open>SetProcessing\<close> of l that reports success puts l past the gate beside j, which no longer holds the lock. Both
  steps are steps of the race in which no key expires. (Such a state is reached in memory: see the witness.)\<close>

theorem late_clear_breaks_lock:
  assumes "redis_env e ks" and "scripts_loaded scr (ks (store s))" and "0 < sint (DLQTTLSeconds (CfgRetry cfg))"
    and "phase s i = Inside t" and "phase s j = Inside u" and "phase s l = Queued" and "i \<noteq> j"
    and "lock_at k (ks (store s)) = Held (name j) u"
    and "ClearProcessing e k (store s) = (None, w)" and "SetProcessing e cfg scr k (name l) w = ((True, er), w')"
    and "s1 = move i Outside w s" and "s2 = move l (Inside (now_of e w)) w' s1"
  shows "\<not> fst (fst (SetProcessing e cfg scr k (name l) (store s))) \<and>
    race_step e ks cfg scr k name s s1 \<and> lock_at k (ks (store s1)) = Free \<and> phase s1 j = Inside u \<and>
    race_step e ks cfg scr k name s1 s2 \<and> phase s2 j = Inside u \<and> phase s2 l = Inside (now_of e w) \<and> j \<noteq> l \<and>
    lock_at k (ks (store s2)) = Held (name l) (now_of e w)"
proof -
  obtain a er' v where q: "SetProcessing e cfg scr k (name l) (store s) = ((a, er'), v)" by (metis prod.exhaust)
  have "\<not> a" using redis_env.SetProcessing_spec [OF assms(1,2) _ assms(3) q] assms(8) by auto
  moreover from redis_env.ClearProcessing_spec [OF assms(1,9)] assms(2) have free: "lock_at k (ks w) = Free" "scripts_loaded scr (ks w)"
    by (auto simp: lock_of_def scripts_same_but)
  moreover have "lock_at k (ks w') = Held (name l) (now_of e w)"
    using redis_env.SetProcessing_spec [OF assms(1) free(2) _ assms(3,10)] free(1) by (auto simp: now_of_def)
  moreover have "race_step e ks cfg scr k name s s1" unfolding assms(11) by (rule race_step.clear [OF assms(4,9)])
  moreover have "race_step e ks cfg scr k name s1 s2"
    using race_step.acquire [of s1 l e cfg scr k name True er w'] assms(4,6,10,11,12) by (cases "l = i") (auto simp: move_def)
  moreover have "j \<noteq> l" using assms(5,6) by auto
  ultimately show ?thesis using assms(5,7) q by (simp add: assms(11,12) move_def)
qed

subsection \<open>Witnesses\<close>

theorem one_worker_inside_witness:
  "lock_at ''t#0'' (mem_ks (race_world (held_by ''w0'' 5) 5)) = Held ''w0'' 5 \<and>
   phase (at_race (race_world (held_by ''w0'' 5) 5) [Inside 5, Queued, Queued]) 0 = Inside 5"
proof -
  let ?s = "at_race (race_world (held_by ''w0'' 5) 5) [Inside 5, Queued, Queued]"
  have "mem_race (start_race (race_world None 5)) ?s"
    using at_acquire [OF _ _ race_acquire, of 0 "[Queued, Queued, Queued]"] by (simp add: start_at_race)
  then have run: "(timely_step (mem_env True) mem_ks sample_config sample_scripts ''t#0'' race_names)\<^sup>*\<^sup>* (start_race (race_world None 5)) ?s"
    by (intro r_into_rtranclp) (simp add: timely_step_def timely_def start_race_def)
  show ?thesis
    using one_worker_inside [OF mem_env.redis_env_axioms _ _ _ _ run, of 0 5]
    by (simp add: scripts_loaded_def sample_scripts_def race_world_ks lock_of_def max_age_secs_sample)
qed

text \<open>The three workers in memory: every step is named, and the worker that is robbed has been inside for no time at all.\<close>

theorem late_clear_breaks_lock_witness:
  "\<exists>s s1 s2. mem_race\<^sup>*\<^sup>* (start_race (race_world None 1700000000)) s \<and>
     phase s 0 = Inside 1700000000 \<and> phase s 1 = Inside 1700000030 \<and> lock_at ''t#0'' (mem_ks (store s)) = Held ''w1'' 1700000030 \<and>
     mem_race s s1 \<and> s1 = move 0 Outside (snd (ClearProcessing (mem_env True) ''t#0'' (store s))) s \<and>
     mem_race s1 s2 \<and> phase s2 1 = Inside 1700000030 \<and> phase s2 2 = Inside 1700000030 \<and> timely (mem_env True) sample_config s2"
proof -
  let ?c = "1700000000 :: int" and ?c' = "1700000030 :: int"
  let ?s = "at_race (race_world (held_by ''w1'' ?c') ?c') [Inside ?c, Inside ?c', Queued]"
  define s1 where "s1 = move 0 Outside (race_world None ?c') ?s"
  define s2 where "s2 = move 2 (Inside ?c') (race_world (held_by ''w2'' ?c') ?c') s1"
  have run: "mem_race\<^sup>*\<^sup>* (start_race (race_world None ?c)) ?s" by (rule overstay_run) simp
  have held: "lock_at ''t#0'' (mem_ks (store ?s)) = Held ''w1'' ?c'"
    by (simp add: race_world_ks lock_of_def)
  have loaded: "scripts_loaded sample_scripts (mem_ks (store ?s))"
    by (simp add: scripts_loaded_def sample_scripts_def race_world_ks)
  have pos: "0 < sint (DLQTTLSeconds (CfgRetry sample_config))" by simp
  have acq: "SetProcessing (mem_env True) sample_config sample_scripts ''t#0'' (race_names 2) (race_world None ?c') =
      ((True, None), race_world (held_by ''w2'' ?c') ?c')" using race_acquire [of "''w2''" ?c'] by simp
  have held': "lock_at ''t#0'' (mem_ks (store ?s)) = Held (race_names 1) ?c'" using held by simp
  have clear: "ClearProcessing (mem_env True) ''t#0'' (store ?s) = (None, race_world None ?c')" using race_clear by simp
  have ph: "phase ?s 0 = Inside ?c" "phase ?s 1 = Inside ?c'" "phase ?s 2 = Queued" by simp_all
  have s2: "s2 = move 2 (Inside (now_of (mem_env True) (race_world None ?c'))) (race_world (held_by ''w2'' ?c') ?c') s1"
    by (simp add: s2_def)
  note L = late_clear_breaks_lock [OF mem_env.redis_env_axioms loaded pos ph _ held' clear acq s1_def s2]
  have "timely (mem_env True) sample_config s2"
    by (auto simp: s2_def s1_def move_def timely_def max_age_secs_sample nth_Cons split: if_splits nat.splits)
  with run held ph L clear s1_def show ?thesis
    by (intro exI [of _ ?s] exI [of _ s1] exI [of _ s2]) simp
qed

end
